(* ===== verification/DM_Prelude.thy ===== *)
theory DM_Prelude
  imports Main "HOL-Library.Word"
begin

text \<open>
  Shared vocabulary of the development: the Rust integer operations the sources use
  (\<^verbatim>\<open>i64\<close> as \<^typ>\<open>int\<close> with the range written out, \<^verbatim>\<open>u64\<close> as a 64-bit word),
  bounded channels, generic lemmas on half-open integer ranges and on lists, and the
  named collections the component proofs extend.
\<close>

section \<open>Collections\<close>

named_theorems rust_int "definitions of the Rust integer operations"
named_theorems event_simps "projections and tests on market events"

section \<open>Rust integers\<close>

type_synonym i64 = int
type_synonym u64 = "64 word"
type_synonym u32 = "32 word"
type_synonym u8 = "8 word"

definition i64_min :: i64 where "i64_min = - (2 ^ 63)"
definition i64_max :: i64 where "i64_max = 2 ^ 63 - 1"

definition in_i64 :: "int \<Rightarrow> bool" where
  "in_i64 x \<longleftrightarrow> i64_min \<le> x \<and> x \<le> i64_max"

text \<open>\<^verbatim>\<open>i64::saturating_add\<close>, \<^verbatim>\<open>i64::checked_add\<close>, \<^verbatim>\<open>i64::checked_mul\<close>.\<close>

definition saturating_add_i64 :: "i64 \<Rightarrow> i64 \<Rightarrow> i64" where
  "saturating_add_i64 x y = max i64_min (min i64_max (x + y))"

definition checked_i64 :: "int \<Rightarrow> i64 option" where
  "checked_i64 x = (if in_i64 x then Some x else None)"

definition checked_add_i64 :: "i64 \<Rightarrow> i64 \<Rightarrow> i64 option" where
  "checked_add_i64 x y = checked_i64 (x + y)"

definition checked_mul_i64 :: "i64 \<Rightarrow> i64 \<Rightarrow> i64 option" where
  "checked_mul_i64 x y = checked_i64 (x * y)"

text \<open>Plain \<^verbatim>\<open>i64\<close> subtraction: two's complement, as a release build computes it.\<close>

definition sub_i64 :: "i64 \<Rightarrow> i64 \<Rightarrow> i64" where
  "sub_i64 x y = (x - y + 2 ^ 63) mod 2 ^ 64 - 2 ^ 63"

text \<open>\<^verbatim>\<open>Ord::clamp\<close>.\<close>

definition clamp :: "int \<Rightarrow> int \<Rightarrow> int \<Rightarrow> int" where
  "clamp x lo hi = (if x < lo then lo else if hi < x then hi else x)"

text \<open>\<^verbatim>\<open>u64\<close> operations; \<^verbatim>\<open>u64::MAX\<close> is the word \<open>- 1\<close>.\<close>

definition u64_max :: u64 where "u64_max = - 1"

definition saturating_add_u64 :: "u64 \<Rightarrow> u64 \<Rightarrow> u64" where
  "saturating_add_u64 a b = (if unat a + unat b < 2 ^ 64 then a + b else u64_max)"

definition saturating_mul_u64 :: "u64 \<Rightarrow> u64 \<Rightarrow> u64" where
  "saturating_mul_u64 a b = (if unat a * unat b < 2 ^ 64 then a * b else u64_max)"

definition checked_add_u64 :: "u64 \<Rightarrow> u64 \<Rightarrow> u64 option" where
  "checked_add_u64 a b = (if unat a + unat b < 2 ^ 64 then Some (a + b) else None)"

text \<open>\<^verbatim>\<open>u64::cast_signed\<close> and \<^verbatim>\<open>i64::cast_unsigned\<close>: the same 64 bits.\<close>

definition cast_signed :: "u64 \<Rightarrow> i64" where "cast_signed w = sint w"
definition cast_unsigned :: "i64 \<Rightarrow> u64" where "cast_unsigned x = word_of_int x"

lemmas [rust_int] = in_i64_def i64_min_def i64_max_def saturating_add_i64_def
  checked_i64_def checked_add_i64_def checked_mul_i64_def

lemma u64_max_unat [simp]: "unat u64_max = 2 ^ 64 - 1"
  by (simp add: u64_max_def unsigned_minus_1_eq_mask mask_eq_exp_minus_1)

lemma of_nat_unat_u64: "of_nat (unat (w :: u64)) = w"
  by simp

lemma cast_roundtrip [simp]: "cast_unsigned (cast_signed w) = w"
  by (simp add: cast_signed_def cast_unsigned_def)

lemma cast_signed_range: "in_i64 (cast_signed w)"
  using sint_range_size [of w] by (simp add: cast_signed_def rust_int word_size)

lemma cast_signed_inj [simp]: "cast_signed a = cast_signed b \<longleftrightarrow> a = b"
  by (metis cast_roundtrip)

lemma unat_saturating_add_u64:
  "unat (saturating_add_u64 a b) = min (unat a + unat b) (2 ^ 64 - 1)"
  by (auto simp: saturating_add_u64_def unat_word_ariths)

lemma unat_saturating_mul_u64:
  "unat (saturating_mul_u64 a b) = min (unat a * unat b) (2 ^ 64 - 1)"
  by (auto simp: saturating_mul_u64_def unat_word_ariths)

lemma saturating_add_one_gt: "in_i64 t \<Longrightarrow> t \<noteq> i64_max \<Longrightarrow> saturating_add_i64 t 1 = t + 1"
  by (auto simp: rust_int)

lemma saturating_add_one_ge: "in_i64 t \<Longrightarrow> t \<le> saturating_add_i64 t 1"
  by (auto simp: rust_int)

lemma sub_i64_exact [simp]: "in_i64 (x - y) \<Longrightarrow> sub_i64 x y = x - y"
  by (simp add: sub_i64_def in_i64_def i64_min_def i64_max_def)

lemma clamp_bounds: "lo \<le> hi \<Longrightarrow> lo \<le> clamp x lo hi \<and> clamp x lo hi \<le> hi"
  by (simp add: clamp_def)

section \<open>Half-open ranges\<close>

text \<open>The set a list of half-open segments \<open>[from, to)\<close> denotes.\<close>

type_synonym seg = "int \<times> int"

definition seg_set :: "seg \<Rightarrow> int set" where
  "seg_set s = {fst s ..< snd s}"

definition covered :: "seg list \<Rightarrow> int set" where
  "covered segs = \<Union> (seg_set ` set segs)"

lemma seg_set_pair [simp]: "seg_set (a, b) = {a ..< b}"
  by (simp add: seg_set_def)

lemma covered_Nil [simp]: "covered [] = {}"
  by (simp add: covered_def)

lemma covered_Cons [simp]: "covered (s # segs) = seg_set s \<union> covered segs"
  by (simp add: covered_def)

lemma covered_append [simp]: "covered (xs @ ys) = covered xs \<union> covered ys"
  by (simp add: covered_def)

section \<open>Lists\<close>

lemma sorted_wrt_map_fst_less:
  "sorted_wrt (<) (map f xs) \<Longrightarrow> i < j \<Longrightarrow> j < length xs \<Longrightarrow> f (xs ! i) < f (xs ! j)"
  by (simp add: sorted_wrt_iff_nth_less)

end
