(* ===== verification/Events.thy ===== *)
theory Events
  imports DM_Prelude
begin

text \<open>
  The public event model of \<^verbatim>\<open>datamancer-core\<close>: instruments, event kinds, the
  \<^verbatim>\<open>MarketEvent\<close> enum with its four payload structs, control kinds and gap spans, the
  error enum with its \<^verbatim>\<open>Display\<close>, the adjustment tokens, and the event helpers of
  \<^verbatim>\<open>session.rs\<close> (\<^verbatim>\<open>source_ts\<close>, \<^verbatim>\<open>data_source_ts\<close>, \<^verbatim>\<open>stamp_seq\<close>,
  \<^verbatim>\<open>provider_error_message\<close>). Newtypes (\<^verbatim>\<open>Seq\<close>, \<^verbatim>\<open>Timestamp\<close>, \<^verbatim>\<open>Price\<close>,
  \<^verbatim>\<open>Quantity\<close>, \<^verbatim>\<open>ProviderId\<close>) are type synonyms of their representation.
\<close>

section \<open>Scalars\<close>

type_synonym seq = u64
type_synonym timestamp = i64
type_synonym price = i64
type_synonym quantity = u64
type_synonym provider_id = string

definition SYNTHETIC :: seq where "SYNTHETIC = u64_max"

definition QUANTITY_SCALE :: u64 where "QUANTITY_SCALE = 1000000000"

definition quantity_from_units :: "u64 \<Rightarrow> quantity" where
  "quantity_from_units units = saturating_mul_u64 units QUANTITY_SCALE"

section \<open>Instruments\<close>

datatype asset_class = Equity | Etf | Crypto

fun asset_class_display :: "asset_class \<Rightarrow> string" where
  "asset_class_display Equity = ''equity''"
| "asset_class_display Etf = ''etf''"
| "asset_class_display Crypto = ''crypto''"

record instrument =
  i_provider :: provider_id
  i_asset_class :: asset_class
  i_symbol :: string

definition instrument_new :: "provider_id \<Rightarrow> asset_class \<Rightarrow> string \<Rightarrow> instrument" where
  "instrument_new p a s = \<lparr> i_provider = p, i_asset_class = a, i_symbol = s \<rparr>"

definition instrument_display :: "instrument \<Rightarrow> string" where
  "instrument_display i =
     i_symbol i @ '' ('' @ i_provider i @ ''/'' @ asset_class_display (i_asset_class i) @ '')''"

section \<open>Event kinds and surfaces\<close>

datatype bar_interval = OneSecond | OneMinute | FiveMinute | FifteenMinute | OneHour | OneDay

definition ALL_INTERVALS :: "bar_interval list" where
  "ALL_INTERVALS = [OneSecond, OneMinute, FiveMinute, FifteenMinute, OneHour, OneDay]"

datatype event_kind = KTrade | KQuote | KBar bar_interval

definition enumerate_kinds :: "event_kind list" where
  "enumerate_kinds = [KTrade, KQuote] @ map KBar ALL_INTERVALS"

datatype surface = Live | History

definition ALL_SURFACES :: "surface list" where
  "ALL_SURFACES = [Live, History]"

text \<open>The derived \<^verbatim>\<open>Ord\<close> of \<^verbatim>\<open>BarInterval\<close> and \<^verbatim>\<open>EventKind\<close> is declaration order.\<close>

primrec interval_rank :: "bar_interval \<Rightarrow> nat" where
  "interval_rank OneSecond = 0"
| "interval_rank OneMinute = 1"
| "interval_rank FiveMinute = 2"
| "interval_rank FifteenMinute = 3"
| "interval_rank OneHour = 4"
| "interval_rank OneDay = 5"

primrec kind_rank :: "event_kind \<Rightarrow> nat" where
  "kind_rank KTrade = 0"
| "kind_rank KQuote = 1"
| "kind_rank (KBar b) = 2 + interval_rank b"

lemma interval_rank_inj [simp]: "interval_rank a = interval_rank b \<longleftrightarrow> a = b"
  by (cases a; cases b; simp)

lemma kind_rank_inj [simp]: "kind_rank a = kind_rank b \<longleftrightarrow> a = b"
  by (cases a; cases b; simp)

instantiation bar_interval :: linorder
begin
definition less_eq_bar_interval :: "bar_interval \<Rightarrow> bar_interval \<Rightarrow> bool" where
  "less_eq_bar_interval a b \<longleftrightarrow> interval_rank a \<le> interval_rank b"
definition less_bar_interval :: "bar_interval \<Rightarrow> bar_interval \<Rightarrow> bool" where
  "less_bar_interval a b \<longleftrightarrow> interval_rank a < interval_rank b"
instance
  by standard (auto simp: less_eq_bar_interval_def less_bar_interval_def dest: antisym)
end

instantiation event_kind :: linorder
begin
definition less_eq_event_kind :: "event_kind \<Rightarrow> event_kind \<Rightarrow> bool" where
  "less_eq_event_kind a b \<longleftrightarrow> kind_rank a \<le> kind_rank b"
definition less_event_kind :: "event_kind \<Rightarrow> event_kind \<Rightarrow> bool" where
  "less_event_kind a b \<longleftrightarrow> kind_rank a < kind_rank b"
instance
  by standard (auto simp: less_eq_event_kind_def less_event_kind_def dest: antisym)
end

section \<open>Events\<close>

record gap_span =
  from_source_ts :: timestamp
  to_source_ts :: timestamp

abbreviation gap_span_of :: "timestamp \<Rightarrow> timestamp \<Rightarrow> gap_span" where
  "gap_span_of f t \<equiv> \<lparr> from_source_ts = f, to_source_ts = t \<rparr>"

datatype disconnect_cause = CauseError | CauseUnauthenticated | CompanionUnreachable | CauseDisabled

datatype control_kind =
    ProviderConnected provider_id
  | ProviderDisconnected provider_id string disconnect_cause
  | SubscriptionChanged provider_id instrument event_kind bool
  | Gap provider_id instrument gap_span
  | ProviderError provider_id string
  | SessionClosing

record trade =
  t_instrument :: instrument
  t_source_ts :: timestamp
  t_rx_ts :: timestamp
  t_seq :: seq
  t_price :: price
  t_size :: quantity

record quote =
  q_instrument :: instrument
  q_source_ts :: timestamp
  q_rx_ts :: timestamp
  q_seq :: seq
  q_bid :: price
  q_bid_size :: quantity
  q_ask :: price
  q_ask_size :: quantity

record bar =
  b_instrument :: instrument
  b_interval :: bar_interval
  b_source_ts :: timestamp
  b_rx_ts :: timestamp
  b_seq :: seq
  b_open :: price
  b_high :: price
  b_low :: price
  b_close :: price
  b_volume :: quantity

record control =
  c_source_ts :: timestamp
  c_rx_ts :: timestamp
  c_seq :: seq
  c_kind :: control_kind

datatype market_event = Trade trade | Quote quote | Bar bar | Control control

fun seq_of :: "market_event \<Rightarrow> seq option" where
  "seq_of (Trade t) = Some (t_seq t)"
| "seq_of (Quote q) = Some (q_seq q)"
| "seq_of (Bar b) = Some (b_seq b)"
| "seq_of (Control c) = Some (c_seq c)"

section \<open>Event helpers of the session layer\<close>

fun source_ts :: "market_event \<Rightarrow> timestamp option" where
  "source_ts (Trade t) = Some (t_source_ts t)"
| "source_ts (Quote q) = Some (q_source_ts q)"
| "source_ts (Bar b) = Some (b_source_ts b)"
| "source_ts (Control c) = Some (c_source_ts c)"

definition data_source_ts :: "market_event \<Rightarrow> timestamp option" where
  "data_source_ts ev = (case ev of Control _ \<Rightarrow> None | _ \<Rightarrow> source_ts ev)"

fun stamp_seq :: "market_event \<Rightarrow> seq \<Rightarrow> market_event" where
  "stamp_seq (Trade t) s = Trade (t\<lparr> t_seq := s \<rparr>)"
| "stamp_seq (Quote q) s = Quote (q\<lparr> q_seq := s \<rparr>)"
| "stamp_seq (Bar b) s = Bar (b\<lparr> b_seq := s \<rparr>)"
| "stamp_seq (Control c) s = Control (c\<lparr> c_seq := s \<rparr>)"

text \<open>\<^verbatim>\<open>matches!(ev, Trade | Quote | Bar)\<close>, the data events.\<close>

definition is_data :: "market_event \<Rightarrow> bool" where
  "is_data ev = (case ev of Control _ \<Rightarrow> False | _ \<Rightarrow> True)"

text \<open>The payload of an event with its sequence slot cleared: what stamping keeps.\<close>

definition unstamped :: "market_event \<Rightarrow> market_event" where
  "unstamped ev = stamp_seq ev 0"

text \<open>The sequence number of an event; every variant carries one.\<close>

definition ev_seq :: "market_event \<Rightarrow> seq" where
  "ev_seq ev = the (seq_of ev)"

section \<open>Errors\<close>

datatype error =
    UnknownProvider string
  | UnsupportedEventKind event_kind instrument surface
  | LiveSessionConflict instrument event_kind
  | PersistenceRequired
  | SessionClosed
  | DuplicateSubscription instrument event_kind
  | NotSubscribed instrument event_kind
  | UnsupportedClientScope
  | EventsAlreadyTaken
  | Provider string string
  | Unauthenticated string string
  | Storage string
  | Config string
  | Io string

type_synonym 'a res = "error + 'a"

fun interval_debug :: "bar_interval \<Rightarrow> string" where
  "interval_debug OneSecond = ''OneSecond''"
| "interval_debug OneMinute = ''OneMinute''"
| "interval_debug FiveMinute = ''FiveMinute''"
| "interval_debug FifteenMinute = ''FifteenMinute''"
| "interval_debug OneHour = ''OneHour''"
| "interval_debug OneDay = ''OneDay''"

fun kind_debug :: "event_kind \<Rightarrow> string" where
  "kind_debug KTrade = ''Trade''"
| "kind_debug KQuote = ''Quote''"
| "kind_debug (KBar b) = ''Bar('' @ interval_debug b @ '')''"

fun surface_debug :: "surface \<Rightarrow> string" where
  "surface_debug Live = ''Live''"
| "surface_debug History = ''History''"

fun error_display :: "error \<Rightarrow> string" where
  "error_display (UnknownProvider p) = ''unknown provider: '' @ p"
| "error_display (UnsupportedEventKind k i s) =
     ''no registered provider supports event kind '' @ kind_debug k @ '' for ''
     @ instrument_display i @ '' on the '' @ surface_debug s @ '' surface''"
| "error_display (LiveSessionConflict i k) =
     ''a live session for '' @ kind_debug k @ '' on '' @ instrument_display i
     @ '' is already active''"
| "error_display PersistenceRequired =
     ''this configuration requires persistence but none is configured''"
| "error_display SessionClosed = ''session closed''"
| "error_display (DuplicateSubscription i k) =
     ''client already subscribed to '' @ kind_debug k @ '' on '' @ instrument_display i"
| "error_display (NotSubscribed i k) =
     ''client is not subscribed to '' @ kind_debug k @ '' on '' @ instrument_display i"
| "error_display UnsupportedClientScope =
     ''client subscriptions are pure-live; historical and backfill scopes are unsupported''"
| "error_display EventsAlreadyTaken =
     ''event stream is currently held by another consumer''"
| "error_display (Provider p m) = ''provider '' @ p @ '': '' @ m"
| "error_display (Unauthenticated p m) = ''provider '' @ p @ '': unauthenticated: '' @ m"
| "error_display (Storage m) = ''storage: '' @ m"
| "error_display (Config m) = ''config: '' @ m"
| "error_display (Io m) = m"

fun provider_error_message :: "error \<Rightarrow> string" where
  "provider_error_message (Provider p m) = m"
| "provider_error_message (Unauthenticated p m) = ''unauthenticated: '' @ m"
| "provider_error_message e = error_display e"

section \<open>Adjustment tokens\<close>

datatype adjustment = Raw | Split | Dividend | SpinOff | All

fun adjustment_as_str :: "adjustment \<Rightarrow> string" where
  "adjustment_as_str Raw = ''raw''"
| "adjustment_as_str Split = ''split''"
| "adjustment_as_str Dividend = ''dividend''"
| "adjustment_as_str SpinOff = ''spinoff''"
| "adjustment_as_str All = ''all''"

definition adjustment_from_token :: "string \<Rightarrow> adjustment option" where
  "adjustment_from_token tok =
     (if tok = ''raw'' then Some Raw
      else if tok = ''split'' then Some Split
      else if tok = ''dividend'' then Some Dividend
      else if tok = ''spinoff'' then Some SpinOff
      else if tok = ''all'' then Some All
      else None)"

section \<open>Lemmas\<close>

lemma enumerate_kinds_complete: "k \<in> set enumerate_kinds"
proof (cases k)
  case (KBar b)
  then show ?thesis by (cases b) (simp_all add: enumerate_kinds_def ALL_INTERVALS_def)
qed (simp_all add: enumerate_kinds_def)

lemma enumerate_kinds_sorted: "sorted_wrt (<) enumerate_kinds"
  by (simp add: enumerate_kinds_def ALL_INTERVALS_def less_event_kind_def)

lemma enumerate_kinds_distinct: "distinct enumerate_kinds"
  using enumerate_kinds_sorted strict_sorted_iff by blast

lemma seq_of_stamp [simp, event_simps]: "seq_of (stamp_seq ev s) = Some s"
  by (cases ev) simp_all

lemma ev_seq_stamp [simp, event_simps]: "ev_seq (stamp_seq ev s) = s"
  by (simp add: ev_seq_def)

lemma seq_of_Some: "seq_of ev = Some (ev_seq ev)"
  by (cases ev) (simp_all add: ev_seq_def)

lemma stamp_stamp [simp, event_simps]: "stamp_seq (stamp_seq ev s) s' = stamp_seq ev s'"
  by (cases ev) simp_all

lemma unstamped_stamp [simp, event_simps]: "unstamped (stamp_seq ev s) = unstamped ev"
  by (simp add: unstamped_def)

lemma stamp_self [simp, event_simps]: "stamp_seq ev (ev_seq ev) = ev"
  by (cases ev) (simp_all add: ev_seq_def)

lemma stamp_unstamped [simp, event_simps]: "stamp_seq (unstamped ev) s = stamp_seq ev s"
  by (simp add: unstamped_def)

lemma source_ts_stamp [simp, event_simps]: "source_ts (stamp_seq ev s) = source_ts ev"
  by (cases ev) simp_all

lemma data_source_ts_stamp [simp, event_simps]: "data_source_ts (stamp_seq ev s) = data_source_ts ev"
  by (cases ev) (simp_all add: data_source_ts_def)

lemma is_data_stamp [simp, event_simps]: "is_data (stamp_seq ev s) = is_data ev"
  by (cases ev) (simp_all add: is_data_def)

lemma data_source_ts_None [simp]: "data_source_ts ev = None \<longleftrightarrow> \<not> is_data ev"
  by (cases ev) (simp_all add: data_source_ts_def is_data_def)

lemma is_data_Control [simp]: "\<not> is_data (Control c)"
  by (simp add: is_data_def)

lemma adjustment_token_roundtrip [simp]: "adjustment_from_token (adjustment_as_str a) = Some a"
  by (cases a) (simp_all add: adjustment_from_token_def)

lemma adjustment_from_token_inv:
  "adjustment_from_token tok = Some a \<Longrightarrow> tok = adjustment_as_str a"
  by (auto simp: adjustment_from_token_def split: if_splits)

lemma adjustment_as_str_inj [simp]: "adjustment_as_str a = adjustment_as_str b \<longleftrightarrow> a = b"
  by (metis adjustment_token_roundtrip option.inject)

lemma unat_quantity_from_units:
  "unat (quantity_from_units u) = min (unat u * 1000000000) (2 ^ 64 - 1)"
  by (simp add: quantity_from_units_def unat_saturating_mul_u64 QUANTITY_SCALE_def)

section \<open>Sample values\<close>

text \<open>Concrete events the witnesses of the component theories evaluate on.\<close>

definition demo_instrument :: instrument where
  "demo_instrument = instrument_new ''alpaca'' Equity ''AAPL''"

definition demo_trade :: "timestamp \<Rightarrow> seq \<Rightarrow> market_event" where
  "demo_trade ts s =
     Trade \<lparr> t_instrument = demo_instrument, t_source_ts = ts, t_rx_ts = ts, t_seq = s,
             t_price = 100, t_size = 1 \<rparr>"

lemma demo_trade_facts [simp]:
  "is_data (demo_trade ts s)" "ev_seq (demo_trade ts s) = s" "data_source_ts (demo_trade ts s) = Some ts"
  "stamp_seq (demo_trade ts s) s' = demo_trade ts s'" "unstamped (demo_trade ts s) = demo_trade ts 0"
  by (simp_all add: demo_trade_def is_data_def ev_seq_def data_source_ts_def unstamped_def)

end
