(* ===== verification/Coverage.thy ===== *)
theory Coverage
  imports Events
begin

text \<open>
  \<^verbatim>\<open>datamancer/src/storage/coverage.rs\<close>: the bookkeeping of covered source-time
  segments. A \<^verbatim>\<open>CoverageDoc\<close> holds half-open segments; \<open>merge_in\<close> adds a range,
  \<open>intersect\<close> picks the widest covered part of a request and \<open>gaps_within\<close> lists what is
  missing. The \<^verbatim>\<open>for\<close> loops over the segments are the recursions \<open>merge_loop\<close>,
  \<open>intersect_loop\<close> and \<open>gaps_loop\<close>, whose arguments are the loops' mutable locals.
  The abstract value of a document is the set of instants \<open>covered\<close>; segments are
  canonical (\<open>cov_ok\<close>), so that set determines the list.
\<close>

section \<open>The document and its operations\<close>

record coverage_doc =
  segments :: "seg list"
  event_count :: u64
  doc_asset_class :: "string option"

definition coverage_default :: coverage_doc where
  "coverage_default = \<lparr> segments = [], event_count = 0, doc_asset_class = None \<rparr>"

fun merge_loop :: "seg list \<Rightarrow> seg \<Rightarrow> bool \<Rightarrow> seg list" where
  "merge_loop [] new_seg consumed = (if \<not> consumed then [new_seg] else [])"
| "merge_loop ((a, b) # rest) new_seg consumed =
     (if b < fst new_seg then (a, b) # merge_loop rest new_seg consumed
      else if a > snd new_seg then
        (if \<not> consumed then [new_seg] else []) @ (a, b) # merge_loop rest new_seg True
      else merge_loop rest (min (fst new_seg) a, max (snd new_seg) b) consumed)"

definition merge_in :: "i64 \<Rightarrow> i64 \<Rightarrow> u64 \<Rightarrow> coverage_doc \<Rightarrow> coverage_doc" where
  "merge_in from to added_events doc =
     (if to \<le> from then doc
      else doc\<lparr> event_count := saturating_add_u64 (event_count doc) added_events,
                segments := merge_loop (segments doc) (from, to) False \<rparr>)"

definition widen :: "seg option \<Rightarrow> i64 \<Rightarrow> i64 \<Rightarrow> seg option" where
  "widen best lo hi =
     (if lo < hi \<and> (case best of None \<Rightarrow> True
                   | Some (prev_lo, prev_hi) \<Rightarrow> hi - lo > prev_hi - prev_lo)
      then Some (lo, hi) else best)"

fun intersect_loop :: "seg list \<Rightarrow> i64 \<Rightarrow> i64 \<Rightarrow> seg option \<Rightarrow> seg option" where
  "intersect_loop [] from to best = best"
| "intersect_loop ((a, b) # rest) from to best =
     intersect_loop rest from to (widen best (max a from) (min b to))"

definition intersect :: "coverage_doc \<Rightarrow> i64 \<Rightarrow> i64 \<Rightarrow> seg option" where
  "intersect doc from to = intersect_loop (segments doc) from to None"

text \<open>The part of \<open>gaps_within\<close> after its loop.\<close>

definition gaps_tail :: "i64 \<Rightarrow> i64 \<Rightarrow> seg list" where
  "gaps_tail cursor to = (if cursor < to then [(cursor, to)] else [])"

fun gaps_loop :: "seg list \<Rightarrow> i64 \<Rightarrow> i64 \<Rightarrow> seg list" where
  "gaps_loop [] cursor to = gaps_tail cursor to"
| "gaps_loop ((a, b) # rest) cursor to =
     (if b \<le> cursor then gaps_loop rest cursor to
      else if a \<ge> to then gaps_tail cursor to
      else (if a > cursor then [(cursor, min a to)] else []) @
        (if max cursor b \<ge> to then gaps_tail (max cursor b) to
         else gaps_loop rest (max cursor b) to))"

definition gaps_within :: "coverage_doc \<Rightarrow> i64 \<Rightarrow> i64 \<Rightarrow> seg list" where
  "gaps_within doc from to = (if from \<ge> to then [] else gaps_loop (segments doc) from to)"

section \<open>Canonical segment lists\<close>

text \<open>
  Every segment is nonempty, and consecutive segments neither overlap nor touch: touching
  segments have been coalesced.
\<close>

definition cov_ok :: "seg list \<Rightarrow> bool" where
  "cov_ok segs \<longleftrightarrow> (\<forall>s \<in> set segs. fst s < snd s) \<and> sorted_wrt (\<lambda>s t. snd s < fst t) segs"

definition doc_ok :: "coverage_doc \<Rightarrow> bool" where
  "doc_ok doc \<longleftrightarrow> cov_ok (segments doc)"

definition doc_covered :: "coverage_doc \<Rightarrow> int set" where
  "doc_covered doc = covered (segments doc)"

lemma cov_ok_Nil [simp]: "cov_ok []"
  by (simp add: cov_ok_def)

lemma cov_ok_Cons [simp]:
  "cov_ok (s # segs) \<longleftrightarrow> fst s < snd s \<and> (\<forall>t \<in> set segs. snd s < fst t) \<and> cov_ok segs"
  by (auto simp: cov_ok_def)

lemma cov_ok_append:
  "cov_ok (xs @ ys) \<longleftrightarrow> cov_ok xs \<and> cov_ok ys \<and> (\<forall>x \<in> set xs. \<forall>y \<in> set ys. snd x < fst y)"
  by (auto simp: cov_ok_def sorted_wrt_append)

lemma coverage_default_ok [simp]: "doc_ok coverage_default" "doc_covered coverage_default = {}"
  by (simp_all add: doc_ok_def coverage_default_def doc_covered_def)

lemma covered_above:
  "\<forall>t \<in> set segs. l < fst t \<Longrightarrow> x \<in> covered segs \<Longrightarrow> l < x"
  by (fastforce simp: covered_def seg_set_def)

lemma covered_iff: "x \<in> covered segs \<longleftrightarrow> (\<exists>s \<in> set segs. fst s \<le> x \<and> x < snd s)"
  by (auto simp: covered_def seg_set_def)

section \<open>Merging\<close>

lemma merge_loop_consumed:
  "\<forall>s \<in> set segs. snd new_seg < fst s \<and> fst s < snd s \<Longrightarrow> fst new_seg < snd new_seg \<Longrightarrow>
   merge_loop segs new_seg True = segs"
  by (induction segs) auto

lemma merge_loop_lower:
  "\<forall>s \<in> set segs. l < fst s \<Longrightarrow> l < fst new_seg \<Longrightarrow> t \<in> set (merge_loop segs new_seg c) \<Longrightarrow> l < fst t"
  by (induction segs new_seg c rule: merge_loop.induct) (auto split: if_splits)

lemma merge_loop_ok:
  "cov_ok segs \<Longrightarrow> fst new_seg < snd new_seg \<Longrightarrow> cov_ok (merge_loop segs new_seg False)"
proof (induction segs arbitrary: new_seg)
  case (Cons s rest)
  obtain a b where s: "s = (a, b)" by (cases s)
  consider "b < fst new_seg" | "\<not> b < fst new_seg" "a > snd new_seg"
    | "\<not> b < fst new_seg" "\<not> a > snd new_seg" by blast
  then show ?case
  proof cases
    case 1
    have "\<forall>t \<in> set (merge_loop rest new_seg False). b < fst t"
      using merge_loop_lower [of rest b new_seg] Cons.prems 1 s by auto
    then show ?thesis using Cons 1 s by simp
  next
    case 2
    have "merge_loop rest new_seg True = rest"
      using Cons.prems 2 s by (intro merge_loop_consumed) (auto simp: cov_ok_def)
    then show ?thesis using Cons.prems 2 s by auto
  next
    case 3
    then show ?thesis using Cons s by auto
  qed
qed simp

lemma merge_loop_covered:
  "cov_ok segs \<Longrightarrow> fst new_seg < snd new_seg \<Longrightarrow>
   covered (merge_loop segs new_seg False) = covered segs \<union> seg_set new_seg"
proof (induction segs arbitrary: new_seg)
  case (Cons s rest)
  obtain a b where s: "s = (a, b)" by (cases s)
  have ab: "a < b" using Cons.prems s by simp
  show ?case
  proof (cases "\<not> b < fst new_seg \<and> a > snd new_seg")
    case True
    have "merge_loop rest new_seg True = rest"
      using Cons.prems True s by (intro merge_loop_consumed) (auto simp: cov_ok_def)
    then show ?thesis using True s by auto
  next
    case False
    have "{min (fst new_seg) a ..< max (snd new_seg) b} = {a ..< b} \<union> seg_set new_seg"
      if "\<not> b < fst new_seg" "\<not> a > snd new_seg"
      using that ab Cons.prems by (auto simp: seg_set_def)
    then show ?thesis using False Cons s by auto
  qed
qed simp

lemma merge_in_ok: "doc_ok doc \<Longrightarrow> doc_ok (merge_in from to n doc)"
  by (simp add: doc_ok_def merge_in_def merge_loop_ok)

lemma merge_in_covered:
  "doc_ok doc \<Longrightarrow> doc_covered (merge_in from to n doc) = doc_covered doc \<union> {from ..< to}"
  by (simp add: doc_ok_def merge_in_def doc_covered_def merge_loop_covered)

lemma merge_in_asset [simp]: "doc_asset_class (merge_in from to n doc) = doc_asset_class doc"
  by (simp add: merge_in_def)

section \<open>Canonicity\<close>

lemma cov_ok_head:
  assumes "cov_ok ((a, b) # xs)"
  shows "x \<in> covered ((a, b) # xs) \<Longrightarrow> a \<le> x" and "a \<in> covered ((a, b) # xs)"
    and "b \<notin> covered ((a, b) # xs)" and "{a ..< b} \<subseteq> covered ((a, b) # xs)"
  using assms covered_above [of xs b] by fastforce+

lemma cov_ok_tail:
  "cov_ok ((a, b) # xs) \<Longrightarrow> covered xs = covered ((a, b) # xs) - {a ..< b}"
  using covered_above [of xs b] by fastforce

lemma cov_ok_head_unique:
  assumes x: "cov_ok ((a, b) # xs)" and y: "cov_ok ((c, d) # ys)"
    and eq: "covered ((a, b) # xs) = covered ((c, d) # ys)"
  shows "a = c" and "b = d"
proof -
  note X = cov_ok_head [OF x] and Y = cov_ok_head [OF y]
  show ac: "a = c"
    using X(1) [of c] X(2) Y(1) [of a] Y(2) unfolding eq by (simp add: antisym)
  have "a < b" "c < d" using x y by auto
  then show "b = d"
    using X(3,4) Y(3,4) ac unfolding eq by (meson atLeastLessThan_iff linorder_less_linear order.strict_implies_order subsetD)
qed

lemma covered_empty_iff: "cov_ok segs \<Longrightarrow> covered segs = {} \<longleftrightarrow> segs = []"
  by (cases segs) auto

lemma cov_ok_unique:
  "cov_ok xs \<Longrightarrow> cov_ok ys \<Longrightarrow> covered xs = covered ys \<Longrightarrow> xs = ys"
proof (induction xs arbitrary: ys)
  case Nil
  then show ?case using covered_empty_iff [of ys] by simp
next
  case (Cons s xs)
  obtain t ys' where ys: "ys = t # ys'"
    using Cons.prems covered_empty_iff [of "s # xs"] by (cases ys) auto
  obtain a b c d where st: "s = (a, b)" "t = (c, d)" by fastforce
  have "a = c" "b = d"
    using cov_ok_head_unique Cons.prems unfolding ys st by blast+
  moreover have "covered xs = covered ys'"
    using Cons.prems cov_ok_tail [of a b xs] cov_ok_tail [of c d ys'] calculation
    unfolding ys st by metis
  then have "xs = ys'"
    using Cons.prems Cons.IH [of ys'] by (simp add: ys)
  ultimately show ?case by (simp add: ys st)
qed

section \<open>Gaps\<close>

lemma gaps_tail_covered: "covered (gaps_tail c t) = {c ..< t}"
  by (simp add: gaps_tail_def)

lemma gaps_loop_lower: "g \<in> set (gaps_loop segs c t) \<Longrightarrow> c \<le> fst g"
  by (induction segs c t rule: gaps_loop.induct) (fastforce simp: gaps_tail_def split: if_splits)+

lemma gaps_loop_upper: "g \<in> set (gaps_loop segs c t) \<Longrightarrow> snd g \<le> t"
  by (induction segs c t rule: gaps_loop.induct) (auto simp: gaps_tail_def split: if_splits)

lemma gaps_loop_ok: "cov_ok segs \<Longrightarrow> cov_ok (gaps_loop segs c t)"
proof (induction segs c t rule: gaps_loop.induct)
  case (2 a b rest c t)
  have "a < g" if "(g, h) \<in> set (gaps_loop rest (max c b) t)" for g h
    using gaps_loop_lower [OF that] 2(3) by auto
  then show ?case using 2 by (auto simp: gaps_tail_def)
qed (simp add: gaps_tail_def)

lemma gaps_loop_covered:
  "cov_ok segs \<Longrightarrow> covered (gaps_loop segs c t) = {c ..< t} - covered segs"
proof (induction segs c t rule: gaps_loop.induct)
  case (2 a b rest c t)
  note above = covered_above [of rest b]
  have ok: "a < b" "cov_ok rest" "\<And>x. x \<in> covered rest \<Longrightarrow> b < x"
    using 2(3) above by auto
  consider "b \<le> c" | "\<not> b \<le> c" "a \<ge> t" | "\<not> b \<le> c" "\<not> a \<ge> t" "max c b \<ge> t"
    | "\<not> b \<le> c" "\<not> a \<ge> t" "\<not> max c b \<ge> t" by blast
  then show ?case
  proof cases
    case 1 then show ?thesis using 2(1) ok by auto
  next
    case 2 then show ?thesis using ok by (force simp: gaps_tail_covered)
  next
    case 3 then show ?thesis using ok by (force simp: gaps_tail_covered)
  next
    case 4
    then have m: "max c b = b" by simp
    have eq: "covered (gaps_loop rest b t) = {b ..< t} - covered rest"
      using 2(2) 4 ok m by simp
    show ?thesis
    proof (rule set_eqI)
      fix x
      show "x \<in> covered (gaps_loop ((a, b) # rest) c t) \<longleftrightarrow> x \<in> {c ..< t} - covered ((a, b) # rest)"
        using 4 ok(1) ok(3) [of x] by (auto simp: eq m)
    qed
  qed
qed (simp add: gaps_tail_covered)

lemma gaps_within_exact:
  "doc_ok doc \<Longrightarrow> covered (gaps_within doc from to) = {from ..< to} - doc_covered doc"
  by (simp add: doc_ok_def gaps_within_def gaps_loop_covered doc_covered_def)

lemma gaps_within_ok: "doc_ok doc \<Longrightarrow> cov_ok (gaps_within doc from to)"
  by (simp add: doc_ok_def gaps_within_def gaps_loop_ok)

lemma gaps_within_bounds:
  "g \<in> set (gaps_within doc from to) \<Longrightarrow> from \<le> fst g \<and> snd g \<le> to"
  using gaps_loop_lower gaps_loop_upper by (fastforce simp: gaps_within_def split: if_splits)

section \<open>Widest overlap\<close>

text \<open>The candidates \<open>intersect\<close> chooses from: each segment clipped to the request.\<close>

definition clips :: "seg list \<Rightarrow> i64 \<Rightarrow> i64 \<Rightarrow> seg list" where
  "clips segs f t =
     filter (\<lambda>s. fst s < snd s) (map (\<lambda>s. (max (fst s) f, min (snd s) t)) segs)"

lemma clips_Cons:
  "clips ((a, b) # rest) f t =
     (if max a f < min b t then [(max a f, min b t)] else []) @ clips rest f t"
  by (simp add: clips_def)

lemma covered_single: "covered (if p < q then [(p, q)] else []) = {p ..< q}"
  by simp

lemma covered_clips: "covered (clips segs f t) = covered segs \<inter> {f ..< t}"
proof (induction segs)
  case (Cons s rest)
  obtain a b where s: "s = (a, b)" by (cases s)
  show ?case
    unfolding s clips_Cons covered_append covered_single Cons by (simp add: Int_Un_distrib2)
qed (simp add: clips_def)

lemma clips_pos: "s \<in> set (clips segs f t) \<Longrightarrow> fst s < snd s"
  by (simp add: clips_def)

lemma widen_cases: "widen best lo hi = Some s \<Longrightarrow> s = (lo, hi) \<and> lo < hi \<or> best = Some s"
  by (auto simp: widen_def split: if_splits)

lemma widen_widest:
  "s \<in> set_option best \<or> s = (lo, hi) \<and> lo < hi \<Longrightarrow>
   \<exists>s' \<in> set_option (widen best lo hi). snd s - fst s \<le> snd s' - fst s'"
  by (auto simp: widen_def split: option.splits)

lemma intersect_loop_sound:
  "intersect_loop segs f t best = Some s \<Longrightarrow> s \<in> set (clips segs f t) \<or> best = Some s"
proof (induction segs arbitrary: best)
  case (Cons x rest)
  obtain a b where x: "x = (a, b)" by (cases x)
  then show ?case
    using Cons.IH [of "widen best (max a f) (min b t)"] Cons.prems widen_cases
    by (fastforce simp: clips_Cons)
qed (simp add: clips_def)

lemma intersect_loop_widest:
  "s \<in> set (clips segs f t) \<union> set_option best \<Longrightarrow>
   \<exists>m. intersect_loop segs f t best = Some m \<and> snd s - fst s \<le> snd m - fst m"
proof (induction segs arbitrary: best s)
  case (Cons x rest)
  obtain a b where x: "x = (a, b)" by (cases x)
  let ?best = "widen best (max a f) (min b t)"
  have "\<exists>s' \<in> set (clips rest f t) \<union> set_option ?best. snd s - fst s \<le> snd s' - fst s'"
  proof (cases "s \<in> set (clips rest f t)")
    case False
    then show ?thesis
      using Cons.prems x widen_widest [of s best "max a f" "min b t"]
      by (auto simp: clips_Cons split: if_splits)
  qed blast
  then obtain s' where s': "s' \<in> set (clips rest f t) \<union> set_option ?best"
    and le: "snd s - fst s \<le> snd s' - fst s'" by blast
  from Cons.IH [OF s'] le show ?case using x by auto
qed (simp add: clips_def)

lemma intersect_sound:
  assumes "intersect doc f t = Some (a, b)"
  shows "f \<le> a" "a < b" "b \<le> t" "{a ..< b} \<subseteq> doc_covered doc"
proof -
  have "(a, b) \<in> set (clips (segments doc) f t)"
    using intersect_loop_sound assms by (fastforce simp: intersect_def)
  then obtain s where "s \<in> set (segments doc)" "a = max (fst s) f" "b = min (snd s) t" "a < b"
    by (auto simp: clips_def)
  then show "f \<le> a" "a < b" "b \<le> t" "{a ..< b} \<subseteq> doc_covered doc"
    by (auto simp: doc_covered_def covered_iff)
qed

lemma intersect_None:
  "intersect doc f t = None \<longleftrightarrow> doc_covered doc \<inter> {f ..< t} = {}"
proof (cases "clips (segments doc) f t")
  case Nil
  then have "intersect doc f t = None"
    using intersect_loop_sound [of "segments doc" f t None]
    by (cases "intersect doc f t") (auto simp: intersect_def)
  moreover have "doc_covered doc \<inter> {f ..< t} = {}"
    using covered_clips [of "segments doc" f t] Nil by (simp add: doc_covered_def)
  ultimately show ?thesis by simp
next
  case (Cons s xs)
  have "\<exists>m. intersect doc f t = Some m"
    using intersect_loop_widest [of s "segments doc" f t None] Cons by (auto simp: intersect_def)
  moreover have "fst s \<in> doc_covered doc \<inter> {f ..< t}"
    using clips_pos [of s "segments doc" f t]
    unfolding doc_covered_def covered_clips [symmetric] Cons by (simp add: seg_set_def)
  ultimately show ?thesis by auto
qed

section \<open>Correctness of the coverage document\<close>

text \<open>C19: Recording a fetched window keeps the document sorted, disjoint and non-adjacent,
  makes the covered instants exactly the old ones together with the window, and the segment
  list is the only such list for that set of instants.\<close>

theorem merge_in_spec:
  assumes "doc_ok doc"
  shows "doc_ok (merge_in from to n doc)
    \<and> doc_covered (merge_in from to n doc) = doc_covered doc \<union> {from ..< to}
    \<and> (\<forall>segs. cov_ok segs \<and> covered segs = doc_covered doc \<union> {from ..< to} \<longrightarrow>
          segments (merge_in from to n doc) = segs)"
  using merge_in_ok [OF assms] merge_in_covered [OF assms] cov_ok_unique
  by (metis doc_ok_def doc_covered_def)

theorem merge_in_spec_witness:
  "segments (merge_in 20 40 3 (coverage_default\<lparr> segments := [(0, 10), (30, 50)] \<rparr>)) = [(0, 10), (20, 50)]"
proof -
  let ?doc = "coverage_default\<lparr> segments := [(0, 10), (30, 50)] \<rparr>"
  have "doc_ok ?doc" "cov_ok [(0, 10), (20, 50)]" by (simp_all add: doc_ok_def)
  moreover have "covered [(0, 10), (20, 50)] = doc_covered ?doc \<union> {20 ..< 40}"
    by (auto simp: doc_covered_def covered_iff)
  ultimately show ?thesis using merge_in_spec [of ?doc 20 40 3] by blast
qed

text \<open>The gaps reported for a query window are exactly the uncovered instants of the
  window, as sorted, disjoint, non-empty half-open intervals inside it.\<close>

lemma gaps_within_spec:
  assumes "doc_ok doc"
  shows "cov_ok (gaps_within doc from to)
    \<and> covered (gaps_within doc from to) = {from ..< to} - doc_covered doc
    \<and> (\<forall>g \<in> set (gaps_within doc from to). from \<le> fst g \<and> snd g \<le> to)"
  using gaps_within_ok [OF assms] gaps_within_exact [OF assms] gaps_within_bounds by blast

lemma gaps_within_spec_witness:
  "covered (gaps_within (coverage_default\<lparr> segments := [(0, 10), (30, 50)] \<rparr>) 5 40) = {10 ..< 30}"
proof -
  have "doc_ok (coverage_default\<lparr> segments := [(0, 10), (30, 50)] \<rparr>)" by (simp add: doc_ok_def)
  from gaps_within_spec [OF this, of 5 40] show ?thesis
    by (auto simp: doc_covered_def covered_iff)
qed

text \<open>A coverage lookup answers nothing exactly when no instant of the window is covered;
  otherwise it returns a covered piece of the window at least as wide as every other clipped
  segment.\<close>

lemma intersect_spec:
  "case intersect doc f t of
     None \<Rightarrow> doc_covered doc \<inter> {f ..< t} = {}
   | Some (a, b) \<Rightarrow> f \<le> a \<and> a < b \<and> b \<le> t \<and> {a ..< b} \<subseteq> doc_covered doc \<and>
       list_all (\<lambda>s. snd s - fst s \<le> b - a) (clips (segments doc) f t)"
proof (cases "intersect doc f t")
  case None
  then show ?thesis using intersect_None [of doc f t] by simp
next
  case (Some ab)
  obtain a b where ab: "ab = (a, b)" by fastforce
  have "snd s - fst s \<le> b - a" if "s \<in> set (clips (segments doc) f t)" for s
    using intersect_loop_widest [of s "segments doc" f t None] that Some ab by (auto simp: intersect_def)
  then show ?thesis using Some ab intersect_sound [of doc f t a b] by (simp add: list_all_iff)
qed

end
