(* ===== verification/Tiling.thy ===== *)
theory Tiling
  imports Coverage
begin

text \<open>
  The contract between a \<^verbatim>\<open>HistoricalCache\<close> and the session that plans a historical
  request against it. The cache reports gaps (\<open>gap_reporter\<close>, and \<open>exact_gap_reporter\<close> for
  backends that track every hole); the session turns them into a partition of the request
  with \<open>tile\<close>. The client lemmas are proved once inside the locales. The trait's default
  \<^verbatim>\<open>gaps\<close> is a second provider of the contract, derived from any sound \<^verbatim>\<open>lookup\<close> by the
  \<open>sublocale\<close> of \<open>coverage_lookup\<close>.
\<close>

section \<open>Cache keys, coverage reports and the default gaps\<close>

record cache_key =
  k_instrument :: instrument
  k_kind :: event_kind
  k_from :: timestamp
  k_to :: timestamp
  k_adjustment :: adjustment

record cache_coverage =
  cc_from :: timestamp
  cc_to :: timestamp
  cc_event_count :: u64
  cc_first_seq :: "seq option"
  cc_last_seq :: "seq option"

record replay_request =
  rq_instruments :: "instrument list"
  rq_kinds :: "event_kind list"
  rq_from :: timestamp
  rq_to :: timestamp

definition default_spans :: "cache_coverage option \<Rightarrow> timestamp \<Rightarrow> timestamp \<Rightarrow> gap_span list" where
  "default_spans coverage from to =
     (case coverage of
        None \<Rightarrow> [gap_span_of from to]
      | Some c \<Rightarrow>
          (if from < cc_from c then [gap_span_of from (cc_from c)] else []) @
          (if cc_to c < to then [gap_span_of (cc_to c) to] else []))"

definition default_gaps ::
  "(cache_key \<Rightarrow> cache_coverage option res) \<Rightarrow> cache_key \<Rightarrow> gap_span list res" where
  "default_gaps lookup key =
     (case lookup key of
        Inl e \<Rightarrow> Inl e
      | Inr coverage \<Rightarrow> Inr (default_spans coverage (k_from key) (k_to key)))"

section \<open>Planning a request\<close>

datatype segment = Covered (seg_from: timestamp) (seg_to: timestamp)
  | GapSeg (seg_from: timestamp) (seg_to: timestamp)

fun tile_loop :: "gap_span list \<Rightarrow> timestamp \<Rightarrow> timestamp \<Rightarrow> segment list" where
  "tile_loop [] cursor to = (if cursor < to then [Covered cursor to] else [])"
| "tile_loop (g # gs) cursor to =
     (let g_from = from_source_ts g; g_to = to_source_ts g in
      (if g_from > cursor then [Covered cursor g_from] else []) @
      (if g_to > g_from then [GapSeg g_from g_to] else []) @
      tile_loop gs (max cursor g_to) to)"

definition tile :: "timestamp \<Rightarrow> timestamp \<Rightarrow> gap_span list \<Rightarrow> segment list" where
  "tile from to gaps = tile_loop gaps from to"

definition confirmed_prefix_end :: "timestamp option \<Rightarrow> timestamp \<Rightarrow> timestamp \<Rightarrow> timestamp" where
  "confirmed_prefix_end max_data_ts f t =
     (case max_data_ts of None \<Rightarrow> f | Some m \<Rightarrow> clamp (saturating_add_i64 m 1) f t)"

section \<open>What a partition is\<close>

definition span_seg :: "gap_span \<Rightarrow> seg" where
  "span_seg g = (from_source_ts g, to_source_ts g)"

lemma fst_span_seg [simp]: "fst (span_seg g) = from_source_ts g"
  and snd_span_seg [simp]: "snd (span_seg g) = to_source_ts g"
  by (simp_all add: span_seg_def)

text \<open>Contiguous nonempty pieces from \<open>f\<close> to \<open>t\<close>, in order, with no overlap and no hole.\<close>

fun tiles :: "timestamp \<Rightarrow> timestamp \<Rightarrow> segment list \<Rightarrow> bool" where
  "tiles f t [] \<longleftrightarrow> f = t"
| "tiles f t (s # ss) \<longleftrightarrow> seg_from s = f \<and> f < seg_to s \<and> tiles (seg_to s) t ss"

definition is_gap :: "segment \<Rightarrow> bool" where
  "is_gap s = (case s of GapSeg _ _ \<Rightarrow> True | Covered _ _ \<Rightarrow> False)"

definition piece :: "segment \<Rightarrow> int set" where
  "piece s = {seg_from s ..< seg_to s}"

text \<open>The gap lists \<open>tile\<close> is documented for: ordered, disjoint, inside the request.\<close>

definition proper_gaps :: "timestamp \<Rightarrow> timestamp \<Rightarrow> gap_span list \<Rightarrow> bool" where
  "proper_gaps f t gs \<longleftrightarrow>
     (\<forall>g \<in> set gs. f \<le> from_source_ts g \<and> from_source_ts g < to_source_ts g \<and> to_source_ts g \<le> t)
     \<and> sorted_wrt (\<lambda>g h. to_source_ts g \<le> from_source_ts h) gs"

lemma is_gap_simps [simp]: "is_gap (GapSeg a b)" "\<not> is_gap (Covered a b)"
  by (simp_all add: is_gap_def)

lemma piece_simps [simp]: "piece (GapSeg a b) = {a ..< b}" "piece (Covered a b) = {a ..< b}"
  by (simp_all add: piece_def)

lemma proper_gaps_Cons [simp]:
  "proper_gaps f t (g # gs) \<longleftrightarrow>
     f \<le> from_source_ts g \<and> from_source_ts g < to_source_ts g \<and> to_source_ts g \<le> t
     \<and> proper_gaps (to_source_ts g) t gs"
  by (auto simp: proper_gaps_def intro: order_trans less_imp_le)

lemma proper_gaps_Nil [simp]: "proper_gaps f t []"
  by (simp add: proper_gaps_def)

lemma tile_loop_tiles:
  "proper_gaps c t gs \<Longrightarrow> c \<le> t \<Longrightarrow> tiles c t (tile_loop gs c t)"
  by (induction gs arbitrary: c) (auto simp: Let_def max_def)

lemma tile_loop_gap_pieces:
  "proper_gaps c t gs \<Longrightarrow>
   map (\<lambda>s. gap_span_of (seg_from s) (seg_to s)) (filter is_gap (tile_loop gs c t)) = gs"
  by (induction gs arbitrary: c) (auto simp: Let_def max_def)

lemma tiles_bounds:
  "tiles a b zs \<Longrightarrow> a \<le> b \<and> (\<forall>z \<in> set zs. a \<le> seg_from z \<and> seg_to z \<le> b)"
proof (induction zs arbitrary: a)
  case (Cons z zs)
  then show ?case by (force dest: Cons.IH)
qed simp

lemma tiles_append: "tiles a b (us @ vs) \<longleftrightarrow> (\<exists>m. tiles a m us \<and> tiles m b vs)"
  by (induction us arbitrary: a) auto

lemma tiles_pieces_disjoint:
  "tiles f t (xs @ s # ys) \<Longrightarrow> s' \<in> set (xs @ ys) \<Longrightarrow> piece s \<inter> piece s' = {}"
proof -
  assume "tiles f t (xs @ s # ys)" and "s' \<in> set (xs @ ys)"
  then obtain m where "tiles f m xs" "tiles m t (s # ys)" by (auto simp: tiles_append)
  then show ?thesis
    using tiles_bounds [of f m xs] tiles_bounds [of "seg_to s" t ys] \<open>s' \<in> set (xs @ ys)\<close>
    by (fastforce simp: piece_def)
qed

lemma tiles_union: "tiles f t ss \<Longrightarrow> \<Union> (piece ` set ss) = {f ..< t} \<and> f \<le> t"
proof (induction ss arbitrary: f)
  case (Cons s ss)
  then have "\<Union> (piece ` set ss) = {seg_to s ..< t}" "seg_to s \<le> t" "f < seg_to s" "seg_from s = f"
    by auto
  then show ?case by (auto simp: piece_def)
qed simp

lemma tile_loop_covered_piece:
  "proper_gaps c t gs \<Longrightarrow> s \<in> set (tile_loop gs c t) \<Longrightarrow> \<not> is_gap s \<Longrightarrow>
   piece s \<inter> covered (map span_seg gs) = {}"
proof (induction gs arbitrary: c)
  case (Cons g gs)
  have up: "x \<in> covered (map span_seg gs) \<Longrightarrow> to_source_ts g \<le> x" for x
    using Cons.prems(1) by (fastforce simp: covered_iff proper_gaps_def)
  have low: "s' \<in> set (tile_loop hs d t) \<Longrightarrow> proper_gaps d t hs \<Longrightarrow> d \<le> seg_from s'" for hs d s'
    by (induction hs arbitrary: d) (auto simp: Let_def max_def split: if_splits, force+)
  from Cons.prems consider "s = Covered c (from_source_ts g)"
    | "s \<in> set (tile_loop gs (to_source_ts g) t)"
    by (auto simp: Let_def max_def split: if_splits)
  then show ?case
  proof cases
    case 1
    then show ?thesis using Cons.prems up by (fastforce simp: seg_set_def)
  next
    case 2
    have "to_source_ts g \<le> seg_from s" using low 2 Cons.prems by auto
    then show ?thesis using Cons.IH [OF _ 2] Cons.prems by (auto simp: piece_def seg_set_def)
  qed
qed (auto split: if_splits)

section \<open>The gap-reporting contract\<close>

locale gap_reporter =
  fixes gaps :: "'c \<Rightarrow> timestamp \<Rightarrow> timestamp \<Rightarrow> gap_span list"
    and cov :: "'c \<Rightarrow> int set"
    and ok :: "'c \<Rightarrow> bool"
  assumes gaps_proper: "ok c \<Longrightarrow> f < t \<Longrightarrow> proper_gaps f t (gaps c f t)"
    and gaps_complete: "ok c \<Longrightarrow> f < t \<Longrightarrow> {f ..< t} - cov c \<subseteq> covered (map span_seg (gaps c f t))"
begin

lemma plan_partitions:
  "ok c \<Longrightarrow> f < t \<Longrightarrow> tiles f t (tile f t (gaps c f t))"
  by (simp add: tile_def tile_loop_tiles gaps_proper)

lemma plan_covered_sound:
  assumes "ok c" "f < t" "s \<in> set (tile f t (gaps c f t))" "\<not> is_gap s"
  shows "piece s \<subseteq> cov c"
proof -
  have "piece s \<inter> covered (map span_seg (gaps c f t)) = {}"
    using assms tile_loop_covered_piece [OF gaps_proper] by (simp add: tile_def)
  moreover have "piece s \<subseteq> {f ..< t}"
    using tiles_union [OF plan_partitions [OF assms(1,2)]] assms(3) by auto
  ultimately show ?thesis using gaps_complete assms(1,2) by blast
qed

lemma plan_fetches_all_missing:
  assumes "ok c" "f < t" "x \<in> {f ..< t}" "x \<notin> cov c"
  shows "\<exists>s \<in> set (tile f t (gaps c f t)). is_gap s \<and> x \<in> piece s"
proof -
  obtain s where "s \<in> set (tile f t (gaps c f t))" "x \<in> piece s"
    using tiles_union [OF plan_partitions [OF assms(1,2)]] assms(3) by blast
  then show ?thesis using plan_covered_sound [OF assms(1,2)] assms(4) by blast
qed

end

text \<open>A reporter whose gaps are exactly the uncovered instants.\<close>

locale exact_gap_reporter = gap_reporter +
  assumes gaps_exact: "ok c \<Longrightarrow> f < t \<Longrightarrow> covered (map span_seg (gaps c f t)) \<inter> cov c = {}"
begin

lemma plan_gap_uncovered:
  assumes "ok c" "f < t" "s \<in> set (tile f t (gaps c f t))" "is_gap s"
  shows "piece s \<inter> cov c = {}"
proof -
  have "gap_span_of (seg_from s) (seg_to s) \<in> set (gaps c f t)"
    using tile_loop_gap_pieces [OF gaps_proper [OF assms(1,2)]] assms(3,4)
    by (auto simp: tile_def) (metis (mono_tags, lifting) image_eqI mem_Collect_eq set_filter set_map)
  then have "piece s \<subseteq> covered (map span_seg (gaps c f t))"
    by (force simp: covered_iff piece_def)
  then show ?thesis using gaps_exact assms(1,2) by blast
qed

end

section \<open>A lookup gives a reporter\<close>

text \<open>A sound lookup: what it reports lies in the request and is really covered.\<close>

locale coverage_lookup =
  fixes look :: "'c \<Rightarrow> timestamp \<Rightarrow> timestamp \<Rightarrow> cache_coverage option"
    and cov :: "'c \<Rightarrow> int set"
    and ok :: "'c \<Rightarrow> bool"
  assumes look_within: "ok c \<Longrightarrow> look c f t = Some r \<Longrightarrow> f \<le> cc_from r \<and> cc_from r < cc_to r \<and> cc_to r \<le> t"
    and look_covered: "ok c \<Longrightarrow> look c f t = Some r \<Longrightarrow> {cc_from r ..< cc_to r} \<subseteq> cov c"

sublocale coverage_lookup \<subseteq> dflt: gap_reporter "\<lambda>c f t. default_spans (look c f t) f t" cov ok
proof
  fix c f t
  assume ok: "ok c" and ft: "(f :: timestamp) < t"
  show "proper_gaps f t (default_spans (look c f t) f t)"
    using ft look_within [OF ok] by (fastforce simp: default_spans_def split: option.splits)
  show "{f ..< t} - cov c \<subseteq> covered (map span_seg (default_spans (look c f t) f t))"
  proof (cases "look c f t")
    case (Some r)
    have "x \<in> covered (map span_seg (default_spans (look c f t) f t))"
      if "x \<in> {f ..< t} - cov c" for x
    proof -
      have "x < cc_from r \<or> cc_to r \<le> x"
        using look_covered [OF ok Some] that
        by (meson DiffD2 atLeastLessThan_iff linorder_not_le subsetD)
      then show ?thesis using that by (auto simp: Some default_spans_def span_seg_def)
    qed
    then show ?thesis by blast
  qed (simp add: default_spans_def span_seg_def)
qed

section \<open>The coverage document provides both contracts\<close>

text \<open>The spans \<^verbatim>\<open>TursoCache::gaps\<close> maps the document's pairs to.\<close>

definition to_span :: "seg \<Rightarrow> gap_span" where
  "to_span p = gap_span_of (fst p) (snd p)"

definition doc_spans :: "coverage_doc \<Rightarrow> timestamp \<Rightarrow> timestamp \<Rightarrow> gap_span list" where
  "doc_spans doc from to = map to_span (gaps_within doc from to)"

lemma span_seg_to_span [simp]: "span_seg (to_span p) = p"
  by (simp add: to_span_def span_seg_def)

lemma to_span_simps [simp]: "from_source_ts (to_span p) = fst p" "to_source_ts (to_span p) = snd p"
  by (simp_all add: to_span_def)

lemma proper_gaps_to_span:
  "cov_ok ps \<Longrightarrow> \<forall>p \<in> set ps. f \<le> fst p \<and> snd p \<le> t \<Longrightarrow> proper_gaps f t (map to_span ps)"
  by (auto simp: proper_gaps_def cov_ok_def sorted_wrt_map elim: sorted_wrt_mono_rel [rotated])

interpretation doc: exact_gap_reporter doc_spans doc_covered doc_ok
proof
  fix c f t
  assume ok: "doc_ok c" and ft: "(f :: timestamp) < t"
  have eq: "map span_seg (doc_spans c f t) = gaps_within c f t"
    by (simp add: doc_spans_def comp_def)
  show "proper_gaps f t (doc_spans c f t)"
    unfolding doc_spans_def using gaps_within_ok [OF ok] gaps_within_bounds
    by (intro proper_gaps_to_span) auto
  show "{f ..< t} - doc_covered c \<subseteq> covered (map span_seg (doc_spans c f t))"
    by (simp add: eq gaps_within_exact ok)
  show "covered (map span_seg (doc_spans c f t)) \<inter> doc_covered c = {}"
    by (auto simp: eq gaps_within_exact ok)
qed

text \<open>\<^verbatim>\<open>lookup\<close> of the document: the widest overlap as a coverage report.\<close>

definition doc_lookup :: "(i64 \<Rightarrow> i64 \<Rightarrow> u64) \<Rightarrow> coverage_doc \<Rightarrow> timestamp \<Rightarrow> timestamp \<Rightarrow> cache_coverage option" where
  "doc_lookup count doc from to =
     (case intersect doc from to of
        None \<Rightarrow> None
      | Some (a, b) \<Rightarrow> Some \<lparr> cc_from = a, cc_to = b, cc_event_count = count a b,
                             cc_first_seq = None, cc_last_seq = None \<rparr>)"

interpretation doc_look: coverage_lookup "doc_lookup count" doc_covered doc_ok
  by unfold_locales
    (auto simp: doc_lookup_def split: option.splits dest: intersect_sound(1-3) intersect_sound(4) [THEN subsetD])

section \<open>Confirmed prefixes\<close>

lemma confirmed_prefix_end_bounds:
  "f \<le> t \<Longrightarrow> f \<le> confirmed_prefix_end m f t \<and> confirmed_prefix_end m f t \<le> t"
  using clamp_bounds by (auto simp: confirmed_prefix_end_def split: option.splits)

lemma confirmed_prefix_end_exact:
  "in_i64 m \<Longrightarrow> in_i64 t \<Longrightarrow> f \<le> m \<Longrightarrow> m < t \<Longrightarrow> confirmed_prefix_end (Some m) f t = m + 1"
  by (auto simp: confirmed_prefix_end_def clamp_def rust_int)

section \<open>Correctness of the read-through plan\<close>

text \<open>C20: The plan built from a coverage document cuts the requested window into consecutive
  non-empty segments; a replayed segment holds only covered instants, a fetched one none.\<close>

theorem plan_exact:
  assumes "doc_ok doc" "f < t"
  shows "tiles f t (tile f t (doc_spans doc f t))
    \<and> (\<forall>s \<in> set (tile f t (doc_spans doc f t)).
          if is_gap s then piece s \<inter> doc_covered doc = {} else piece s \<subseteq> doc_covered doc)"
  using assms doc.plan_partitions doc.plan_covered_sound doc.plan_gap_uncovered by simp

theorem plan_exact_witness:
  "tiles 0 10 (tile 0 10 (doc_spans (coverage_default\<lparr> segments := [(2, 5)] \<rparr>) 0 10))
   \<and> tile 0 10 (doc_spans (coverage_default\<lparr> segments := [(2, 5)] \<rparr>) 0 10)
       = [GapSeg 0 2, Covered 2 5, GapSeg 5 10]"
proof
  show "tiles 0 10 (tile 0 10 (doc_spans (coverage_default\<lparr> segments := [(2, 5)] \<rparr>) 0 10))"
    using plan_exact [of "coverage_default\<lparr> segments := [(2, 5)] \<rparr>" 0 10] by (simp add: doc_ok_def)
  show "tile 0 10 (doc_spans (coverage_default\<lparr> segments := [(2, 5)] \<rparr>) 0 10)
       = [GapSeg 0 2, Covered 2 5, GapSeg 5 10]"
    by (simp add: doc_spans_def gaps_within_def gaps_tail_def tile_def to_span_def)
qed

text \<open>A backend that only implements \<open>lookup\<close> gets a plan from the trait's default
  \<open>gaps\<close> that is still sound: the window is cut into consecutive segments, only covered
  instants are replayed, and every uncovered instant is fetched.\<close>

lemma default_plan_sound:
  assumes "doc_ok doc" "f < t"
  shows "let plan = tile f t (default_spans (doc_lookup count doc f t) f t) in tiles f t plan
    \<and> (\<forall>s \<in> set plan. \<not> is_gap s \<longrightarrow> piece s \<subseteq> doc_covered doc)
    \<and> (\<forall>x \<in> {f ..< t} - doc_covered doc. \<exists>s \<in> set plan. is_gap s \<and> x \<in> piece s)"
  unfolding Let_def
  using assms doc_look.dflt.plan_partitions doc_look.dflt.plan_covered_sound
    doc_look.dflt.plan_fetches_all_missing by blast

lemma default_plan_sound_witness:
  "tiles 0 10 (tile 0 10 (default_spans (doc_lookup (\<lambda>_ _. 0) (coverage_default\<lparr> segments := [(2, 5), (7, 8)] \<rparr>) 0 10) 0 10))"
  using default_plan_sound [of "coverage_default\<lparr> segments := [(2, 5), (7, 8)] \<rparr>" 0 10 "\<lambda>_ _. 0"]
  by (simp add: doc_ok_def Let_def)

text \<open>The confirmed prefix of a fetched window ends inside the window, strictly after the
  newest event that arrived in it, and is empty when none did.\<close>

lemma confirmed_prefix_end_spec:
  assumes "f < t" "in_i64 t"
  shows "confirmed_prefix_end None f t = f
    \<and> f \<le> confirmed_prefix_end m f t \<and> confirmed_prefix_end m f t \<le> t
    \<and> (\<forall>x. f \<le> x \<and> x < t \<and> in_i64 x \<longrightarrow> confirmed_prefix_end (Some x) f t = x + 1)"
  using assms confirmed_prefix_end_bounds [of f t m] confirmed_prefix_end_exact [of _ t f]
  by (simp add: confirmed_prefix_end_def)

end
