(* ===== verification/Turso_Cache.thy ===== *)
theory Turso_Cache
  imports Tiling "HOL-Library.AList"
begin

text \<open>
  \<^verbatim>\<open>datamancer/src/storage/turso.rs\<close> and the parts of \<^verbatim>\<open>turso_common.rs\<close> it uses: the
  historical cache over an SQL database. The database is a record of tables; a table with
  a primary key is an association list with distinct keys, \<^verbatim>\<open>INSERT OR REPLACE\<close> is
  \<open>AList.update\<close>, \<^verbatim>\<open>DELETE\<close> and \<^verbatim>\<open>SELECT\<close> are filters, \<^verbatim>\<open>ORDER BY\<close> is a stable sort.
  The engine may fail any statement: \<open>store\<close> takes the failure, if there is one, as an
  argument and rolls back, as its transaction does. A JSON column holds the value it
  encodes, or text that does not decode together with the decoder's message.
\<close>

section \<open>Vocabulary\<close>

fun table_for :: "event_kind \<Rightarrow> string" where
  "table_for KTrade = ''trades''"
| "table_for KQuote = ''quotes''"
| "table_for (KBar OneSecond) = ''bars_1s''"
| "table_for (KBar OneMinute) = ''bars_1m''"
| "table_for (KBar FiveMinute) = ''bars_5m''"
| "table_for (KBar FifteenMinute) = ''bars_15m''"
| "table_for (KBar OneHour) = ''bars_1h''"
| "table_for (KBar OneDay) = ''bars_1d''"

definition kind_for :: "string \<Rightarrow> event_kind option" where
  "kind_for tbl =
     (if tbl = ''trades'' then Some KTrade
      else if tbl = ''quotes'' then Some KQuote
      else if tbl = ''bars_1s'' then Some (KBar OneSecond)
      else if tbl = ''bars_1m'' then Some (KBar OneMinute)
      else if tbl = ''bars_5m'' then Some (KBar FiveMinute)
      else if tbl = ''bars_15m'' then Some (KBar FifteenMinute)
      else if tbl = ''bars_1h'' then Some (KBar OneHour)
      else if tbl = ''bars_1d'' then Some (KBar OneDay)
      else None)"

fun bytes_per_row :: "event_kind \<Rightarrow> u64" where
  "bytes_per_row KTrade = 4 * 8"
| "bytes_per_row KQuote = 6 * 8"
| "bytes_per_row (KBar _) = 7 * 8"

definition effective_adjustment :: "cache_key \<Rightarrow> adjustment" where
  "effective_adjustment key =
     (case k_kind key of KBar _ \<Rightarrow> k_adjustment key | KTrade \<Rightarrow> Raw | KQuote \<Rightarrow> Raw)"

fun asset_class_tag :: "asset_class \<Rightarrow> string" where
  "asset_class_tag Equity = ''equity''"
| "asset_class_tag Etf = ''etf''"
| "asset_class_tag Crypto = ''crypto''"

definition asset_class_from_tag :: "string \<Rightarrow> asset_class option" where
  "asset_class_from_tag tag =
     (if tag = ''equity'' then Some Equity
      else if tag = ''etf'' then Some Etf
      else if tag = ''crypto'' then Some Crypto
      else None)"

section \<open>The database\<close>

type_synonym row_key = "string \<times> provider_id \<times> string \<times> string \<times> timestamp"

datatype row =
    TradeRow i64 i64 i64
  | QuoteRow i64 i64 i64 i64 i64
  | BarRow i64 i64 i64 i64 i64 i64

datatype json_segments = JsonOk "seg list" | JsonBad string

record coverage_row =
  cv_segments :: json_segments
  cv_event_count :: i64
  cv_asset_class :: "string option"

type_synonym coverage_key = "provider_id \<times> string \<times> string \<times> string"

record turso_db =
  db_rows :: "(row_key \<times> row) list"
  db_coverage :: "(coverage_key \<times> coverage_row) list"

definition turso_empty :: turso_db where
  "turso_empty = \<lparr> db_rows = [], db_coverage = [] \<rparr>"

text \<open>The schema-version guard that runs before any table is created.\<close>

definition CACHE_SCHEMA_VERSION :: i64 where "CACHE_SCHEMA_VERSION = 11"

definition preflight_user_version :: "(i64 \<Rightarrow> string) \<Rightarrow> i64 \<Rightarrow> i64 \<Rightarrow> string \<Rightarrow> bool res" where
  "preflight_user_version show_int version expected store =
     (if version = expected then Inr False
      else if version = 0 then Inr True
      else Inl (Storage (store @ '' schema version '' @ show_int version
        @ '' does not match this build's '' @ show_int expected
        @ ''; read it with a matching build or delete the file (data is recoverable from providers)'')))"

text \<open>
  \<^verbatim>\<open>execute_retry\<close>: \<open>attempt n\<close> is what the engine answers to the \<open>n\<close>th try; a busy error is
  retried while fewer than 200 retries were spent.
\<close>

definition BUSY_RETRIES :: nat where "BUSY_RETRIES = 200"

function retry_from :: "(nat \<Rightarrow> string + u64) \<Rightarrow> (string \<Rightarrow> bool) \<Rightarrow> nat \<Rightarrow> (string \<times> nat) + u64" where
  "retry_from attempt is_busy attempts =
     (case attempt attempts of
        Inr n \<Rightarrow> Inr n
      | Inl e \<Rightarrow>
          (if is_busy e \<and> attempts < BUSY_RETRIES then retry_from attempt is_busy (attempts + 1)
           else Inl (e, attempts)))"
  by pat_completeness auto
termination
  by (relation "measure (\<lambda>(_, _, n). BUSY_RETRIES - n)") auto

definition execute_retry :: "(nat \<Rightarrow> string) \<Rightarrow> (nat \<Rightarrow> string + u64) \<Rightarrow> (string \<Rightarrow> bool) \<Rightarrow> u64 res" where
  "execute_retry show_nat attempt is_busy =
     (case retry_from attempt is_busy 0 of
        Inr n \<Rightarrow> Inr n
      | Inl (e, attempts) \<Rightarrow>
          Inl (Storage (''turso: '' @ e @ '' (after '' @ show_nat attempts @ '' busy retries)'')))"

section \<open>Reading\<close>

text \<open>The columns of the \<^verbatim>\<open>WHERE\<close> clauses that name one series of rows.\<close>

definition series :: "cache_key \<Rightarrow> string \<times> provider_id \<times> string \<times> string" where
  "series key =
     (table_for (k_kind key), i_provider (k_instrument key), i_symbol (k_instrument key),
      adjustment_as_str (effective_adjustment key))"

definition row_of :: "cache_key \<Rightarrow> timestamp \<Rightarrow> row_key" where
  "row_of key ts = (case series key of (tbl, p, s, a) \<Rightarrow> (tbl, p, s, a, ts))"

definition coverage_key_of :: "cache_key \<Rightarrow> coverage_key" where
  "coverage_key_of key = (case series key of (tbl, p, s, a) \<Rightarrow> (p, s, tbl, a))"

definition in_series :: "cache_key \<Rightarrow> i64 \<Rightarrow> i64 \<Rightarrow> row_key \<Rightarrow> bool" where
  "in_series key from to rk =
     (case rk of (tbl, p, s, a, ts) \<Rightarrow> (tbl, p, s, a) = series key \<and> from \<le> ts \<and> ts < to)"

definition load_coverage :: "turso_db \<Rightarrow> cache_key \<Rightarrow> coverage_doc option res" where
  "load_coverage db key =
     (case map_of (db_coverage db) (coverage_key_of key) of
        None \<Rightarrow> Inr None
      | Some r \<Rightarrow>
          (case cv_segments r of
             JsonBad e \<Rightarrow> Inl (Storage (''coverage segments decode: '' @ e))
           | JsonOk segs \<Rightarrow>
               Inr (Some \<lparr> segments = segs, event_count = cast_unsigned (cv_event_count r),
                           doc_asset_class = cv_asset_class r \<rparr>)))"

definition count_events_in :: "turso_db \<Rightarrow> cache_key \<Rightarrow> i64 \<Rightarrow> i64 \<Rightarrow> u64" where
  "count_events_in db key from to =
     of_nat (length (filter (\<lambda>(rk, _). in_series key from to rk) (db_rows db)))"

definition lookup :: "turso_db \<Rightarrow> cache_key \<Rightarrow> cache_coverage option res" where
  "lookup db key =
     (case load_coverage db key of
        Inl e \<Rightarrow> Inl e
      | Inr None \<Rightarrow> Inr None
      | Inr (Some doc) \<Rightarrow> Inr (doc_lookup (count_events_in db key) doc (k_from key) (k_to key)))"

definition doc_or_default :: "coverage_doc option \<Rightarrow> coverage_doc" where
  "doc_or_default d = (case d of None \<Rightarrow> coverage_default | Some doc \<Rightarrow> doc)"

definition gaps :: "turso_db \<Rightarrow> cache_key \<Rightarrow> gap_span list res" where
  "gaps db key =
     (case load_coverage db key of
        Inl e \<Rightarrow> Inl e
      | Inr d \<Rightarrow> Inr (doc_spans (doc_or_default d) (k_from key) (k_to key)))"

record catalog_entry =
  ce_provider :: provider_id
  ce_symbol :: string
  ce_asset_class :: "asset_class option"
  ce_kind :: event_kind
  ce_adjustment :: adjustment
  ce_segments :: "gap_span list"
  ce_event_count :: u64
  ce_est_bytes :: "u64 option"

definition catalog_row :: "coverage_key \<times> coverage_row \<Rightarrow> catalog_entry option" where
  "catalog_row kr =
     (case kr of ((p, s, kind_token, adj_token), r) \<Rightarrow>
       (case kind_for kind_token of
          None \<Rightarrow> None
        | Some kind \<Rightarrow>
            (case adjustment_from_token adj_token of
               None \<Rightarrow> None
             | Some adj \<Rightarrow>
                 (case cv_segments r of
                    JsonBad _ \<Rightarrow> None
                  | JsonOk segs \<Rightarrow>
                      Some \<lparr> ce_provider = p, ce_symbol = s,
                             ce_asset_class = Option.bind (cv_asset_class r) asset_class_from_tag,
                             ce_kind = kind, ce_adjustment = adj, ce_segments = map to_span segs,
                             ce_event_count = cast_unsigned (cv_event_count r),
                             ce_est_bytes = Some (saturating_mul_u64 (cast_unsigned (cv_event_count r))
                                                    (bytes_per_row kind)) \<rparr>))))"

definition catalog :: "turso_db \<Rightarrow> catalog_entry list" where
  "catalog db = List.map_filter catalog_row (db_coverage db)"

section \<open>Writing\<close>

text \<open>
  The row an event is written to. A bar under a key whose table has no bar columns makes
  the engine reject the statement with \<open>bad_columns\<close>.
\<close>

definition insert_event :: "string \<Rightarrow> cache_key \<Rightarrow> market_event \<Rightarrow> (row_key \<times> row) list \<Rightarrow> (row_key \<times> row) list res" where
  "insert_event bad_columns key ev rows =
     (case series key of (tbl, p, s, a) \<Rightarrow>
       (case ev of
          Trade t \<Rightarrow>
            Inr (AList.update (''trades'', p, s, a, t_source_ts t)
                   (TradeRow (t_rx_ts t) (t_price t) (cast_signed (t_size t))) rows)
        | Quote q \<Rightarrow>
            Inr (AList.update (''quotes'', p, s, a, q_source_ts q)
                   (QuoteRow (q_rx_ts q) (q_bid q) (cast_signed (q_bid_size q))
                      (q_ask q) (cast_signed (q_ask_size q))) rows)
        | Bar b \<Rightarrow>
            (case k_kind key of
               KBar _ \<Rightarrow>
                 Inr (AList.update (tbl, p, s, a, b_source_ts b)
                        (BarRow (b_rx_ts b) (b_open b) (b_high b) (b_low b) (b_close b)
                           (cast_signed (b_volume b))) rows)
             | _ \<Rightarrow> Inl (Storage bad_columns))
        | Control _ \<Rightarrow> Inr rows))"

fun insert_events :: "string \<Rightarrow> cache_key \<Rightarrow> market_event list \<Rightarrow> (row_key \<times> row) list \<Rightarrow> (row_key \<times> row) list res" where
  "insert_events bad key [] rows = Inr rows"
| "insert_events bad key (ev # evs) rows =
     (case insert_event bad key ev rows of
        Inl e \<Rightarrow> Inl e
      | Inr rows' \<Rightarrow> insert_events bad key evs rows')"

definition delete_range :: "cache_key \<Rightarrow> (row_key \<times> row) list \<Rightarrow> (row_key \<times> row) list" where
  "delete_range key rows = filter (\<lambda>(rk, _). \<not> in_series key (k_from key) (k_to key) rk) rows"

definition recount :: "turso_db \<Rightarrow> cache_key \<Rightarrow> seg list \<Rightarrow> u64" where
  "recount db key segs =
     foldl (\<lambda>total (a, b). saturating_add_u64 total (count_events_in db key a b)) 0 segs"

definition write_coverage :: "cache_key \<Rightarrow> turso_db \<Rightarrow> turso_db res" where
  "write_coverage key db =
     (case load_coverage db key of
        Inl e \<Rightarrow> Inl e
      | Inr d \<Rightarrow>
          let doc = merge_in (k_from key) (k_to key) 0 (doc_or_default d);
              total = recount db key (segments doc)
          in Inr (db\<lparr> db_coverage := AList.update (coverage_key_of key)
                        \<lparr> cv_segments = JsonOk (segments doc), cv_event_count = cast_signed total,
                          cv_asset_class = Some (asset_class_tag (i_asset_class (k_instrument key))) \<rparr>
                        (db_coverage db) \<rparr>))"

definition store_in_tx :: "string \<Rightarrow> cache_key \<Rightarrow> market_event list \<Rightarrow> turso_db \<Rightarrow> turso_db res" where
  "store_in_tx bad key events db =
     (case insert_events bad key events (delete_range key (db_rows db)) of
        Inl e \<Rightarrow> Inl e
      | Inr rows \<Rightarrow> write_coverage key (db\<lparr> db_rows := rows \<rparr>))"

text \<open>
  \<^verbatim>\<open>store\<close>: the transaction. \<open>fault\<close> is a statement, \<^verbatim>\<open>BEGIN\<close> or \<^verbatim>\<open>COMMIT\<close> failure of the
  engine; every error path rolls back.
\<close>

definition store :: "error option \<Rightarrow> string \<Rightarrow> cache_key \<Rightarrow> market_event list \<Rightarrow> turso_db \<Rightarrow> unit res \<times> turso_db" where
  "store fault bad key events db =
     (case fault of
        Some e \<Rightarrow> (Inl e, db)
      | None \<Rightarrow>
          (case store_in_tx bad key events db of
             Inl e \<Rightarrow> (Inl e, db)
           | Inr db' \<Rightarrow> (Inr (), db')))"

section \<open>Replay\<close>

text \<open>Decoding one selected row for the requested kind; \<open>None\<close> is a column the row lacks.\<close>

definition decode_row :: "cache_key \<Rightarrow> timestamp \<Rightarrow> row \<Rightarrow> market_event option" where
  "decode_row key ts r =
     (case (k_kind key, r) of
        (KTrade, TradeRow rx pr sz) \<Rightarrow>
          Some (Trade \<lparr> t_instrument = k_instrument key, t_source_ts = ts, t_rx_ts = rx, t_seq = 0,
                        t_price = pr, t_size = cast_unsigned sz \<rparr>)
      | (KQuote, QuoteRow rx bid bsz ask asz) \<Rightarrow>
          Some (Quote \<lparr> q_instrument = k_instrument key, q_source_ts = ts, q_rx_ts = rx, q_seq = 0,
                        q_bid = bid, q_bid_size = cast_unsigned bsz,
                        q_ask = ask, q_ask_size = cast_unsigned asz \<rparr>)
      | (KBar iv, BarRow rx op hi lo cl vol) \<Rightarrow>
          Some (Bar \<lparr> b_instrument = k_instrument key, b_interval = iv, b_source_ts = ts,
                      b_rx_ts = rx, b_seq = 0, b_open = op, b_high = hi, b_low = lo, b_close = cl,
                      b_volume = cast_unsigned vol \<rparr>)
      | _ \<Rightarrow> None)"

definition row_ts :: "row_key \<Rightarrow> timestamp" where
  "row_ts rk = (case rk of (_, _, _, _, ts) \<Rightarrow> ts)"

definition select_rows :: "turso_db \<Rightarrow> cache_key \<Rightarrow> i64 \<Rightarrow> i64 \<Rightarrow> (timestamp \<times> row) list" where
  "select_rows db key from to =
     sort_key fst (map (\<lambda>(rk, r). (row_ts rk, r))
       (filter (\<lambda>(rk, _). in_series key from to rk) (db_rows db)))"

fun decode_rows :: "string \<Rightarrow> cache_key \<Rightarrow> (timestamp \<times> row) list \<Rightarrow> market_event list res" where
  "decode_rows bad key [] = Inr []"
| "decode_rows bad key ((ts, r) # rest) =
     (case decode_row key ts r of
        None \<Rightarrow> Inl (Storage bad)
      | Some ev \<Rightarrow> map_sum id (Cons ev) (decode_rows bad key rest))"

definition replay_open :: "string \<Rightarrow> turso_db \<Rightarrow> cache_key \<Rightarrow> replay_request \<Rightarrow> market_event list res" where
  "replay_open bad db key rq =
     (let from = max (rq_from rq) (k_from key);
          to = min (rq_to rq) (k_to key);
          instrument_matches = (rq_instruments rq = [] \<or> k_instrument key \<in> set (rq_instruments rq))
      in if \<not> instrument_matches \<or> (rq_kinds rq \<noteq> [] \<and> k_kind key \<notin> set (rq_kinds rq)) \<or> from \<ge> to
         then Inr []
         else decode_rows bad key (select_rows db key from to))"

section \<open>Token round trips\<close>

lemma kind_for_table_for [simp]: "kind_for (table_for k) = Some k"
proof (cases k)
  case (KBar b)
  then show ?thesis by (cases b) (simp_all add: kind_for_def)
qed (simp_all add: kind_for_def)

lemma table_for_inj [simp]: "table_for a = table_for b \<longleftrightarrow> a = b"
  by (metis kind_for_table_for option.inject)

lemma asset_class_tag_roundtrip [simp]: "asset_class_from_tag (asset_class_tag a) = Some a"
  by (cases a) (simp_all add: asset_class_from_tag_def)

section \<open>Bounded retry\<close>

declare retry_from.simps [simp del]

lemma retry_from_result:
  "retry_from attempt is_busy n = Inr r \<Longrightarrow> \<exists>m \<ge> n. attempt m = Inr r \<and> m \<le> max n BUSY_RETRIES"
proof (induction attempt is_busy n rule: retry_from.induct)
  case (1 attempt is_busy n)
  show ?case
  proof (cases "attempt n")
    case (Inr x)
    then show ?thesis using 1(2) by (auto simp: retry_from.simps [of attempt is_busy n])
  next
    case (Inl e)
    then have "is_busy e \<and> n < BUSY_RETRIES" "retry_from attempt is_busy (n + 1) = Inr r"
      using 1(2) by (auto simp: retry_from.simps [of attempt is_busy n] split: if_splits)
    then obtain m where "m \<ge> n + 1" "attempt m = Inr r" "m \<le> max (n + 1) BUSY_RETRIES"
      using 1(1) [OF Inl] by blast
    then show ?thesis using \<open>is_busy e \<and> n < BUSY_RETRIES\<close> by (intro exI [of _ m]) auto
  qed
qed

lemma retry_from_failure:
  "retry_from attempt is_busy n = Inl (e, k) \<Longrightarrow> n \<le> BUSY_RETRIES \<Longrightarrow>
   k \<le> BUSY_RETRIES \<and> attempt k = Inl e \<and> (is_busy e \<longrightarrow> k = BUSY_RETRIES)"
proof (induction attempt is_busy n rule: retry_from.induct)
  case (1 attempt is_busy n)
  show ?case
    using 1(2,3) 1(1)
    by (auto simp: retry_from.simps [of attempt is_busy n] split: sum.splits if_splits)
qed

section \<open>Well-formed databases\<close>

fun row_fits :: "event_kind \<Rightarrow> row \<Rightarrow> bool" where
  "row_fits KTrade (TradeRow _ _ _) = True"
| "row_fits KQuote (QuoteRow _ _ _ _ _) = True"
| "row_fits (KBar _) (BarRow _ _ _ _ _ _) = True"
| "row_fits _ _ = False"

definition rows_ok :: "(row_key \<times> row) list \<Rightarrow> bool" where
  "rows_ok rows \<longleftrightarrow> distinct (map fst rows) \<and>
     (\<forall>tbl x r. map_of rows (tbl, x) = Some r \<longrightarrow> (\<exists>k. tbl = table_for k \<and> row_fits k r))"

definition coverage_ok :: "(coverage_key \<times> coverage_row) list \<Rightarrow> bool" where
  "coverage_ok cov \<longleftrightarrow> distinct (map fst cov) \<and>
     (\<forall>k r. map_of cov k = Some r \<longrightarrow> (\<exists>segs. cv_segments r = JsonOk segs \<and> cov_ok segs))"

definition db_ok :: "turso_db \<Rightarrow> bool" where
  "db_ok db \<longleftrightarrow> rows_ok (db_rows db) \<and> coverage_ok (db_coverage db)"

lemma turso_empty_ok: "db_ok turso_empty"
  by (simp add: db_ok_def rows_ok_def coverage_ok_def turso_empty_def)

lemma map_of_filter_key:
  "distinct (map fst xs) \<Longrightarrow> map_of (filter (\<lambda>(k, _). P k) xs) k = (if P k then map_of xs k else None)"
  by (induction xs) (auto simp: map_of_eq_None_iff split: if_splits)

lemma rows_ok_delete: "rows_ok rows \<Longrightarrow> rows_ok (delete_range key rows)"
  by (auto simp: rows_ok_def delete_range_def map_of_filter_key distinct_map_filter split: if_splits)

lemma rows_ok_update:
  "rows_ok rows \<Longrightarrow> row_fits k r \<Longrightarrow> rows_ok (AList.update (table_for k, x) r rows)"
  by (auto simp: rows_ok_def distinct_update update_conv' split: if_splits)

lemma insert_event_ok:
  assumes "rows_ok rows" "insert_event bad key ev rows = Inr rows'"
  shows "rows_ok rows'"
proof -
  obtain p s a where se: "series key = (table_for (k_kind key), p, s, a)"
    by (auto simp: series_def)
  note upd = rows_ok_update [OF assms(1)]
  show ?thesis
    using assms upd [of KTrade] upd [of KQuote] upd [of "k_kind key"]
    by (auto simp: insert_event_def se split: market_event.splits event_kind.splits)
qed

lemma insert_events_ok:
  "rows_ok rows \<Longrightarrow> insert_events bad key evs rows = Inr rows' \<Longrightarrow> rows_ok rows'"
  by (induction bad key evs rows rule: insert_events.induct)
     (auto split: sum.splits dest: insert_event_ok)

lemma coverage_okD:
  "coverage_ok cov \<Longrightarrow> map_of cov k = Some r \<Longrightarrow> \<exists>segs. cv_segments r = JsonOk segs \<and> cov_ok segs"
  unfolding coverage_ok_def by blast

lemma coverage_ok_update:
  "coverage_ok cov \<Longrightarrow> cv_segments r = JsonOk segs \<Longrightarrow> cov_ok segs \<Longrightarrow> coverage_ok (AList.update k r cov)"
  unfolding coverage_ok_def update_conv' by (simp only: distinct_update fun_upd_apply) (metis option.inject)

lemma load_coverage_ok:
  "coverage_ok (db_coverage db) \<Longrightarrow> \<exists>d. load_coverage db key = Inr d \<and> doc_ok (doc_or_default d)"
proof -
  assume ok: "coverage_ok (db_coverage db)"
  show ?thesis
  proof (cases "map_of (db_coverage db) (coverage_key_of key)")
    case None
    then show ?thesis by (simp add: load_coverage_def doc_or_default_def)
  next
    case (Some r)
    then obtain segs where "cv_segments r = JsonOk segs" "cov_ok segs"
      using coverage_okD [OF ok Some] by blast
    then show ?thesis using Some by (simp add: load_coverage_def doc_or_default_def doc_ok_def)
  qed
qed

lemma write_coverage_ok:
  assumes "coverage_ok (db_coverage db)" "write_coverage key db = Inr db'"
  shows "coverage_ok (db_coverage db') \<and> db_rows db' = db_rows db"
proof -
  obtain d where d: "load_coverage db key = Inr d" "doc_ok (doc_or_default d)"
    using load_coverage_ok [OF assms(1)] by blast
  have "doc_ok (merge_in (k_from key) (k_to key) 0 (doc_or_default d))"
    using d(2) by (rule merge_in_ok)
  then show ?thesis
    using assms d coverage_ok_update [OF assms(1), of _ _ "coverage_key_of key"]
    by (auto simp: write_coverage_def Let_def doc_ok_def)
qed

lemma store_in_tx_ok: "db_ok db \<Longrightarrow> store_in_tx bad key evs db = Inr db' \<Longrightarrow> db_ok db'"
proof -
  assume ok: "db_ok db" and st: "store_in_tx bad key evs db = Inr db'"
  obtain rows where rows: "insert_events bad key evs (delete_range key (db_rows db)) = Inr rows"
    and w: "write_coverage key (db\<lparr> db_rows := rows \<rparr>) = Inr db'"
    using st by (auto simp: store_in_tx_def split: sum.splits)
  have "rows_ok rows"
    using ok insert_events_ok [OF rows_ok_delete rows] by (simp add: db_ok_def)
  then show ?thesis
    using write_coverage_ok [OF _ w] ok by (auto simp: db_ok_def)
qed

lemma store_ok: "db_ok db \<Longrightarrow> db_ok (snd (store fault bad key evs db))"
  using store_in_tx_ok by (auto simp: store_def split: option.splits sum.splits)

section \<open>Coverage after a store\<close>

definition doc_at :: "turso_db \<Rightarrow> cache_key \<Rightarrow> coverage_doc" where
  "doc_at db key = (case load_coverage db key of Inr d \<Rightarrow> doc_or_default d | Inl _ \<Rightarrow> coverage_default)"

definition covered_at :: "turso_db \<Rightarrow> cache_key \<Rightarrow> int set" where
  "covered_at db key = doc_covered (doc_at db key)"

lemma doc_at_ok: "db_ok db \<Longrightarrow> doc_ok (doc_at db key)"
  using load_coverage_ok [of db key] by (auto simp: db_ok_def doc_at_def)

lemma gaps_doc_at: "db_ok db \<Longrightarrow> gaps db key = Inr (doc_spans (doc_at db key) (k_from key) (k_to key))"
  using load_coverage_ok [of db key] by (auto simp: db_ok_def gaps_def doc_at_def)

lemma load_coverage_cong:
  "db_coverage db = db_coverage db' \<Longrightarrow> coverage_key_of key = coverage_key_of key' \<Longrightarrow>
   load_coverage db key = load_coverage db' key'"
  by (simp add: load_coverage_def)

lemma store_in_tx_coverage:
  assumes "db_ok db" "store_in_tx bad key evs db = Inr db'"
  shows "segments (doc_at db' key') =
     (if coverage_key_of key' = coverage_key_of key
      then segments (merge_in (k_from key) (k_to key) 0 (doc_at db key))
      else segments (doc_at db key'))"
proof -
  obtain rows where w: "write_coverage key (db\<lparr> db_rows := rows \<rparr>) = Inr db'"
    using assms(2) by (auto simp: store_in_tx_def split: sum.splits)
  have lc: "load_coverage (db\<lparr> db_rows := rows \<rparr>) key = load_coverage db key"
    by (simp add: load_coverage_def)
  obtain d where d: "load_coverage db key = Inr d"
    using load_coverage_ok assms(1) by (auto simp: db_ok_def)
  have "doc_at db key = doc_or_default d" by (simp add: doc_at_def d)
  then show ?thesis
    using w lc d
    by (auto simp: write_coverage_def Let_def doc_at_def load_coverage_def update_conv' doc_or_default_def
        split: option.splits)
qed

lemma store_in_tx_covered:
  assumes "db_ok db" "store_in_tx bad key evs db = Inr db'"
  shows "covered_at db' key' =
     (if coverage_key_of key' = coverage_key_of key then covered_at db key \<union> {k_from key ..< k_to key}
      else covered_at db key')"
  using store_in_tx_coverage [OF assms] merge_in_covered [OF doc_at_ok [OF assms(1)]]
  by (simp add: covered_at_def doc_covered_def)

lemma coverage_key_iff: "coverage_key_of k = coverage_key_of k' \<longleftrightarrow> series k = series k'"
  by (auto simp: coverage_key_of_def split: prod.splits)

text \<open>A stored range is not a gap of any later request inside it, fetched-but-empty included.\<close>

lemma gaps_after_store:
  assumes "db_ok db" "store_in_tx bad key evs db = Inr db'"
    and "series key' = series key" "k_from key \<le> k_from key'" "k_to key' \<le> k_to key"
  shows "gaps db' key' = Inr []"
proof -
  have ok: "doc_ok (doc_at db' key')" using doc_at_ok store_in_tx_ok assms(1,2) by blast
  have "{k_from key' ..< k_to key'} - doc_covered (doc_at db' key') = {}"
    using store_in_tx_covered [OF assms(1,2), of key'] assms(3-5)
    by (auto simp: covered_at_def coverage_key_iff)
  then have "covered (gaps_within (doc_at db' key') (k_from key') (k_to key')) = {}"
    by (simp add: gaps_within_exact ok)
  then have "gaps_within (doc_at db' key') (k_from key') (k_to key') = []"
    using covered_empty_iff gaps_within_ok [OF ok] by blast
  then show ?thesis
    using gaps_doc_at [of db' key'] store_in_tx_ok assms(1,2) by (simp add: doc_spans_def)
qed

text \<open>The cache as a provider of the exact gap-reporting contract, one series at a time.\<close>

definition series_gaps :: "turso_db \<times> cache_key \<Rightarrow> timestamp \<Rightarrow> timestamp \<Rightarrow> gap_span list" where
  "series_gaps c f t =
     (case gaps (fst c) ((snd c)\<lparr> k_from := f, k_to := t \<rparr>) of Inr g \<Rightarrow> g | Inl _ \<Rightarrow> [gap_span_of f t])"

lemma series_range [simp]: "series (key\<lparr> k_from := f, k_to := t \<rparr>) = series key"
  by (simp add: series_def effective_adjustment_def split: event_kind.split)

lemma coverage_key_range [simp]:
  "coverage_key_of (key\<lparr> k_from := f, k_to := t \<rparr>) = coverage_key_of key"
  by (simp add: coverage_key_of_def)

lemma doc_at_range [simp]: "doc_at db (key\<lparr> k_from := f, k_to := t \<rparr>) = doc_at db key"
  by (simp add: doc_at_def load_coverage_def)

interpretation turso: exact_gap_reporter series_gaps "\<lambda>c. covered_at (fst c) (snd c)" "\<lambda>c. db_ok (fst c)"
proof
  fix c :: "turso_db \<times> cache_key" and f t :: timestamp
  assume ok: "db_ok (fst c)" and ft: "f < t"
  have eq: "series_gaps c f t = doc_spans (doc_at (fst c) (snd c)) f t"
    by (simp add: series_gaps_def gaps_doc_at [OF ok])
  have dok: "doc_ok (doc_at (fst c) (snd c))" using doc_at_ok [OF ok] .
  show "proper_gaps f t (series_gaps c f t)"
    unfolding eq using doc.gaps_proper dok ft .
  show "{f ..< t} - covered_at (fst c) (snd c) \<subseteq> covered (map span_seg (series_gaps c f t))"
    unfolding eq covered_at_def using doc.gaps_complete dok ft .
  show "covered (map span_seg (series_gaps c f t)) \<inter> covered_at (fst c) (snd c) = {}"
    unfolding eq covered_at_def using doc.gaps_exact dok ft .
qed

section \<open>Rows after a store\<close>

text \<open>The events a key's series can hold, and the row each is written as.\<close>

definition of_kind :: "cache_key \<Rightarrow> market_event \<Rightarrow> bool" where
  "of_kind key ev =
     (case (ev, k_kind key) of
        (Trade _, KTrade) \<Rightarrow> True | (Quote _, KQuote) \<Rightarrow> True | (Bar _, KBar _) \<Rightarrow> True | _ \<Rightarrow> False)"

definition event_ts :: "market_event \<Rightarrow> timestamp" where
  "event_ts ev = (case data_source_ts ev of Some ts \<Rightarrow> ts | None \<Rightarrow> 0)"

fun row_of_event :: "market_event \<Rightarrow> row" where
  "row_of_event (Trade t) = TradeRow (t_rx_ts t) (t_price t) (cast_signed (t_size t))"
| "row_of_event (Quote q) = QuoteRow (q_rx_ts q) (q_bid q) (cast_signed (q_bid_size q))
                              (q_ask q) (cast_signed (q_ask_size q))"
| "row_of_event (Bar b) = BarRow (b_rx_ts b) (b_open b) (b_high b) (b_low b) (b_close b)
                            (cast_signed (b_volume b))"
| "row_of_event (Control c) = TradeRow 0 0 0"

text \<open>What replay makes of an event: the key's instrument and interval, and no \<open>seq\<close>.\<close>

fun as_replayed :: "cache_key \<Rightarrow> market_event \<Rightarrow> market_event" where
  "as_replayed key (Trade t) = Trade (t\<lparr> t_instrument := k_instrument key, t_seq := 0 \<rparr>)"
| "as_replayed key (Quote q) = Quote (q\<lparr> q_instrument := k_instrument key, q_seq := 0 \<rparr>)"
| "as_replayed key (Bar b) =
     Bar (b\<lparr> b_instrument := k_instrument key,
             b_interval := (case k_kind key of KBar iv \<Rightarrow> iv | _ \<Rightarrow> b_interval b), b_seq := 0 \<rparr>)"
| "as_replayed key (Control c) = Control c"

lemma insert_event_of_kind:
  "of_kind key ev \<Longrightarrow>
   insert_event bad key ev rows = Inr (AList.update (row_of key (event_ts ev)) (row_of_event ev) rows)"
  by (auto simp: of_kind_def insert_event_def series_def row_of_def event_ts_def data_source_ts_def
      split: market_event.splits event_kind.splits)

lemma insert_events_of_kind:
  "\<forall>ev \<in> set evs. of_kind key ev \<Longrightarrow>
   insert_events bad key evs rows =
     Inr (fold (\<lambda>ev. AList.update (row_of key (event_ts ev)) (row_of_event ev)) evs rows)"
  by (induction evs arbitrary: rows) (auto simp: insert_event_of_kind)

lemma decode_row_of_event:
  "of_kind key ev \<Longrightarrow> decode_row key (event_ts ev) (row_of_event ev) = Some (as_replayed key ev)"
  by (auto simp: of_kind_def decode_row_def event_ts_def data_source_ts_def
      split: market_event.splits event_kind.splits)

lemma row_ts_row_of [simp]: "row_ts (row_of key ts) = ts"
  by (simp add: row_ts_def row_of_def split: prod.splits)

lemma row_of_inj [simp]: "row_of key t = row_of key t' \<longleftrightarrow> t = t'"
  by (auto simp: row_of_def split: prod.splits)

lemma in_series_row_of [simp]: "in_series key f t (row_of key ts) \<longleftrightarrow> f \<le> ts \<and> ts < t"
  by (auto simp: in_series_def row_of_def split: prod.splits)

lemma in_series_iff: "in_series key f t rk \<longleftrightarrow> (\<exists>ts. rk = row_of key ts \<and> f \<le> ts \<and> ts < t)"
  by (cases "series key"; cases rk) (auto simp: in_series_def row_of_def)

text \<open>The newest event at each instant: \<^verbatim>\<open>INSERT OR REPLACE\<close> keeps the last one written.\<close>

definition newest_at :: "market_event list \<Rightarrow> timestamp \<Rightarrow> market_event option" where
  "newest_at evs ts = map_of (rev (map (\<lambda>ev. (event_ts ev, ev)) evs)) ts"

lemma newest_at_snoc: "newest_at (evs @ [ev]) ts = (if ts = event_ts ev then Some ev else newest_at evs ts)"
  by (simp add: newest_at_def)

lemma newest_at_member: "newest_at evs ts = Some ev \<Longrightarrow> ev \<in> set evs \<and> event_ts ev = ts"
  by (auto simp: newest_at_def dest!: map_of_SomeD)

lemma map_of_fold_update:
  "map_of (fold (\<lambda>ev. AList.update (row_of key (event_ts ev)) (row_of_event ev)) evs rows) (row_of key ts) =
     (case newest_at evs ts of Some ev \<Rightarrow> Some (row_of_event ev) | None \<Rightarrow> map_of rows (row_of key ts))"
proof (induction evs rule: rev_induct)
  case (snoc ev evs)
  then show ?case by (auto simp: update_conv' newest_at_snoc)
qed (simp add: newest_at_def)

lemma store_rows_at:
  assumes "db_ok db" "store_in_tx bad key evs db = Inr db'" "\<forall>ev \<in> set evs. of_kind key ev"
  shows "map_of (db_rows db') (row_of key ts) =
     (case newest_at evs ts of Some ev \<Rightarrow> Some (row_of_event ev)
      | None \<Rightarrow> if k_from key \<le> ts \<and> ts < k_to key then None else map_of (db_rows db) (row_of key ts))"
proof -
  let ?rows = "fold (\<lambda>ev. AList.update (row_of key (event_ts ev)) (row_of_event ev)) evs
                 (delete_range key (db_rows db))"
  have w: "write_coverage key (db\<lparr> db_rows := ?rows \<rparr>) = Inr db'"
    using assms(2) by (simp add: store_in_tx_def insert_events_of_kind [OF assms(3)])
  have "coverage_ok (db_coverage (db\<lparr> db_rows := ?rows \<rparr>))" using assms(1) by (simp add: db_ok_def)
  then have "db_rows db' = ?rows" using write_coverage_ok [OF _ w] by simp
  moreover have "map_of (delete_range key (db_rows db)) (row_of key ts) =
      (if k_from key \<le> ts \<and> ts < k_to key then None else map_of (db_rows db) (row_of key ts))"
    unfolding delete_range_def using assms(1)
    by (subst map_of_filter_key) (auto simp: db_ok_def rows_ok_def)
  ultimately show ?thesis by (simp add: map_of_fold_update split: option.splits)
qed

section \<open>Replay after a store\<close>

lemma select_rows_props:
  assumes "rows_ok (db_rows db)"
  shows "set (select_rows db key f t) =
      {(ts, r). f \<le> ts \<and> ts < t \<and> map_of (db_rows db) (row_of key ts) = Some r}"
    and "sorted (map fst (select_rows db key f t))"
    and "distinct (map fst (select_rows db key f t))"
proof -
  let ?sel = "filter (\<lambda>(rk, _). in_series key f t rk) (db_rows db)"
  have d: "distinct (map fst (db_rows db))" using assms by (simp add: rows_ok_def)
  have sel: "select_rows db key f t = sort_key fst (map (\<lambda>(rk, r). (row_ts rk, r)) ?sel)"
    by (simp add: select_rows_def)
  have "set (select_rows db key f t) = (\<lambda>(rk, r). (row_ts rk, r)) ` set ?sel" by (simp add: sel)
  also have "\<dots> = {(ts, r). f \<le> ts \<and> ts < t \<and> (row_of key ts, r) \<in> set (db_rows db)}"
    by (force simp: in_series_iff)
  finally show "set (select_rows db key f t) =
      {(ts, r). f \<le> ts \<and> ts < t \<and> map_of (db_rows db) (row_of key ts) = Some r}"
    by (simp add: map_of_eq_Some_iff [OF d])
  show "sorted (map fst (select_rows db key f t))" by (simp add: sel)
  have keys: "map fst ?sel = map (row_of key) (map (row_ts \<circ> fst) ?sel)"
    by (auto simp: in_series_iff)
  have "distinct (map fst ?sel)" using d by (rule distinct_map_filter)
  then have "distinct (map (row_ts \<circ> fst) ?sel)" unfolding keys using distinct_map by blast
  then have "distinct (map fst (map (\<lambda>(rk, r). (row_ts rk, r)) ?sel))"
    by (simp add: comp_def case_prod_beta)
  then show "distinct (map fst (select_rows db key f t))"
    unfolding sel by (simp add: distinct_map inj_on_def)
qed

lemma decode_rows_map:
  "\<forall>ev \<in> set evs. of_kind key ev \<Longrightarrow>
   decode_rows bad key (map (\<lambda>ev. (event_ts ev, row_of_event ev)) evs) = Inr (map (as_replayed key) evs)"
  by (induction evs) (auto simp: decode_row_of_event)

text \<open>The events of a batch that survive in the table, in time order.\<close>

definition batch_rows :: "timestamp \<Rightarrow> timestamp \<Rightarrow> market_event list \<Rightarrow> market_event list" where
  "batch_rows f t evs =
     map (\<lambda>ts. the (newest_at evs ts)) (filter (\<lambda>ts. f \<le> ts \<and> ts < t) (sorted_list_of_set (set (map event_ts evs))))"

lemma newest_at_distinct:
  "distinct (map event_ts evs) \<Longrightarrow> ev \<in> set evs \<Longrightarrow> newest_at evs (event_ts ev) = Some ev"
proof (induction evs rule: rev_induct)
  case (snoc x evs)
  show ?case
  proof (cases "ev = x")
    case False
    then have "ev \<in> set evs" using snoc.prems by simp
    moreover from this have "event_ts ev \<noteq> event_ts x"
      using snoc.prems(1) by (auto simp: image_iff)
    ultimately show ?thesis using snoc by (simp add: newest_at_snoc)
  qed (simp add: newest_at_snoc)
qed simp

lemma newest_at_dom: "newest_at evs ts \<noteq> None \<longleftrightarrow> ts \<in> set (map event_ts evs)"
proof (induction evs rule: rev_induct)
  case (snoc ev evs)
  then show ?case by (auto simp: newest_at_snoc)
qed (simp add: newest_at_def)

lemma batch_rows_props:
  "map event_ts (batch_rows f t evs) = filter (\<lambda>ts. f \<le> ts \<and> ts < t) (sorted_list_of_set (set (map event_ts evs)))"
  "set (batch_rows f t evs) = {ev. f \<le> event_ts ev \<and> event_ts ev < t \<and> newest_at evs (event_ts ev) = Some ev}"
proof -
  have at: "event_ts (the (newest_at evs ts)) = ts" if "ts \<in> set (map event_ts evs)" for ts
    using that newest_at_dom newest_at_member by (metis option.exhaust_sel)
  show "map event_ts (batch_rows f t evs) =
      filter (\<lambda>ts. f \<le> ts \<and> ts < t) (sorted_list_of_set (set (map event_ts evs)))"
    unfolding batch_rows_def map_map by (rule map_idI) (use at in auto)
  show "set (batch_rows f t evs) = {ev. f \<le> event_ts ev \<and> event_ts ev < t \<and> newest_at evs (event_ts ev) = Some ev}"
  proof (rule set_eqI)
    fix ev
    have "ev \<in> set (batch_rows f t evs) \<longleftrightarrow>
        (\<exists>ts \<in> set (map event_ts evs). f \<le> ts \<and> ts < t \<and> ev = the (newest_at evs ts))"
      by (auto simp: batch_rows_def)
    also have "\<dots> \<longleftrightarrow> f \<le> event_ts ev \<and> event_ts ev < t \<and> newest_at evs (event_ts ev) = Some ev"
      using newest_at_dom [of evs] newest_at_member [of evs] at by (metis option.collapse option.sel option.discI)
    finally show "ev \<in> set (batch_rows f t evs) \<longleftrightarrow>
        ev \<in> {ev. f \<le> event_ts ev \<and> event_ts ev < t \<and> newest_at evs (event_ts ev) = Some ev}" by simp
  qed
qed

lemma select_after_store:
  assumes ok: "db_ok db" and st: "store_in_tx bad key evs db = Inr db'"
    and kind: "\<forall>ev \<in> set evs. of_kind key ev"
    and f: "k_from key \<le> f" and t: "t \<le> k_to key"
  shows "select_rows db' key f t = map (\<lambda>ev. (event_ts ev, row_of_event ev)) (batch_rows f t evs)"
proof (rule map_sorted_distinct_set_unique [of fst])
  have rows: "rows_ok (db_rows db')" using store_in_tx_ok [OF ok st] by (simp add: db_ok_def)
  note sel = select_rows_props [OF rows, of key f t]
  let ?b = "map (\<lambda>ev. (event_ts ev, row_of_event ev)) (batch_rows f t evs)"
  have fst_b: "map fst ?b = filter (\<lambda>ts. f \<le> ts \<and> ts < t) (sorted_list_of_set (set (map event_ts evs)))"
    using batch_rows_props(1) [of f t evs] by (simp add: comp_def)
  show "sorted (map fst (select_rows db' key f t))" "distinct (map fst (select_rows db' key f t))"
    by (fact sel)+
  show "sorted (map fst ?b)" "distinct (map fst ?b)"
    unfolding fst_b by (simp_all add: sorted_wrt_filter)
  have "(ts, r) \<in> set (select_rows db' key f t) \<longleftrightarrow> (ts, r) \<in> set ?b" for ts r
  proof -
    have "map_of (db_rows db') (row_of key ts) = map_option row_of_event (newest_at evs ts)"
      if "f \<le> ts" "ts < t"
      using store_rows_at [OF ok st kind, of ts] f t that by (simp split: option.splits)
    then have "(ts, r) \<in> set (select_rows db' key f t) \<longleftrightarrow>
        f \<le> ts \<and> ts < t \<and> (\<exists>ev. newest_at evs ts = Some ev \<and> r = row_of_event ev)"
      unfolding sel(1) by (cases "newest_at evs ts") auto
    also have "\<dots> \<longleftrightarrow> (ts, r) \<in> set ?b"
      unfolding set_map batch_rows_props(2) using newest_at_member [of evs ts] by auto
    finally show ?thesis .
  qed
  then show eq: "set (select_rows db' key f t) = set ?b" by auto
  show "inj_on fst (set (select_rows db' key f t) \<union> set ?b)"
    unfolding eq [symmetric] using sel(3) by (simp add: distinct_map)
qed

lemma replay_after_store:
  assumes "db_ok db" "store_in_tx bad key evs db = Inr db'" "\<forall>ev \<in> set evs. of_kind key ev"
    and "rq_instruments rq = [] \<or> k_instrument key \<in> set (rq_instruments rq)"
    and "rq_kinds rq = [] \<or> k_kind key \<in> set (rq_kinds rq)"
    and "max (rq_from rq) (k_from key) < min (rq_to rq) (k_to key)"
  shows "replay_open bad db' key rq =
     Inr (map (as_replayed key) (batch_rows (max (rq_from rq) (k_from key)) (min (rq_to rq) (k_to key)) evs))"
proof -
  have "\<forall>ev \<in> set (batch_rows f t evs). of_kind key ev" for f t
    using newest_at_member assms(3) by (auto simp: batch_rows_props(2))
  then show ?thesis
    using assms(4-6) select_after_store [OF assms(1-3)] decode_rows_map
    by (auto simp: replay_open_def Let_def)
qed

text \<open>A batch in strictly increasing time order inside the range survives whole.\<close>

lemma batch_rows_sorted:
  assumes "sorted_wrt (<) (map event_ts evs)" "\<forall>ev \<in> set evs. f \<le> event_ts ev \<and> event_ts ev < t"
  shows "batch_rows f t evs = evs"
proof (rule map_sorted_distinct_set_unique [of event_ts])
  have d: "distinct (map event_ts evs)" "sorted (map event_ts evs)"
    using assms(1) strict_sorted_iff by blast+
  have "newest_at evs (event_ts ev) = Some ev" if "ev \<in> set evs" for ev
    using d(1) that by (rule newest_at_distinct)
  then show "set (batch_rows f t evs) = set evs"
    unfolding batch_rows_props(2) using assms(2) newest_at_member by blast
  then show "inj_on event_ts (set (batch_rows f t evs) \<union> set evs)"
    using d(1) by (simp add: distinct_map)
  show "sorted (map event_ts evs)" "distinct (map event_ts evs)" by (fact d)+
  show "sorted (map event_ts (batch_rows f t evs))" "distinct (map event_ts (batch_rows f t evs))"
    by (simp_all add: batch_rows_props(1) sorted_wrt_filter)
qed

section \<open>The event count\<close>

text \<open>The rows of a series that lie in covered time.\<close>

definition covered_rows :: "turso_db \<Rightarrow> cache_key \<Rightarrow> seg list \<Rightarrow> nat" where
  "covered_rows db key segs =
     length (filter (\<lambda>(rk, _). in_series key (row_ts rk) (row_ts rk + 1) rk \<and> row_ts rk \<in> covered segs) (db_rows db))"

lemma in_series_split:
  "in_series key f t rk \<longleftrightarrow> in_series key (row_ts rk) (row_ts rk + 1) rk \<and> f \<le> row_ts rk \<and> row_ts rk < t"
  by (auto simp: in_series_def row_ts_def split: prod.splits)

lemma filter_disj_length:
  "\<forall>x \<in> set xs. \<not> (P x \<and> Q x) \<Longrightarrow>
   length (filter (\<lambda>x. P x \<or> Q x) xs) = length (filter P xs) + length (filter Q xs)"
  by (induction xs) auto

lemma covered_rows_snoc:
  assumes "cov_ok (segs @ [(a, b)])"
  shows "covered_rows db key (segs @ [(a, b)]) =
     covered_rows db key segs + length (filter (\<lambda>(rk, _). in_series key a b rk) (db_rows db))"
proof -
  have "x \<notin> {a ..< b}" if "x \<in> covered segs" for x
    using assms that by (fastforce simp: cov_ok_append covered_iff)
  then have disj: "\<forall>x \<in> set (db_rows db).
      \<not> ((case x of (rk, _) \<Rightarrow> in_series key (row_ts rk) (row_ts rk + 1) rk \<and> row_ts rk \<in> covered segs)
         \<and> (case x of (rk, _) \<Rightarrow> in_series key a b rk))"
    using in_series_split [of key a b] by auto
  have eq: "(\<lambda>(rk, _ :: row). in_series key (row_ts rk) (row_ts rk + 1) rk \<and> row_ts rk \<in> covered (segs @ [(a, b)])) =
      (\<lambda>x. (case x of (rk, _) \<Rightarrow> in_series key (row_ts rk) (row_ts rk + 1) rk \<and> row_ts rk \<in> covered segs)
           \<or> (case x of (rk, _) \<Rightarrow> in_series key a b rk))"
    using in_series_split [of key a b] by (auto simp: fun_eq_iff)
  show ?thesis
    unfolding covered_rows_def eq by (rule filter_disj_length [OF disj])
qed

lemma covered_rows_le: "covered_rows db key segs \<le> length (db_rows db)"
  by (simp add: covered_rows_def)

lemma recount_exact:
  assumes "length (db_rows db) < 2 ^ 64" "cov_ok segs"
  shows "recount db key segs = of_nat (covered_rows db key segs)"
  using assms(2)
proof (induction segs rule: rev_induct)
  case Nil
  then show ?case by (simp add: recount_def covered_rows_def)
next
  case (snoc s segs)
  obtain a b where s: "s = (a, b)" by (cases s)
  have ok: "cov_ok segs" using snoc.prems by (simp add: cov_ok_append)
  let ?n = "covered_rows db key segs"
  let ?m = "length (filter (\<lambda>(rk, _). in_series key a b rk) (db_rows db))"
  have sum: "covered_rows db key (segs @ [s]) = ?n + ?m"
    using covered_rows_snoc snoc.prems s by simp
  have le: "?n + ?m < 2 ^ 64"
    using covered_rows_le [of db key "segs @ [s]"] assms(1) sum by linarith
  have "recount db key (segs @ [s]) = saturating_add_u64 (of_nat ?n) (of_nat ?m)"
    using snoc.IH [OF ok] by (simp add: recount_def count_events_in_def s)
  also have "\<dots> = of_nat (?n + ?m)"
    using le by (simp add: saturating_add_u64_def unat_of_nat take_bit_nat_eq_self)
  finally show ?case by (simp only: sum)
qed

section \<open>Correctness of the cache\<close>

definition demo_key :: "timestamp \<Rightarrow> timestamp \<Rightarrow> cache_key" where
  "demo_key f t = \<lparr> k_instrument = demo_instrument, k_kind = KTrade, k_from = f, k_to = t, k_adjustment = Raw \<rparr>"

definition demo_db :: turso_db where
  "demo_db = snd (store None [] (demo_key 0 10) [demo_trade 2 0, demo_trade 5 1] turso_empty)"

lemma demo_store: "store_in_tx [] (demo_key 0 10) [demo_trade 2 0, demo_trade 5 1] turso_empty = Inr demo_db"
  by (simp add: demo_db_def store_def store_in_tx_def demo_key_def demo_trade_def insert_event_def series_def
      effective_adjustment_def turso_empty_def delete_range_def write_coverage_def load_coverage_def Let_def)

text \<open>C4: Round trip. Replaying any sub-window of a stored window gives back the stored events
  that fall in it, ordered by source timestamp, the newest of each timestamp, with the
  sequence number cleared and everything else as it was stored.\<close>

theorem store_replay_roundtrip:
  assumes "db_ok db" "store_in_tx bad key evs db = Inr db'" "\<forall>ev \<in> set evs. of_kind key ev"
    and "rq_instruments rq = [] \<or> k_instrument key \<in> set (rq_instruments rq)"
    and "rq_kinds rq = [] \<or> k_kind key \<in> set (rq_kinds rq)"
    and "max (rq_from rq) (k_from key) < min (rq_to rq) (k_to key)"
  shows "replay_open bad db' key rq =
     Inr (map (as_replayed key) (batch_rows (max (rq_from rq) (k_from key)) (min (rq_to rq) (k_to key)) evs))"
  by (rule replay_after_store [OF assms])

theorem store_replay_roundtrip_witness:
  "replay_open [] demo_db (demo_key 0 10) \<lparr> rq_instruments = [], rq_kinds = [KTrade], rq_from = 0, rq_to = 4 \<rparr>
     = Inr (map (as_replayed (demo_key 0 10)) (batch_rows 0 4 [demo_trade 2 0, demo_trade 5 1]))"
  using store_replay_roundtrip [OF turso_empty_ok demo_store,
      of "\<lparr> rq_instruments = [], rq_kinds = [KTrade], rq_from = 0, rq_to = 4 \<rparr>"]
  by (simp add: of_kind_def demo_key_def demo_trade_def)

text \<open>C21: A store extends the coverage of its own series by exactly its window and leaves every
  other series as it was; afterwards no sub-window of the stored window has a gap.\<close>

theorem store_extends_coverage:
  assumes "db_ok db" "store_in_tx bad key evs db = Inr db'"
  shows "covered_at db' key' =
       (if series key' = series key then covered_at db key \<union> {k_from key ..< k_to key} else covered_at db key')
     \<and> (series key' = series key \<and> k_from key \<le> k_from key' \<and> k_to key' \<le> k_to key \<longrightarrow> gaps db' key' = Inr [])"
  using store_in_tx_covered [OF assms, of key'] gaps_after_store [OF assms, of key']
  by (simp add: coverage_key_iff)

theorem store_extends_coverage_witness: "gaps demo_db (demo_key 3 8) = Inr []"
  using store_extends_coverage [OF turso_empty_ok demo_store, of "demo_key 3 8"]
  by (simp add: demo_key_def series_def effective_adjustment_def)

text \<open>Every store, successful or failed, keeps the database well formed: one row per key in
  a table that fits it, and sorted, disjoint, non-adjacent coverage; a failed store changes
  nothing.\<close>

lemma store_keeps_db_ok:
  assumes "db_ok db"
  shows "db_ok (snd (store fault bad key evs db))
    \<and> (\<forall>e. fst (store fault bad key evs db) = Inl e \<longrightarrow> snd (store fault bad key evs db) = db)"
  using store_ok [OF assms, of fault bad key evs]
  by (auto simp: store_def split: option.splits sum.splits)

lemma store_keeps_db_ok_witness: "db_ok demo_db"
  using store_keeps_db_ok [OF turso_empty_ok, of None "[]" "demo_key 0 10" "[demo_trade 2 0, demo_trade 5 1]"]
  by (simp add: demo_db_def)

text \<open>The event count written beside the coverage is the number of stored rows of the series
  whose timestamp is covered.\<close>

lemma stored_count_exact:
  assumes "db_ok db" "store_in_tx bad key evs db = Inr db'" "length (db_rows db') < 2 ^ 63"
  shows "event_count (doc_at db' key) = of_nat (covered_rows db' key (segments (doc_at db' key)))"
proof -
  obtain rows where w: "write_coverage key (db\<lparr> db_rows := rows \<rparr>) = Inr db'"
    using assms(2) by (auto simp: store_in_tx_def split: sum.splits)
  let ?db = "db\<lparr> db_rows := rows \<rparr>"
  let ?doc = "merge_in (k_from key) (k_to key) 0 (doc_at ?db key)"
  have cov: "coverage_ok (db_coverage ?db)" using assms(1) by (simp add: db_ok_def)
  then have ok: "cov_ok (segments ?doc)"
    using doc_at_ok [of db key] assms(1) merge_in_ok load_coverage_cong [of db ?db key key]
    by (simp add: doc_at_def doc_ok_def)
  obtain d where ld: "load_coverage ?db key = Inr d" using load_coverage_ok [OF cov, of key] by blast
  have rows: "db_rows db' = rows"
    using write_coverage_ok [OF cov w] by simp
  have doc': "doc_at db' key =
      \<lparr> segments = segments ?doc, event_count = cast_unsigned (cast_signed (recount ?db key (segments ?doc))),
        doc_asset_class = Some (asset_class_tag (i_asset_class (k_instrument key))) \<rparr>"
    using w ld
    by (auto simp: write_coverage_def doc_at_def load_coverage_def doc_or_default_def Let_def update_conv' split: sum.splits)
  have "recount ?db key (segments ?doc) = of_nat (covered_rows ?db key (segments ?doc))"
    using recount_exact [OF _ ok, of ?db key] assms(3) rows by simp
  moreover have "covered_rows ?db key segs = covered_rows db' key segs" for segs
    using rows by (simp add: covered_rows_def)
  ultimately show ?thesis by (simp add: doc')
qed

lemma stored_count_exact_witness:
  "event_count (doc_at demo_db (demo_key 0 10)) =
     of_nat (covered_rows demo_db (demo_key 0 10) (segments (doc_at demo_db (demo_key 0 10))))"
proof (rule stored_count_exact [OF turso_empty_ok demo_store])
  show "length (db_rows demo_db) < 2 ^ 63"
    by (simp add: demo_db_def store_def store_in_tx_def demo_key_def demo_trade_def insert_event_def series_def
      effective_adjustment_def turso_empty_def delete_range_def write_coverage_def load_coverage_def Let_def)
qed

text \<open>A write is retried only while the engine reports busy, at most 200 times: a success is
  the result of one of the first 201 attempts, and a failure is either a non-busy error or
  the busy error of the last attempt.\<close>

lemma execute_retry_bounded:
  "case execute_retry show_nat attempt is_busy of
     Inr n \<Rightarrow> \<exists>k \<le> 200. attempt k = Inr n
   | Inl _ \<Rightarrow> \<exists>k \<le> 200. \<exists>e. attempt k = Inl e \<and> (\<not> is_busy e \<or> k = 200)"
proof (cases "retry_from attempt is_busy 0")
  case (Inl ek)
  obtain e k where ek: "ek = (e, k)" by fastforce
  have "k \<le> BUSY_RETRIES \<and> attempt k = Inl e \<and> (is_busy e \<longrightarrow> k = BUSY_RETRIES)"
    by (rule retry_from_failure [of attempt is_busy 0]) (simp_all add: Inl ek)
  then show ?thesis
    unfolding execute_retry_def Inl ek by (auto simp: BUSY_RETRIES_def)
next
  case (Inr n)
  have "\<exists>m \<ge> 0. attempt m = Inr n \<and> m \<le> max 0 BUSY_RETRIES" by (rule retry_from_result [OF Inr])
  then show ?thesis unfolding execute_retry_def Inr by (auto simp: BUSY_RETRIES_def)
qed

lemma execute_retry_bounded_witness:
  "execute_retry (\<lambda>_. []) (\<lambda>k. if k < 1 then Inl ''busy'' else Inr 7) (\<lambda>_. True) = Inr 7
   \<and> (\<exists>k \<le> 200. (if k < (1 :: nat) then Inl ''busy'' else Inr 7) = (Inr 7 :: string + u64))"
proof -
  let ?attempt = "\<lambda>k. if k < 1 then Inl ''busy'' else Inr 7 :: string + u64"
  have "retry_from ?attempt (\<lambda>_. True) 0 = retry_from ?attempt (\<lambda>_. True) 1"
    by (subst retry_from.simps) (simp add: BUSY_RETRIES_def)
  also have "\<dots> = Inr 7" by (subst retry_from.simps) simp
  finally have r: "execute_retry (\<lambda>_. []) ?attempt (\<lambda>_. True) = Inr 7" by (simp add: execute_retry_def)
  then show ?thesis using execute_retry_bounded [of ?attempt "\<lambda>_. True" "\<lambda>_. []"] by simp
qed

text \<open>The plan for a series of a well-formed database cuts the window into consecutive
  segments, replays only covered instants and fetches only uncovered ones.\<close>

lemma turso_plan_exact:
  assumes "db_ok db" "f < t"
  shows "let plan = tile f t (series_gaps (db, key) f t) in tiles f t plan
    \<and> (\<forall>s \<in> set plan. if is_gap s then piece s \<inter> covered_at db key = {} else piece s \<subseteq> covered_at db key)"
  using turso.plan_partitions [of "(db, key)" f t] turso.plan_covered_sound [of "(db, key)" f t]
    turso.plan_gap_uncovered [of "(db, key)" f t] assms by (simp add: Let_def)

end
