(* ===== verification/Event_Rings.thy ===== *)
theory Event_Rings
  imports Events "HOL-Library.AList"
begin

text \<open>
  The two bounded FIFOs that hold events while no consumer is attached:
  \<^verbatim>\<open>EventRing\<close> of \<^verbatim>\<open>session.rs\<close> (one dropped span) and \<^verbatim>\<open>ClientRing\<close> of
  \<^verbatim>\<open>client.rs\<close> (one dropped span per instrument). Both evict the oldest event and
  account for what it carried. The shared contract is the locale \<open>lossy_ring\<close>: its client
  lemmas say that after any sequence of pushes the buffer is the newest suffix and that
  everything evicted before it is accounted for. A \<^verbatim>\<open>HashMap\<close> is an association list
  with distinct keys; its iteration order is a parameter where the code iterates it.
\<close>

section \<open>Event coordinates\<close>

fun data_instrument :: "market_event \<Rightarrow> instrument option" where
  "data_instrument (Trade t) = Some (t_instrument t)"
| "data_instrument (Quote q) = Some (q_instrument q)"
| "data_instrument (Bar b) = Some (b_instrument b)"
| "data_instrument (Control c) = None"

definition absorb_span :: "gap_span \<Rightarrow> timestamp \<Rightarrow> timestamp \<Rightarrow> gap_span" where
  "absorb_span sp f t =
     sp\<lparr> from_source_ts := min (from_source_ts sp) f, to_source_ts := max (to_source_ts sp) t \<rparr>"

section \<open>The contract of a lossy ring\<close>

text \<open>
  \<open>coord\<close> says which instants of which key an event stands for; \<open>lost\<close> is what the ring
  has recorded as dropped.
\<close>

locale lossy_ring =
  fixes cap :: "'r \<Rightarrow> nat"
    and buf :: "'r \<Rightarrow> 'e list"
    and push :: "'e \<Rightarrow> 'r \<Rightarrow> 'r"
    and lost :: "'r \<Rightarrow> 'k \<Rightarrow> int set"
    and coord :: "'e \<Rightarrow> ('k \<times> int set) option"
    and ok :: "'r \<Rightarrow> bool"
  assumes ok_cap: "ok r \<Longrightarrow> 0 < cap r \<and> length (buf r) \<le> cap r"
    and push_ok: "ok r \<Longrightarrow> ok (push e r)"
    and push_cap: "ok r \<Longrightarrow> cap (push e r) = cap r"
    and push_buf: "ok r \<Longrightarrow> buf (push e r) =
       (if length (buf r) = cap r then tl (buf r) else buf r) @ [e]"
    and push_mono: "ok r \<Longrightarrow> lost r k \<subseteq> lost (push e r) k"
    and push_evict: "ok r \<Longrightarrow> length (buf r) = cap r \<Longrightarrow> coord (hd (buf r)) = Some (k, S) \<Longrightarrow>
       S \<subseteq> lost (push e r) k"
begin

lemma pushes_ok: "ok r \<Longrightarrow> ok (fold push es r) \<and> cap (fold push es r) = cap r"
  by (induction es arbitrary: r) (auto simp: push_ok push_cap)

lemma pushes_mono: "ok r \<Longrightarrow> lost r k \<subseteq> lost (fold push es r) k"
proof (induction es arbitrary: r)
  case (Cons e es)
  then show ?case using push_mono [of r k e] push_ok [of r e] by fastforce
qed simp

lemma pushes_bounded: "ok r \<Longrightarrow> length (buf (fold push es r)) \<le> cap r"
  using pushes_ok ok_cap by metis

lemma pushes_suffix:
  "ok r \<Longrightarrow> buf (fold push es r) = drop (length (buf r @ es) - cap r) (buf r @ es)"
proof (induction es arbitrary: r)
  case Nil
  then show ?case using ok_cap [of r] by simp
next
  case (Cons e es)
  have IH: "buf (fold push es (push e r)) =
      drop (length (buf (push e r) @ es) - cap r) (buf (push e r) @ es)"
    using Cons push_ok push_cap by simp
  show ?case
  proof (cases "length (buf r) = cap r")
    case True
    then obtain x xs where b: "buf r = x # xs"
      using ok_cap [OF Cons.prems] by (cases "buf r") auto
    then have "length xs = cap r - 1" using True by simp
    then show ?thesis using IH True b push_buf [OF Cons.prems] by (simp add: Suc_diff_le)
  next
    case False
    then show ?thesis using IH push_buf [OF Cons.prems] by simp
  qed
qed

lemma pushes_accounted:
  assumes "ok r" "x \<in> set (take (length (buf r @ es) - cap r) (buf r @ es))"
    and "coord x = Some (k, S)"
  shows "S \<subseteq> lost (fold push es r) k"
  using assms
proof (induction es arbitrary: r)
  case Nil
  then show ?case using ok_cap [of r] by simp
next
  case (Cons e es)
  have ok': "ok (push e r)" and cap': "cap (push e r) = cap r"
    using Cons.prems push_ok push_cap by auto
  show ?case
  proof (cases "length (buf r) = cap r")
    case True
    then obtain y ys where b: "buf r = y # ys"
      using ok_cap [OF Cons.prems(1)] by (cases "buf r") auto
    then have b': "buf (push e r) = ys @ [e]" and len: "Suc (length ys) = cap r"
      using push_buf [OF Cons.prems(1)] True by simp_all
    show ?thesis
    proof (cases "x = y")
      case True
      then show ?thesis
        using push_evict [OF Cons.prems(1) \<open>length (buf r) = cap r\<close>] Cons.prems(3) b
          pushes_mono [OF ok'] by fastforce
    next
      case False
      have "length (buf r @ e # es) - cap r = Suc (length (buf (push e r) @ es) - cap r)"
        using b b' len by simp
      then have "x \<in> set (take (length (buf (push e r) @ es) - cap (push e r)) (buf (push e r) @ es))"
        using Cons.prems(2) False b b' cap' by simp
      then show ?thesis using Cons.IH [OF ok'] Cons.prems(3) by simp
    qed
  next
    case False
    then show ?thesis
      using Cons.prems Cons.IH [OF ok'] push_buf [OF Cons.prems(1)] cap' by simp
  qed
qed

end

section \<open>EventRing\<close>

record event_ring =
  er_capacity :: nat
  er_buf :: "market_event list"
  er_dropped :: "gap_span option"
  er_first_seq :: "seq option"

definition event_ring_new :: "nat \<Rightarrow> event_ring" where
  "event_ring_new capacity =
     \<lparr> er_capacity = max capacity 1, er_buf = [], er_dropped = None, er_first_seq = None \<rparr>"

text \<open>The \<open>(from, to)\<close> an evicted event contributes; \<open>None\<close> is the early return.\<close>

definition drop_coords :: "market_event \<Rightarrow> (timestamp \<times> timestamp) option" where
  "drop_coords ev =
     (case ev of
        Control c \<Rightarrow>
          (case c_kind c of
             Gap _ _ sp \<Rightarrow> Some (from_source_ts sp, to_source_ts sp)
           | _ \<Rightarrow> None)
      | _ \<Rightarrow> map_option (\<lambda>ts. (ts, saturating_add_i64 ts 1)) (data_source_ts ev))"

definition note_drop :: "market_event \<Rightarrow> event_ring \<Rightarrow> event_ring" where
  "note_drop ev r =
     (let r1 = r\<lparr> er_first_seq := (case er_first_seq r of None \<Rightarrow> seq_of ev | Some s \<Rightarrow> Some s) \<rparr> in
      case drop_coords ev of
        None \<Rightarrow> r1
      | Some (f, t) \<Rightarrow>
          r1\<lparr> er_dropped := Some (case er_dropped r of
                 Some sp \<Rightarrow> absorb_span sp f t
               | None \<Rightarrow> gap_span_of f t) \<rparr>)"

definition event_ring_push :: "market_event \<Rightarrow> event_ring \<Rightarrow> event_ring" where
  "event_ring_push ev r =
     (let r1 = (if length (er_buf r) = er_capacity r
                then (case er_buf r of
                        [] \<Rightarrow> r
                      | evicted # rest \<Rightarrow> note_drop evicted (r\<lparr> er_buf := rest \<rparr>))
                else r)
      in r1\<lparr> er_buf := er_buf r1 @ [ev] \<rparr>)"

definition event_ring_into_parts ::
  "event_ring \<Rightarrow> gap_span option \<times> seq option \<times> market_event list" where
  "event_ring_into_parts r = (er_dropped r, er_first_seq r, er_buf r)"

definition event_ring_ok :: "event_ring \<Rightarrow> bool" where
  "event_ring_ok r \<longleftrightarrow> 0 < er_capacity r \<and> length (er_buf r) \<le> er_capacity r"

definition span_opt_set :: "gap_span option \<Rightarrow> int set" where
  "span_opt_set sp = (case sp of None \<Rightarrow> {} | Some s \<Rightarrow> {from_source_ts s ..< to_source_ts s})"

text \<open>The instants an event stands for in an \<open>EventRing\<close>; there is one ledger.\<close>

definition ring_coord :: "market_event \<Rightarrow> (unit \<times> int set) option" where
  "ring_coord ev = map_option (\<lambda>(f, t). ((), {f ..< t})) (drop_coords ev)"

lemma note_drop_fields [simp]:
  "er_capacity (note_drop ev r) = er_capacity r" "er_buf (note_drop ev r) = er_buf r"
  "er_first_seq (note_drop ev r) = (case er_first_seq r of None \<Rightarrow> seq_of ev | Some s \<Rightarrow> Some s)"
  by (auto simp: note_drop_def Let_def split: option.splits)

lemma note_drop_dropped:
  "er_dropped (note_drop ev r) =
     (case drop_coords ev of None \<Rightarrow> er_dropped r
      | Some (f, t) \<Rightarrow> Some (case er_dropped r of Some sp \<Rightarrow> absorb_span sp f t
                                             | None \<Rightarrow> gap_span_of f t))"
  by (auto simp: note_drop_def Let_def split: option.splits)

lemma note_drop_mono:
  "span_opt_set (er_dropped r) \<subseteq> span_opt_set (er_dropped (note_drop ev r))"
  by (auto simp: note_drop_dropped span_opt_set_def absorb_span_def split: option.splits)

lemma note_drop_lost:
  "drop_coords ev = Some (f, t) \<Longrightarrow> {f ..< t} \<subseteq> span_opt_set (er_dropped (note_drop ev r))"
  by (auto simp: note_drop_dropped span_opt_set_def absorb_span_def split: option.splits)

lemma event_ring_push_full:
  "length (er_buf r) = er_capacity r \<Longrightarrow> er_buf r = x # xs \<Longrightarrow>
   event_ring_push ev r = (note_drop x (r\<lparr> er_buf := xs \<rparr>))\<lparr> er_buf := xs @ [ev] \<rparr>"
  by (simp add: event_ring_push_def)

lemma event_ring_push_room:
  "length (er_buf r) \<noteq> er_capacity r \<Longrightarrow> event_ring_push ev r = r\<lparr> er_buf := er_buf r @ [ev] \<rparr>"
  by (simp add: event_ring_push_def)

lemma event_ring_push_cases:
  assumes "event_ring_ok r"
  obtains (room) "length (er_buf r) \<noteq> er_capacity r"
      "event_ring_push ev r = r\<lparr> er_buf := er_buf r @ [ev] \<rparr>"
  | (full) x xs where "length (er_buf r) = er_capacity r" "er_buf r = x # xs"
      "event_ring_push ev r = (note_drop x (r\<lparr> er_buf := xs \<rparr>))\<lparr> er_buf := xs @ [ev] \<rparr>"
  using assms event_ring_push_full event_ring_push_room
  by (cases "er_buf r") (fastforce simp: event_ring_ok_def)+

interpretation er: lossy_ring er_capacity er_buf event_ring_push
  "\<lambda>r _. span_opt_set (er_dropped r)" ring_coord event_ring_ok
proof
  fix r e and k :: unit and S
  show "event_ring_ok r \<Longrightarrow> 0 < er_capacity r \<and> length (er_buf r) \<le> er_capacity r"
    by (simp add: event_ring_ok_def)
  assume ok: "event_ring_ok r"
  show "event_ring_ok (event_ring_push e r)"
    using ok by (cases rule: event_ring_push_cases [OF ok, of e]) (auto simp: event_ring_ok_def)
  show "er_capacity (event_ring_push e r) = er_capacity r"
    by (cases rule: event_ring_push_cases [OF ok, of e]) auto
  show "er_buf (event_ring_push e r) =
      (if length (er_buf r) = er_capacity r then tl (er_buf r) else er_buf r) @ [e]"
    by (cases rule: event_ring_push_cases [OF ok, of e]) auto
  show "span_opt_set (er_dropped r) \<subseteq> span_opt_set (er_dropped (event_ring_push e r))"
    using note_drop_mono [of "r\<lparr> er_buf := tl (er_buf r) \<rparr>" "hd (er_buf r)"]
    by (cases rule: event_ring_push_cases [OF ok, of e]) simp_all
  assume full: "length (er_buf r) = er_capacity r" and co: "ring_coord (hd (er_buf r)) = Some (k, S)"
  show "S \<subseteq> span_opt_set (er_dropped (event_ring_push e r))"
    using full co note_drop_lost
    by (cases rule: event_ring_push_cases [OF ok, of e]) (fastforce simp: ring_coord_def)+
qed

section \<open>ClientRing\<close>

record dropped_span =
  ds_span :: gap_span
  ds_first_seq :: seq
  ds_provider :: provider_id

record client_ring =
  cr_capacity :: nat
  cr_buf :: "(market_event \<times> provider_id) list"
  cr_dropped :: "(instrument \<times> dropped_span) list"

definition client_ring_new :: "nat \<Rightarrow> client_ring" where
  "client_ring_new capacity = \<lparr> cr_capacity = max capacity 1, cr_buf = [], cr_dropped = [] \<rparr>"

text \<open>The tuple \<open>(instrument, from, to, provider)\<close> of an evicted entry.\<close>

definition client_drop_coords ::
  "market_event \<Rightarrow> provider_id \<Rightarrow> (instrument \<times> timestamp \<times> timestamp \<times> provider_id) option" where
  "client_drop_coords ev provider =
     (case ev of
        Control c \<Rightarrow>
          (case c_kind c of
             Gap gp i sp \<Rightarrow> Some (i, from_source_ts sp, to_source_ts sp, gp)
           | _ \<Rightarrow> None)
      | _ \<Rightarrow>
          (case data_instrument ev of
             None \<Rightarrow> None
           | Some i \<Rightarrow>
               (case data_source_ts ev of
                  None \<Rightarrow> None
                | Some ts \<Rightarrow> Some (i, ts, saturating_add_i64 ts 1, provider))))"

definition client_note_drop :: "market_event \<Rightarrow> provider_id \<Rightarrow> client_ring \<Rightarrow> client_ring" where
  "client_note_drop ev provider r =
     (case client_drop_coords ev provider of
        None \<Rightarrow> r
      | Some (i, f, t, gp) \<Rightarrow>
          let s = (case seq_of ev of None \<Rightarrow> SYNTHETIC | Some s \<Rightarrow> s) in
          r\<lparr> cr_dropped := AList.update i
               (case map_of (cr_dropped r) i of
                  Some d \<Rightarrow> d\<lparr> ds_span := absorb_span (ds_span d) f t \<rparr>
                | None \<Rightarrow> \<lparr> ds_span = gap_span_of f t, ds_first_seq = s, ds_provider = gp \<rparr>)
               (cr_dropped r) \<rparr>)"

text \<open>\<^verbatim>\<open>push\<close> with its result \<^verbatim>\<open>true\<close> exactly when it evicted.\<close>

definition client_ring_push :: "market_event \<Rightarrow> provider_id \<Rightarrow> client_ring \<Rightarrow> bool \<times> client_ring" where
  "client_ring_push ev provider r =
     (let (evicted, r1) =
        (if length (cr_buf r) = cr_capacity r
         then (case cr_buf r of
                 [] \<Rightarrow> (False, r)
               | (x, xp) # rest \<Rightarrow> (True, client_note_drop x xp (r\<lparr> cr_buf := rest \<rparr>)))
         else (False, r))
      in (evicted, r1\<lparr> cr_buf := cr_buf r1 @ [(ev, provider)] \<rparr>))"

definition client_ring_len :: "client_ring \<Rightarrow> nat" where
  "client_ring_len r = length (cr_buf r)"

text \<open>
  \<^verbatim>\<open>into_parts\<close>; \<open>order\<close> is the iteration order of the drained \<^verbatim>\<open>HashMap\<close>. The sort is stable.
\<close>

definition client_ring_into_parts ::
  "((instrument \<times> dropped_span) list \<Rightarrow> (instrument \<times> dropped_span) list) \<Rightarrow> client_ring \<Rightarrow>
   (seq \<times> instrument \<times> gap_span \<times> provider_id) list \<times> (market_event \<times> provider_id) list" where
  "client_ring_into_parts order r =
     (sort_key fst (map (\<lambda>(i, d). (ds_first_seq d, i, ds_span d, ds_provider d)) (order (cr_dropped r))),
      cr_buf r)"

definition client_ring_ok :: "client_ring \<Rightarrow> bool" where
  "client_ring_ok r \<longleftrightarrow> 0 < cr_capacity r \<and> length (cr_buf r) \<le> cr_capacity r
     \<and> distinct (map fst (cr_dropped r))"

definition client_lost :: "client_ring \<Rightarrow> instrument \<Rightarrow> int set" where
  "client_lost r i = span_opt_set (map_option ds_span (map_of (cr_dropped r) i))"

definition client_coord :: "market_event \<times> provider_id \<Rightarrow> (instrument \<times> int set) option" where
  "client_coord = (\<lambda>(ev, p). map_option (\<lambda>(i, f, t, _). (i, {f ..< t})) (client_drop_coords ev p))"

lemma client_note_drop_fields [simp]:
  "cr_capacity (client_note_drop ev p r) = cr_capacity r"
  "cr_buf (client_note_drop ev p r) = cr_buf r"
  by (auto simp: client_note_drop_def Let_def split: option.splits)

lemma client_note_drop_distinct:
  "distinct (map fst (cr_dropped r)) \<Longrightarrow> distinct (map fst (cr_dropped (client_note_drop ev p r)))"
  by (auto simp: client_note_drop_def Let_def distinct_update split: option.splits)

lemma client_note_drop_mono:
  "client_lost r k \<subseteq> client_lost (client_note_drop ev p r) k"
  by (auto simp: client_note_drop_def client_lost_def span_opt_set_def absorb_span_def Let_def
      update_conv' split: option.splits)

lemma client_note_drop_lost:
  "client_drop_coords ev p = Some (i, f, t, gp) \<Longrightarrow>
     {f ..< t} \<subseteq> client_lost (client_note_drop ev p r) i"
  by (auto simp: client_note_drop_def client_lost_def span_opt_set_def absorb_span_def Let_def
      update_conv' split: option.splits)

lemma client_ring_push_cases:
  assumes "client_ring_ok r"
  obtains (room) "length (cr_buf r) \<noteq> cr_capacity r"
      "client_ring_push ev p r = (False, r\<lparr> cr_buf := cr_buf r @ [(ev, p)] \<rparr>)"
  | (full) x xp xs where "length (cr_buf r) = cr_capacity r" "cr_buf r = (x, xp) # xs"
      "client_ring_push ev p r =
         (True, (client_note_drop x xp (r\<lparr> cr_buf := xs \<rparr>))\<lparr> cr_buf := xs @ [(ev, p)] \<rparr>)"
proof (cases "length (cr_buf r) = cr_capacity r")
  case True
  moreover obtain x xp xs where "cr_buf r = (x, xp) # xs"
    using assms True by (cases "cr_buf r") (auto simp: client_ring_ok_def)
  ultimately show ?thesis using full by (simp add: client_ring_push_def)
qed (use room in \<open>simp add: client_ring_push_def\<close>)

definition client_push :: "market_event \<times> provider_id \<Rightarrow> client_ring \<Rightarrow> client_ring" where
  "client_push e r = snd (client_ring_push (fst e) (snd e) r)"

lemma client_lost_buf [simp]: "client_lost (r\<lparr> cr_buf := b \<rparr>) = client_lost r"
  by (simp add: client_lost_def fun_eq_iff)

interpretation cr: lossy_ring cr_capacity cr_buf client_push client_lost client_coord client_ring_ok
proof
  fix r and e :: "market_event \<times> provider_id" and k S
  show "client_ring_ok r \<Longrightarrow> 0 < cr_capacity r \<and> length (cr_buf r) \<le> cr_capacity r"
    by (simp add: client_ring_ok_def)
  assume ok: "client_ring_ok r"
  note cases = client_ring_push_cases [OF ok, of "fst e" "snd e"]
  show "client_ring_ok (client_push e r)"
    using ok client_note_drop_distinct
    by (cases rule: cases) (auto simp: client_ring_ok_def client_push_def)
  show "cr_capacity (client_push e r) = cr_capacity r"
    by (cases rule: cases) (auto simp: client_push_def)
  show "cr_buf (client_push e r) =
      (if length (cr_buf r) = cr_capacity r then tl (cr_buf r) else cr_buf r) @ [e]"
    by (cases rule: cases) (auto simp: client_push_def)
  show "client_lost r k \<subseteq> client_lost (client_push e r) k"
    using client_note_drop_mono [of "r\<lparr> cr_buf := tl (cr_buf r) \<rparr>" k]
    by (cases rule: cases) (force simp: client_push_def)+
  assume full: "length (cr_buf r) = cr_capacity r" and co: "client_coord (hd (cr_buf r)) = Some (k, S)"
  show "S \<subseteq> client_lost (client_push e r) k"
    using full co client_note_drop_lost
    by (cases rule: cases) (fastforce simp: client_push_def client_coord_def)+
qed

section \<open>Correctness of the rings\<close>

text \<open>After any sequence of pushes into a fresh \<open>EventRing\<close> the buffer is the newest
  events that fit, in order, and the instants of every evicted event lie inside the one
  recorded dropped span.\<close>

lemma event_ring_accounts:
  "let r = fold event_ring_push evs (event_ring_new cap); n = length evs - max cap 1 in
   er_buf r = drop n evs \<and>
   list_all (\<lambda>ev. case drop_coords ev of None \<Rightarrow> True
     | Some (f, t) \<Rightarrow> {f ..< t} \<subseteq> span_opt_set (er_dropped r)) (take n evs)"
proof -
  have ok: "event_ring_ok (event_ring_new cap)" by (simp add: event_ring_ok_def event_ring_new_def)
  have new: "er_buf (event_ring_new cap) = []" "er_capacity (event_ring_new cap) = max cap 1"
    by (simp_all add: event_ring_new_def)
  have "{f ..< t} \<subseteq> span_opt_set (er_dropped (fold event_ring_push evs (event_ring_new cap)))"
    if "ev \<in> set (take (length evs - max cap 1) evs)" "drop_coords ev = Some (f, t)" for ev f t
    using er.pushes_accounted [OF ok, of ev evs "()" "{f ..< t}"] that by (simp add: new ring_coord_def)
  then show ?thesis
    using er.pushes_suffix [OF ok, of evs] by (auto simp: new list_all_iff split: option.splits)
qed

text \<open>The same for \<open>ClientRing\<close>, per instrument: the buffer is the newest suffix of what
  was pushed, and what an evicted event stood for lies inside the dropped span of its own
  instrument.\<close>

lemma client_ring_accounts:
  "let r = fold (\<lambda>(ev, p) r. snd (client_ring_push ev p r)) evs (client_ring_new cap);
       n = length evs - max cap 1 in
   cr_buf r = drop n evs \<and>
   list_all (\<lambda>(ev, p). case client_drop_coords ev p of None \<Rightarrow> True
     | Some (i, f, t, _) \<Rightarrow> {f ..< t} \<subseteq> client_lost r i) (take n evs)"
proof -
  have ok: "client_ring_ok (client_ring_new cap)" by (simp add: client_ring_ok_def client_ring_new_def)
  have new: "cr_buf (client_ring_new cap) = []" "cr_capacity (client_ring_new cap) = max cap 1"
    by (simp_all add: client_ring_new_def)
  have push: "(\<lambda>(ev, p) r. snd (client_ring_push ev p r)) = client_push"
    by (auto simp: client_push_def fun_eq_iff)
  have "{f ..< t} \<subseteq> client_lost (fold client_push evs (client_ring_new cap)) i"
    if "(ev, p) \<in> set (take (length evs - max cap 1) evs)" "client_drop_coords ev p = Some (i, f, t, q)"
    for ev p i f t q
    using cr.pushes_accounted [OF ok, of "(ev, p)" evs i "{f ..< t}"] that by (simp add: new client_coord_def)
  then show ?thesis
    using cr.pushes_suffix [OF ok, of evs] unfolding push
    by (simp add: new list_all_iff split: option.split) blast
qed

end
