(* ===== verification/FanOut.thy ===== *)
theory FanOut
  imports Event_Rings
begin

text \<open>
  The authoritative controller's fan-out (\<^verbatim>\<open>FanOut\<close>, \<^verbatim>\<open>Referrer\<close>, \<^verbatim>\<open>PendingGap\<close> of
  \<^verbatim>\<open>client.rs\<close>): one bounded channel per referrer, \<^verbatim>\<open>try_send\<close>, and a pending gap that
  accumulates what a full channel refused. \<open>offer\<close> is one iteration of the loop of
  \<^verbatim>\<open>FanOut::fanout\<close>; the step relation \<open>rstep\<close> interleaves offers with the consumer's
  receives, and its reachable states satisfy the no-silent-loss and ordering invariants.
\<close>

section \<open>Bounded channels\<close>

text \<open>\<^verbatim>\<open>tokio::sync::mpsc\<close>: a FIFO with a capacity that either end may close.\<close>

record 'a chan =
  ch_queue :: "'a list"
  ch_capacity :: nat
  ch_closed :: bool

definition chan_new :: "nat \<Rightarrow> 'a chan" where
  "chan_new n = \<lparr> ch_queue = [], ch_capacity = n, ch_closed = False \<rparr>"

datatype send_result = SendOk | SendFull | SendClosed

definition try_send :: "'a \<Rightarrow> 'a chan \<Rightarrow> send_result \<times> 'a chan" where
  "try_send x ch =
     (if ch_closed ch then (SendClosed, ch)
      else if ch_capacity ch \<le> length (ch_queue ch) then (SendFull, ch)
      else (SendOk, ch\<lparr> ch_queue := ch_queue ch @ [x] \<rparr>))"

section \<open>Referrers and pending gaps\<close>

record pending_gap =
  pg_instrument :: instrument
  pg_provider :: provider_id
  pg_first_seq :: seq
  pg_span :: gap_span

record referrer =
  rf_tx :: "market_event chan"
  rf_pending :: "pending_gap option"

definition pending_absorb :: "timestamp \<Rightarrow> timestamp \<Rightarrow> pending_gap \<Rightarrow> pending_gap" where
  "pending_absorb f t p = p\<lparr> pg_span := absorb_span (pg_span p) f t \<rparr>"

definition pending_to_event :: "pending_gap \<Rightarrow> market_event" where
  "pending_to_event p =
     Control \<lparr> c_source_ts = from_source_ts (pg_span p), c_rx_ts = from_source_ts (pg_span p),
               c_seq = pg_first_seq p,
               c_kind = Gap (pg_provider p) (pg_instrument p) (pg_span p) \<rparr>"

definition gap_coords ::
  "market_event \<Rightarrow> (instrument \<times> timestamp \<times> timestamp \<times> provider_id \<times> seq) option" where
  "gap_coords ev =
     (case ev of
        Control c \<Rightarrow>
          (case c_kind c of
             Gap p i sp \<Rightarrow> Some (i, from_source_ts sp, to_source_ts sp, p, c_seq c)
           | _ \<Rightarrow> None)
      | _ \<Rightarrow>
          (case data_instrument ev of
             None \<Rightarrow> None
           | Some i \<Rightarrow>
               (case data_source_ts ev of
                  None \<Rightarrow> None
                | Some ts \<Rightarrow>
                    Some (i, ts, saturating_add_i64 ts 1, i_provider i,
                          case seq_of ev of None \<Rightarrow> SYNTHETIC | Some s \<Rightarrow> s))))"

definition absorb_drop :: "market_event \<Rightarrow> pending_gap option \<Rightarrow> pending_gap option" where
  "absorb_drop ev pending =
     (case gap_coords ev of
        None \<Rightarrow> pending
      | Some (i, f, t, prov, s) \<Rightarrow>
          Some (case pending of
                  Some p \<Rightarrow> pending_absorb f t p
                | None \<Rightarrow> \<lparr> pg_instrument = i, pg_provider = prov, pg_first_seq = s,
                           pg_span = gap_span_of f t \<rparr>))"

section \<open>FanOut\<close>

type_synonym subscriber_id = u64

record fan_out =
  fo_subscribers :: "(subscriber_id \<times> referrer) list"
  fo_last_subscription_changed :: "market_event option"
  fo_had_subscriber :: bool

definition fanout_new :: fan_out where
  "fanout_new = \<lparr> fo_subscribers = [], fo_last_subscription_changed = None, fo_had_subscriber = False \<rparr>"

definition fanout_add :: "subscriber_id \<Rightarrow> market_event chan \<Rightarrow> fan_out \<Rightarrow> fan_out" where
  "fanout_add sid sender f =
     (let sender' = (case fo_last_subscription_changed f of
                       Some ev \<Rightarrow> snd (try_send ev sender)
                     | None \<Rightarrow> sender)
      in f\<lparr> fo_had_subscriber := True,
            fo_subscribers := AList.update sid \<lparr> rf_tx = sender', rf_pending = None \<rparr> (fo_subscribers f) \<rparr>)"

definition fanout_remove :: "subscriber_id \<Rightarrow> fan_out \<Rightarrow> fan_out" where
  "fanout_remove sid f = f\<lparr> fo_subscribers := AList.delete sid (fo_subscribers f) \<rparr>"

definition should_teardown :: "fan_out \<Rightarrow> bool" where
  "should_teardown f \<longleftrightarrow> fo_had_subscriber f \<and> fo_subscribers f = []"

definition fanout_subscriber_count :: "fan_out \<Rightarrow> nat" where
  "fanout_subscriber_count f = length (fo_subscribers f)"

text \<open>The second half of the loop body: send the event itself. \<open>None\<close> is a dead referrer.\<close>

definition send_event :: "market_event \<Rightarrow> referrer \<Rightarrow> referrer option" where
  "send_event ev r =
     (case try_send ev (rf_tx r) of
        (SendOk, ch) \<Rightarrow> Some (r\<lparr> rf_tx := ch \<rparr>)
      | (SendFull, _) \<Rightarrow> Some (r\<lparr> rf_pending := absorb_drop ev (rf_pending r) \<rparr>)
      | (SendClosed, _) \<Rightarrow> None)"

definition offer :: "market_event \<Rightarrow> referrer \<Rightarrow> referrer option" where
  "offer ev r =
     (case rf_pending r of
        None \<Rightarrow> send_event ev r
      | Some p \<Rightarrow>
          (case try_send (pending_to_event p) (rf_tx r) of
             (SendOk, ch) \<Rightarrow> send_event ev (r\<lparr> rf_tx := ch, rf_pending := None \<rparr>)
           | (SendFull, _) \<Rightarrow> Some (r\<lparr> rf_pending := absorb_drop ev (rf_pending r) \<rparr>)
           | (SendClosed, _) \<Rightarrow> None))"

definition is_active_subscription :: "market_event \<Rightarrow> bool" where
  "is_active_subscription ev =
     (case ev of
        Control c \<Rightarrow> (case c_kind c of SubscriptionChanged _ _ _ active \<Rightarrow> active | _ \<Rightarrow> False)
      | _ \<Rightarrow> False)"

definition fanout :: "market_event \<Rightarrow> fan_out \<Rightarrow> fan_out" where
  "fanout ev f =
     f\<lparr> fo_last_subscription_changed :=
          (if is_active_subscription ev then Some ev else fo_last_subscription_changed f),
        fo_subscribers :=
          List.map_filter (\<lambda>(sid, r). map_option (Pair sid) (offer ev r)) (fo_subscribers f) \<rparr>"

section \<open>Elementary facts\<close>

lemma seq_of_pending_to_event [simp]: "ev_seq (pending_to_event p) = pg_first_seq p"
  by (simp add: pending_to_event_def ev_seq_def)

lemma gap_coords_pending [simp]:
  "gap_coords (pending_to_event p) =
     Some (pg_instrument p, from_source_ts (pg_span p), to_source_ts (pg_span p), pg_provider p, pg_first_seq p)"
  by (simp add: pending_to_event_def gap_coords_def)

lemma gap_coords_seq: "gap_coords ev = Some (i, f, t, p, s) \<Longrightarrow> s = ev_seq ev"
  by (cases ev) (auto simp: gap_coords_def ev_seq_def split: option.splits control_kind.splits)

lemma gap_coords_data: "is_data ev \<Longrightarrow> gap_coords ev \<noteq> None"
  by (cases ev) (auto simp: gap_coords_def data_source_ts_def)

lemma fanout_subscribers:
  "map_of (fo_subscribers (fanout ev f)) sid = Option.bind (map_of (fo_subscribers f) sid) (offer ev)"
  if "distinct (map fst (fo_subscribers f))"
proof -
  have "map_of (List.map_filter (\<lambda>(sid, r). map_option (Pair sid) (offer ev r)) xs) sid
      = Option.bind (map_of xs sid) (offer ev)" if "distinct (map fst xs)" for xs
    using that
  proof (induction xs)
    case (Cons x xs)
    have "map_of (List.map_filter (\<lambda>(sid, r). map_option (Pair sid) (offer ev r)) xs) sid = None"
      if "sid \<notin> fst ` set xs"
      using that by (force simp: map_of_eq_None_iff List.map_filter_def split: option.splits if_splits)
    then show ?case using Cons by (cases x) (auto simp: List.map_filter_simps split: option.splits)
  qed (simp add: List.map_filter_simps)
  then show ?thesis using that by (simp add: fanout_def)
qed

section \<open>What a referrer has seen\<close>

text \<open>
  \<open>covers out ev\<close>: the event itself is in the output, or its span lies inside a gap control
  of the output for the same instrument.
\<close>

definition in_gap :: "market_event \<Rightarrow> market_event \<Rightarrow> bool" where
  "in_gap g ev \<longleftrightarrow>
     (case (g, gap_coords ev) of
        (Control c, Some (i, f, t, _, _)) \<Rightarrow>
          (case c_kind c of
             Gap _ i' sp \<Rightarrow> i' = i \<and> from_source_ts sp \<le> f \<and> t \<le> to_source_ts sp
           | _ \<Rightarrow> False)
      | _ \<Rightarrow> False)"

definition covers :: "market_event list \<Rightarrow> market_event \<Rightarrow> bool" where
  "covers out ev \<longleftrightarrow> ev \<in> set out \<or> (\<exists>g \<in> set out. in_gap g ev)"

text \<open>
  Everything a referrer will have seen once it drains: what it received, what is queued,
  and the gap it is owed.
\<close>

definition owed :: "referrer \<Rightarrow> market_event list" where
  "owed r = (case rf_pending r of None \<Rightarrow> [] | Some p \<Rightarrow> [pending_to_event p])"

definition outlook :: "market_event list \<Rightarrow> referrer \<Rightarrow> market_event list" where
  "outlook received r = received @ ch_queue (rf_tx r) @ owed r"

text \<open>
  One referrer together with its consumer: offers from the controller and receives by the
  consumer, in any order. The state is (offered so far, received so far, referrer).
\<close>

inductive rstep ::
  "market_event list \<times> market_event list \<times> referrer \<Rightarrow>
   market_event list \<times> market_event list \<times> referrer \<Rightarrow> bool" where
  Offer: "offer ev r = Some r' \<Longrightarrow> rstep (offered, received, r) (offered @ [ev], received, r')"
| Recv: "ch_queue (rf_tx r) = x # xs \<Longrightarrow>
    rstep (offered, received, r)
      (offered, received @ [x], r\<lparr> rf_tx := (rf_tx r)\<lparr> ch_queue := xs \<rparr> \<rparr>)"

inductive_cases rstepE: "rstep s s'"

text \<open>The pending gap belongs to the one instrument this fan-out serves.\<close>

definition one_instrument :: "instrument \<Rightarrow> market_event \<Rightarrow> bool" where
  "one_instrument i ev \<longleftrightarrow> (case gap_coords ev of None \<Rightarrow> True | Some (j, _) \<Rightarrow> j = i)"

definition pending_for :: "instrument \<Rightarrow> referrer \<Rightarrow> bool" where
  "pending_for i r \<longleftrightarrow> (case rf_pending r of None \<Rightarrow> True | Some p \<Rightarrow> pg_instrument p = i)"

definition no_loss :: "instrument \<Rightarrow> market_event list \<times> market_event list \<times> referrer \<Rightarrow> bool" where
  "no_loss i = (\<lambda>(offered, received, r). pending_for i r \<and>
     (\<forall>ev \<in> set offered. gap_coords ev \<noteq> None \<longrightarrow> covers (outlook received r) ev))"

lemma in_gap_pending:
  "in_gap (pending_to_event p) ev \<longleftrightarrow>
     (\<exists>f t pr s. gap_coords ev = Some (pg_instrument p, f, t, pr, s)
        \<and> from_source_ts (pg_span p) \<le> f \<and> t \<le> to_source_ts (pg_span p))"
  by (auto simp: in_gap_def pending_to_event_def split: option.splits)

lemma absorb_drop_pending_for:
  "one_instrument i ev \<Longrightarrow> pending_for i r \<Longrightarrow> pending_for i (r\<lparr> rf_pending := absorb_drop ev (rf_pending r) \<rparr>)"
  by (auto simp: pending_for_def one_instrument_def absorb_drop_def pending_absorb_def split: option.splits)

text \<open>Absorbing an event keeps every coverage of the owed gap and adds the event's own.\<close>

lemma covers_append: "covers (xs @ ys) ev \<longleftrightarrow> covers xs ev \<or> covers ys ev"
  by (auto simp: covers_def)

lemma covers_owed:
  "gap_coords x \<noteq> None \<Longrightarrow>
   covers (owed r) x \<longleftrightarrow> (\<exists>p. rf_pending r = Some p \<and> in_gap (pending_to_event p) x)"
  by (cases "rf_pending r") (auto simp: owed_def covers_def in_gap_pending)

lemma owed_absorb:
  assumes "one_instrument i ev" "pending_for i r" "gap_coords x \<noteq> None"
    and "covers (owed r) x \<or> x = ev"
  shows "covers (owed (r\<lparr> rf_pending := absorb_drop ev (rf_pending r) \<rparr>)) x"
proof (cases "x = ev")
  case True
  then show ?thesis using assms(1-3)
    by (auto simp: covers_owed absorb_drop_def in_gap_pending pending_absorb_def absorb_span_def
        pending_for_def one_instrument_def split: option.splits)
next
  case False
  then obtain p where "rf_pending r = Some p" "in_gap (pending_to_event p) x"
    using assms(3,4) by (auto simp: covers_owed)
  then show ?thesis
    unfolding covers_owed [OF assms(3)]
    by (auto simp: absorb_drop_def in_gap_pending pending_absorb_def absorb_span_def
        split: option.splits)
qed

lemma covers_absorb:
  assumes "one_instrument i ev" "pending_for i r" "gap_coords x \<noteq> None"
    and "covers (outlook received r) x \<or> x = ev"
  shows "covers (outlook received (r\<lparr> rf_pending := absorb_drop ev (rf_pending r) \<rparr>)) x"
  using owed_absorb [OF assms(1-3)] assms(4)
  by (simp add: outlook_def covers_append) blast

lemma send_event_cases:
  assumes "send_event ev r = Some r'"
  obtains (sent) "r' = r\<lparr> rf_tx := (rf_tx r)\<lparr> ch_queue := ch_queue (rf_tx r) @ [ev] \<rparr> \<rparr>"
  | (full) "r' = r\<lparr> rf_pending := absorb_drop ev (rf_pending r) \<rparr>"
  using assms by (auto simp: send_event_def try_send_def split: if_splits)

text \<open>The three ways an offer to a live referrer ends.\<close>

lemma offer_cases:
  assumes "offer ev r = Some r'"
  obtains (full) "r' = r\<lparr> rf_pending := absorb_drop ev (rf_pending r) \<rparr>"
  | (sent) "r' = r\<lparr> rf_tx := (rf_tx r)\<lparr> ch_queue := ch_queue (rf_tx r) @ owed r @ [ev] \<rparr>, rf_pending := None \<rparr>"
  | (flushed) r1 where
      "r1 = r\<lparr> rf_tx := (rf_tx r)\<lparr> ch_queue := ch_queue (rf_tx r) @ owed r \<rparr>, rf_pending := None \<rparr>"
      "r' = r1\<lparr> rf_pending := absorb_drop ev (rf_pending r1) \<rparr>"
proof (cases "rf_pending r")
  case None
  then have "send_event ev r = Some r'" using assms by (simp add: offer_def)
  then show ?thesis
    by (cases rule: send_event_cases) (use full sent None in \<open>auto simp: owed_def\<close>)
next
  case (Some p)
  show ?thesis
  proof (cases "ch_closed (rf_tx r) \<or> ch_capacity (rf_tx r) \<le> length (ch_queue (rf_tx r))")
    case True
    then show ?thesis using assms Some full by (auto simp: offer_def try_send_def split: if_splits)
  next
    case False
    define r1 where "r1 = r\<lparr> rf_tx := (rf_tx r)\<lparr> ch_queue := ch_queue (rf_tx r) @ owed r \<rparr>, rf_pending := None \<rparr>"
    have "send_event ev r1 = Some r'"
      using assms Some False by (simp add: offer_def try_send_def r1_def owed_def)
    then show ?thesis
      by (cases rule: send_event_cases) (use sent flushed r1_def in auto)
  qed
qed

lemma outlook_flush:
  "outlook rc (r\<lparr> rf_tx := (rf_tx r)\<lparr> ch_queue := ch_queue (rf_tx r) @ owed r \<rparr>, rf_pending := None \<rparr>)
     = outlook rc r"
  by (simp add: outlook_def owed_def)

lemma outlook_sent:
  "outlook rc (r\<lparr> rf_tx := (rf_tx r)\<lparr> ch_queue := ch_queue (rf_tx r) @ owed r @ [ev] \<rparr>, rf_pending := None \<rparr>)
     = outlook rc r @ [ev]"
  by (simp add: outlook_def owed_def)

lemma offer_no_loss:
  assumes "offer ev r = Some r'" "one_instrument i ev" "no_loss i (offered, received, r)"
  shows "no_loss i (offered @ [ev], received, r')"
  using assms(1)
proof (cases rule: offer_cases)
  case full
  then show ?thesis
    using assms(2,3) absorb_drop_pending_for covers_absorb [OF assms(2), of r _ received]
    by (auto simp: no_loss_def)
next
  case sent
  then show ?thesis using assms(2,3)
    by (auto simp: no_loss_def outlook_sent covers_append covers_def pending_for_def)
next
  case (flushed r1)
  have "pending_for i r1" by (simp add: flushed(1) pending_for_def)
  moreover have "outlook received r1 = outlook received r" by (simp only: flushed(1) outlook_flush)
  ultimately show ?thesis
    using assms(2,3) absorb_drop_pending_for covers_absorb [OF assms(2), of r1 _ received] flushed(2)
    by (auto simp: no_loss_def)
qed

lemma outlook_recv:
  "ch_queue (rf_tx r) = x # xs \<Longrightarrow>
   outlook (rc @ [x]) (r\<lparr> rf_tx := (rf_tx r)\<lparr> ch_queue := xs \<rparr> \<rparr>) = outlook rc r"
  by (simp add: outlook_def owed_def)

lemma rstep_no_loss:
  assumes "rstep s s'" "no_loss i s" "\<forall>ev \<in> set (fst s'). one_instrument i ev"
  shows "no_loss i s'"
  using assms
proof (cases rule: rstep.cases)
  case (Offer ev r r' offered received)
  then show ?thesis using offer_no_loss assms by auto
next
  case (Recv r x xs offered received)
  then show ?thesis using assms(2) by (simp add: no_loss_def outlook_recv pending_for_def)
qed

lemma rstep_offered_mono: "rstep s s' \<Longrightarrow> set (fst s) \<subseteq> set (fst s')"
  by (auto elim!: rstep.cases)

lemma rsteps_offered_mono: "rstep\<^sup>*\<^sup>* s s' \<Longrightarrow> set (fst s) \<subseteq> set (fst s')"
  by (induction rule: rtranclp_induct) (use rstep_offered_mono in blast)+

lemma rsteps_no_loss:
  assumes "rstep\<^sup>*\<^sup>* s s'" "no_loss i s" "\<forall>ev \<in> set (fst s'). one_instrument i ev"
  shows "no_loss i s'"
  using assms
proof (induction rule: rtranclp_induct)
  case (step y z)
  then show ?case using rstep_no_loss rstep_offered_mono by blast
qed simp

section \<open>Ordering\<close>

text \<open>Offered events carry increasing sequence numbers: what the source stamps.\<close>

definition increasing :: "market_event list \<Rightarrow> bool" where
  "increasing evs \<longleftrightarrow> sorted_wrt (<) (map ev_seq evs)"

definition seqs_below :: "seq list \<Rightarrow> market_event list \<Rightarrow> bool" where
  "seqs_below ss offered \<longleftrightarrow>
     sorted_wrt (<) ss \<and> (\<forall>s \<in> set ss. \<exists>y \<in> set offered. s \<le> ev_seq y)"

definition ordered_view :: "market_event list \<times> market_event list \<times> referrer \<Rightarrow> bool" where
  "ordered_view = (\<lambda>(offered, received, r). seqs_below (map ev_seq (outlook received r)) offered)"

lemma increasing_snoc:
  "increasing (xs @ [x]) \<longleftrightarrow> increasing xs \<and> (\<forall>y \<in> set xs. ev_seq y < ev_seq x)"
  by (auto simp: increasing_def sorted_wrt_append)

lemma seqs_below_snoc:
  assumes "seqs_below ss offered" "increasing (offered @ [ev])"
  shows "seqs_below ss (offered @ [ev])" "seqs_below (ss @ [ev_seq ev]) (offered @ [ev])"
proof -
  have "s < ev_seq ev" if "s \<in> set ss" for s
    using assms that unfolding seqs_below_def increasing_snoc by (meson order.strict_trans1)
  then show "seqs_below (ss @ [ev_seq ev]) (offered @ [ev])"
    using assms(1) by (auto simp: seqs_below_def sorted_wrt_append)
  show "seqs_below ss (offered @ [ev])" using assms(1) by (auto simp: seqs_below_def)
qed

lemma absorb_drop_seq:
  "absorb_drop ev pend = Some p \<Longrightarrow>
   (case pend of Some q \<Rightarrow> pg_first_seq p = pg_first_seq q | None \<Rightarrow> pg_first_seq p = ev_seq ev)"
  using gap_coords_seq
  by (auto simp: absorb_drop_def pending_absorb_def split: option.splits)

text \<open>Absorbing an event leaves the sequence numbers in view, or adds the event's own.\<close>

lemma absorb_view:
  "map ev_seq (outlook rc (r\<lparr> rf_pending := absorb_drop ev (rf_pending r) \<rparr>))
     \<in> {map ev_seq (outlook rc r), map ev_seq (outlook rc r) @ [ev_seq ev]}"
proof (cases "gap_coords ev")
  case None
  then show ?thesis by (simp add: absorb_drop_def)
next
  case (Some c)
  then obtain p where p: "absorb_drop ev (rf_pending r) = Some p"
    by (cases c) (simp add: absorb_drop_def)
  then show ?thesis
    using absorb_drop_seq [OF p] by (auto simp: outlook_def owed_def split: option.splits)
qed

lemma absorb_ordered:
  assumes "ordered_view (offered, received, r)" "increasing (offered @ [ev])"
  shows "ordered_view (offered @ [ev], received, r\<lparr> rf_pending := absorb_drop ev (rf_pending r) \<rparr>)"
  using assms seqs_below_snoc [OF _ assms(2)] absorb_view [of received ev r]
  unfolding ordered_view_def prod.case by (metis insert_iff singletonD)

lemma offer_ordered:
  assumes "offer ev r = Some r'" "ordered_view (offered, received, r)" "increasing (offered @ [ev])"
  shows "ordered_view (offered @ [ev], received, r')"
  using assms(1)
proof (cases rule: offer_cases)
  case full
  then show ?thesis using absorb_ordered assms by simp
next
  case sent
  then show ?thesis
    using assms(2) seqs_below_snoc(2) [OF _ assms(3)] by (simp add: ordered_view_def outlook_sent)
next
  case (flushed r1)
  have "outlook received r1 = outlook received r" by (simp only: flushed(1) outlook_flush)
  then have "ordered_view (offered, received, r1)"
    using assms(2) by (simp add: ordered_view_def)
  then show ?thesis using absorb_ordered assms(3) flushed(2) by simp
qed

lemma rstep_ordered:
  assumes "rstep s s'" "ordered_view s" "increasing (fst s')"
  shows "ordered_view s'"
  using assms
proof (cases rule: rstep.cases)
  case (Offer ev r r' offered received)
  then show ?thesis using offer_ordered assms by simp
next
  case (Recv r x xs offered received)
  then show ?thesis using assms(2) outlook_recv [OF Recv(3)] by (simp add: ordered_view_def)
qed

lemma rstep_increasing: "rstep s s' \<Longrightarrow> increasing (fst s') \<Longrightarrow> increasing (fst s)"
  by (auto elim!: rstep.cases simp: increasing_snoc)

lemma rsteps_ordered:
  assumes "rstep\<^sup>*\<^sup>* s s'" "ordered_view s" "increasing (fst s')"
  shows "ordered_view s'"
  using assms
proof (induction rule: rtranclp_induct)
  case (step y z)
  then show ?case using rstep_ordered rstep_increasing by blast
qed simp

section \<open>Teardown\<close>

definition fanout_ok :: "fan_out \<Rightarrow> bool" where
  "fanout_ok f \<longleftrightarrow> distinct (map fst (fo_subscribers f))
     \<and> (fo_subscribers f \<noteq> [] \<longrightarrow> fo_had_subscriber f)"

lemma map_filter_keys:
  "map fst (List.map_filter (\<lambda>(k, r). map_option (Pair k) (g r)) xs) =
   map fst (filter (\<lambda>(k, r). g r \<noteq> None) xs)"
  by (induction xs) (auto simp: List.map_filter_simps split: option.splits)

lemma fanout_new_ok: "fanout_ok fanout_new"
  by (simp add: fanout_ok_def fanout_new_def)

lemma fanout_add_ok: "fanout_ok f \<Longrightarrow> fanout_ok (fanout_add sid ch f)"
  by (simp add: fanout_ok_def fanout_add_def Let_def distinct_update)

lemma fanout_remove_ok: "fanout_ok f \<Longrightarrow> fanout_ok (fanout_remove sid f)"
  by (auto simp: fanout_ok_def fanout_remove_def distinct_delete)

lemma fanout_ok: "fanout_ok f \<Longrightarrow> fanout_ok (fanout ev f)"
  by (auto simp: fanout_ok_def fanout_def map_filter_keys distinct_map_filter List.map_filter_simps)

lemma teardown_iff:
  "fanout_ok f \<Longrightarrow> should_teardown f \<longleftrightarrow> fo_had_subscriber f \<and> fanout_subscriber_count f = 0"
  by (simp add: should_teardown_def fanout_subscriber_count_def)

section \<open>Correctness of the fan-out\<close>

definition fresh_referrer :: "nat \<Rightarrow> referrer" where
  "fresh_referrer n = \<lparr> rf_tx = chan_new n, rf_pending = None \<rparr>"

text \<open>C2: No silent loss. Whatever the interleaving of the controller's offers and the
  consumer's receives, every offered event that can leave a hole is received, queued, or
  inside the span of a gap control the consumer received, has queued or is owed.\<close>

theorem no_silent_loss:
  assumes "rstep\<^sup>*\<^sup>* ([], [], fresh_referrer n) (offered, received, r)"
    and "\<forall>ev \<in> set offered. one_instrument i ev"
  shows "\<forall>ev \<in> set offered. gap_coords ev \<noteq> None \<longrightarrow> covers (outlook received r) ev"
proof -
  have "no_loss i ([], [], fresh_referrer n)" by (simp add: no_loss_def fresh_referrer_def pending_for_def)
  then have "no_loss i (offered, received, r)" using rsteps_no_loss assms by fastforce
  then show ?thesis by (simp add: no_loss_def)
qed

text \<open>C18: Order. When the offered events carry increasing sequence numbers, so does what a
  consumer sees: the received events, the queued ones and the gap still owed, even though a
  gap control is delivered later than the events it stands for.\<close>

theorem delivery_ordered:
  assumes "rstep\<^sup>*\<^sup>* ([], [], fresh_referrer n) (offered, received, r)" "increasing offered"
  shows "sorted_wrt (<) (map ev_seq (outlook received r))"
proof -
  have "ordered_view ([], [], fresh_referrer n)"
    by (simp add: ordered_view_def seqs_below_def outlook_def owed_def fresh_referrer_def chan_new_def)
  then have "ordered_view (offered, received, r)" using rsteps_ordered assms by fastforce
  then show ?thesis by (simp add: ordered_view_def seqs_below_def)
qed

text \<open>Two offers to a channel of capacity one: the second event becomes an owed gap.\<close>

definition demo_referrer :: referrer where
  "demo_referrer = the (offer (demo_trade 7 1) (the (offer (demo_trade 5 0) (fresh_referrer 1))))"

lemma demo_run: "rstep\<^sup>*\<^sup>* ([], [], fresh_referrer 1) ([demo_trade 5 0, demo_trade 7 1], [], demo_referrer)"
proof -
  let ?r1 = "the (offer (demo_trade 5 0) (fresh_referrer 1))"
  have o1: "offer (demo_trade 5 0) (fresh_referrer 1) = Some ?r1"
    by (simp add: offer_def send_event_def fresh_referrer_def chan_new_def try_send_def)
  have o2: "offer (demo_trade 7 1) ?r1 = Some demo_referrer"
    by (simp add: demo_referrer_def offer_def send_event_def fresh_referrer_def chan_new_def try_send_def)
  have "rstep ([], [], fresh_referrer 1) ([] @ [demo_trade 5 0], [], ?r1)" by (rule rstep.Offer [OF o1])
  moreover have "rstep ([demo_trade 5 0], [], ?r1) ([demo_trade 5 0] @ [demo_trade 7 1], [], demo_referrer)"
    by (rule rstep.Offer [OF o2])
  ultimately show ?thesis by (simp add: converse_rtranclp_into_rtranclp)
qed

lemma demo_coords:
  "gap_coords (demo_trade ts s) = Some (demo_instrument, ts, saturating_add_i64 ts 1, ''alpaca'', s)"
  by (simp add: gap_coords_def demo_trade_def data_source_ts_def demo_instrument_def instrument_new_def)

theorem no_silent_loss_witness: "covers (outlook [] demo_referrer) (demo_trade 7 1)"
  using no_silent_loss [OF demo_run, of demo_instrument] by (simp add: demo_coords one_instrument_def)

theorem delivery_ordered_witness: "sorted_wrt (<) (map ev_seq (outlook [] demo_referrer))"
  using delivery_ordered [OF demo_run] by (simp add: increasing_def)

text \<open>Isolation. Fanning an event out gives each subscriber what an offer to it alone
  would, and drops exactly the subscribers whose receiver is gone; one slow or dead
  subscriber changes nothing for another.\<close>

lemma fanout_isolates:
  assumes "fanout_ok f"
  shows "map_of (fo_subscribers (fanout ev f)) sid = Option.bind (map_of (fo_subscribers f) sid) (offer ev)
    \<and> fanout_ok (fanout ev f)
    \<and> (offer ev r = None \<longleftrightarrow> ch_closed (rf_tx r))"
proof -
  have "offer ev r = None \<longleftrightarrow> ch_closed (rf_tx r)"
    by (auto simp: offer_def send_event_def try_send_def split: option.splits)
  then show ?thesis using assms fanout_subscribers fanout_ok by (auto simp: fanout_ok_def)
qed

lemma fanout_isolates_witness:
  "map_of (fo_subscribers (fanout (demo_trade 5 0) (fanout_add 1 (chan_new 1) fanout_new))) 1
     = offer (demo_trade 5 0) (fresh_referrer 1)"
  using fanout_isolates [OF fanout_add_ok [OF fanout_new_ok], of "demo_trade 5 0" 1 "chan_new 1" 1]
  by (simp add: fanout_add_def fanout_new_def fresh_referrer_def)

end
