(* ===== verification/Stats.thy ===== *)
theory Stats
  imports FanOut
begin

text \<open>
  The diagnostics plane: \<^verbatim>\<open>LiveStats\<close> and \<^verbatim>\<open>ClientStats\<close> of \<^verbatim>\<open>client.rs\<close>,
  \<^verbatim>\<open>ProviderAccounting\<close> of \<^verbatim>\<open>accounting.rs\<close>, the snapshot types of \<^verbatim>\<open>snapshot.rs\<close>
  and their reduction to a \<^verbatim>\<open>HealthView\<close> in \<^verbatim>\<open>health.rs\<close>. Atomic counters are words
  (\<^verbatim>\<open>fetch_add\<close> wraps); a \<^verbatim>\<open>has_x\<close>/\<^verbatim>\<open>x\<close> pair of atomics keeps both fields.
\<close>

section \<open>Connection phases\<close>

datatype stream_connection =
    Pending
  | Up timestamp
  | Down timestamp disconnect_cause

datatype connection_change = NoChange | Connected bool | Disconnected

section \<open>LiveStats\<close>

record live_stats =
  ls_has_seq :: bool
  ls_last_seq :: u64
  ls_has_ts :: bool
  ls_last_source_ts :: i64
  ls_last_rx_ts :: i64
  ls_gap_count :: u64
  ls_recent_gaps :: "gap_span list"
  ls_has_gap_rx :: bool
  ls_last_gap_rx_ts :: i64
  ls_backfilling :: bool
  ls_subscribers :: u64
  ls_connection :: stream_connection

definition RECENT_GAPS_CAP :: nat where "RECENT_GAPS_CAP = 8"

definition live_stats_new :: live_stats where
  "live_stats_new =
     \<lparr> ls_has_seq = False, ls_last_seq = 0, ls_has_ts = False, ls_last_source_ts = 0,
       ls_last_rx_ts = 0, ls_gap_count = 0, ls_recent_gaps = [], ls_has_gap_rx = False,
       ls_last_gap_rx_ts = 0, ls_backfilling = False, ls_subscribers = 0,
       ls_connection = Pending \<rparr>"

definition set_subscribers :: "nat \<Rightarrow> live_stats \<Rightarrow> live_stats" where
  "set_subscribers n st =
     st\<lparr> ls_subscribers := (if n < 2 ^ 64 then of_nat n else u64_max) \<rparr>"

fun data_rx_ts :: "market_event \<Rightarrow> timestamp option" where
  "data_rx_ts (Trade t) = Some (t_rx_ts t)"
| "data_rx_ts (Quote q) = Some (q_rx_ts q)"
| "data_rx_ts (Bar b) = Some (b_rx_ts b)"
| "data_rx_ts (Control c) = None"

definition record_seq :: "market_event \<Rightarrow> live_stats \<Rightarrow> live_stats" where
  "record_seq ev st =
     (case seq_of ev of
        Some s \<Rightarrow> st\<lparr> ls_last_seq := s, ls_has_seq := True \<rparr>
      | None \<Rightarrow> st)"

definition record_seed :: "market_event \<Rightarrow> live_stats \<Rightarrow> live_stats" where
  "record_seed = record_seq"

definition push_recent_gap :: "gap_span \<Rightarrow> gap_span list \<Rightarrow> gap_span list" where
  "push_recent_gap sp ring = (if length ring = RECENT_GAPS_CAP then tl ring else ring) @ [sp]"

definition record_event :: "market_event \<Rightarrow> live_stats \<Rightarrow> live_stats" where
  "record_event ev st0 =
     (let st = record_seq ev st0 in
      case ev of
        Control c \<Rightarrow>
          (case c_kind c of
             Gap _ _ sp \<Rightarrow>
               st\<lparr> ls_gap_count := ls_gap_count st + 1, ls_last_gap_rx_ts := c_rx_ts c,
                   ls_has_gap_rx := True, ls_recent_gaps := push_recent_gap sp (ls_recent_gaps st) \<rparr>
           | _ \<Rightarrow> st)
      | _ \<Rightarrow>
          (case (data_source_ts ev, data_rx_ts ev) of
             (Some source, Some rx) \<Rightarrow>
               st\<lparr> ls_last_source_ts := source, ls_last_rx_ts := rx, ls_has_ts := True \<rparr>
           | _ \<Rightarrow> st))"

definition seq_position :: "live_stats \<Rightarrow> seq option" where
  "seq_position st = (if ls_has_seq st then Some (ls_last_seq st) else None)"

definition stats_last_source_ts :: "live_stats \<Rightarrow> timestamp option" where
  "stats_last_source_ts st = (if ls_has_ts st then Some (ls_last_source_ts st) else None)"

definition stats_last_rx_ts :: "live_stats \<Rightarrow> timestamp option" where
  "stats_last_rx_ts st = (if ls_has_ts st then Some (ls_last_rx_ts st) else None)"

definition stats_last_gap_rx_ts :: "live_stats \<Rightarrow> timestamp option" where
  "stats_last_gap_rx_ts st = (if ls_has_gap_rx st then Some (ls_last_gap_rx_ts st) else None)"

definition set_backfilling :: "bool \<Rightarrow> live_stats \<Rightarrow> live_stats" where
  "set_backfilling active st = st\<lparr> ls_backfilling := active \<rparr>"

definition record_connection :: "control \<Rightarrow> live_stats \<Rightarrow> connection_change \<times> live_stats" where
  "record_connection c st =
     (case c_kind c of
        ProviderConnected _ \<Rightarrow>
          (case ls_connection st of
             Up _ \<Rightarrow> (NoChange, st)
           | Down _ _ \<Rightarrow> (Connected True, st\<lparr> ls_connection := Up (c_rx_ts c) \<rparr>)
           | Pending \<Rightarrow> (Connected False, st\<lparr> ls_connection := Up (c_rx_ts c) \<rparr>))
      | ProviderDisconnected _ _ cause \<Rightarrow>
          (case ls_connection st of
             Down since _ \<Rightarrow> (NoChange, st\<lparr> ls_connection := Down since cause \<rparr>)
           | _ \<Rightarrow> (Disconnected, st\<lparr> ls_connection := Down (c_rx_ts c) cause \<rparr>))
      | _ \<Rightarrow> (NoChange, st))"

section \<open>ClientStats\<close>

record client_stats =
  cs_id :: u64
  cs_capacity :: nat
  cs_occupancy :: nat
  cs_dropped_events :: u64
  cs_subscriptions :: "(instrument \<times> event_kind) list"

definition client_stats_new :: "u64 \<Rightarrow> nat \<Rightarrow> client_stats" where
  "client_stats_new i capacity =
     \<lparr> cs_id = i, cs_capacity = capacity, cs_occupancy = 0, cs_dropped_events = 0,
       cs_subscriptions = [] \<rparr>"

definition record_drops :: "u64 \<Rightarrow> client_stats \<Rightarrow> client_stats" where
  "record_drops n st =
     (if n > 0 then st\<lparr> cs_dropped_events := cs_dropped_events st + n \<rparr> else st)"

definition set_occupancy :: "nat \<Rightarrow> client_stats \<Rightarrow> client_stats" where
  "set_occupancy n st = st\<lparr> cs_occupancy := n \<rparr>"

definition set_subscriptions :: "(instrument \<times> event_kind) list \<Rightarrow> client_stats \<Rightarrow> client_stats" where
  "set_subscriptions subs st = st\<lparr> cs_subscriptions := subs \<rparr>"

section \<open>ProviderAccounting\<close>

record accounting =
  ac_history_fetches :: u64
  ac_history_fetch_coalesced :: u64
  ac_live_starts :: u64
  ac_subscribes :: u64
  ac_unsubscribes :: u64
  ac_reconnects :: u64
  ac_messages :: u64
  ac_gaps_emitted :: u64
  ac_ever_connected :: bool
  ac_last_error :: "string option"
  ac_auth_failed :: bool

definition accounting_default :: accounting where
  "accounting_default =
     \<lparr> ac_history_fetches = 0, ac_history_fetch_coalesced = 0, ac_live_starts = 0,
       ac_subscribes = 0, ac_unsubscribes = 0, ac_reconnects = 0, ac_messages = 0,
       ac_gaps_emitted = 0, ac_ever_connected = False, ac_last_error = None,
       ac_auth_failed = False \<rparr>"

definition record_history_fetch :: "accounting \<Rightarrow> accounting" where
  "record_history_fetch a = a\<lparr> ac_history_fetches := ac_history_fetches a + 1 \<rparr>"

definition record_history_fetch_coalesced :: "accounting \<Rightarrow> accounting" where
  "record_history_fetch_coalesced a =
     a\<lparr> ac_history_fetch_coalesced := ac_history_fetch_coalesced a + 1 \<rparr>"

definition record_live_start :: "accounting \<Rightarrow> accounting" where
  "record_live_start a = a\<lparr> ac_live_starts := ac_live_starts a + 1 \<rparr>"

definition record_subscribe :: "accounting \<Rightarrow> accounting" where
  "record_subscribe a = a\<lparr> ac_subscribes := ac_subscribes a + 1 \<rparr>"

definition record_unsubscribe :: "accounting \<Rightarrow> accounting" where
  "record_unsubscribe a = a\<lparr> ac_unsubscribes := ac_unsubscribes a + 1 \<rparr>"

definition record_forwarded :: "market_event \<Rightarrow> bool \<Rightarrow> accounting \<Rightarrow> accounting" where
  "record_forwarded ev live a =
     (case ev of
        Control c \<Rightarrow>
          (case c_kind c of
             Gap _ _ _ \<Rightarrow> a\<lparr> ac_gaps_emitted := ac_gaps_emitted a + 1 \<rparr>
           | _ \<Rightarrow> a)
      | _ \<Rightarrow> (if live then a\<lparr> ac_messages := ac_messages a + 1 \<rparr> else a))"

definition record_error :: "string \<Rightarrow> accounting \<Rightarrow> accounting" where
  "record_error message a = a\<lparr> ac_last_error := Some message \<rparr>"

definition record_provider_control :: "control_kind \<Rightarrow> connection_change \<Rightarrow> accounting \<Rightarrow> accounting" where
  "record_provider_control kind change a0 =
     (let a = (case change of
                 Connected reconnect \<Rightarrow>
                   a0\<lparr> ac_ever_connected := True, ac_auth_failed := False,
                       ac_reconnects := (if reconnect then ac_reconnects a0 + 1 else ac_reconnects a0) \<rparr>
               | _ \<Rightarrow> a0)
      in case kind of
           ProviderDisconnected _ reason cause \<Rightarrow>
             (if cause = CauseUnauthenticated
              then record_error reason (a\<lparr> ac_auth_failed := True \<rparr>) else a)
         | ProviderError _ message \<Rightarrow> record_error message a
         | _ \<Rightarrow> a)"

definition record_open_failure :: "error \<Rightarrow> accounting \<Rightarrow> accounting" where
  "record_open_failure e a =
     record_error (error_display e)
       (case e of Unauthenticated _ _ \<Rightarrow> a\<lparr> ac_auth_failed := True \<rparr> | _ \<Rightarrow> a)"

datatype connection_state = CsUnknown | CsConnected | CsDisconnected | CsUnauthenticated

text \<open>The flags \<open>(any, up, down, unauthenticated)\<close> the loop over the phases accumulates.\<close>

definition phase_flags :: "stream_connection list \<Rightarrow> bool \<times> bool \<times> bool \<times> bool" where
  "phase_flags streams = foldl (\<lambda>(any, up, down, un) phase.
     (case phase of
        Up _ \<Rightarrow> (True, True, down, un)
      | Down _ cause \<Rightarrow> (True, up, True, un \<or> cause = CauseUnauthenticated)
      | Pending \<Rightarrow> (True, up, down, un))) (False, False, False, False) streams"

definition connection_state :: "accounting \<Rightarrow> stream_connection list \<Rightarrow> connection_state" where
  "connection_state a streams =
     (let (any, up, down, un) = phase_flags streams in
      if up then CsConnected
      else if un \<or> (\<not> any \<and> ac_auth_failed a) then CsUnauthenticated
      else if down \<or> (\<not> any \<and> ac_ever_connected a) then CsDisconnected
      else CsUnknown)"

section \<open>Snapshots and health\<close>

record provider_snapshot =
  ps_provider :: provider_id
  ps_connection_state :: connection_state
  ps_history_fetches :: u64
  ps_history_fetch_coalesced :: u64
  ps_live_starts :: u64
  ps_subscribes :: u64
  ps_unsubscribes :: u64
  ps_reconnects :: u64
  ps_rate_limit_hits :: "u64 option"
  ps_messages :: u64
  ps_bytes :: "u64 option"
  ps_gaps_emitted :: u64
  ps_last_error :: "string option"
  ps_enabled :: bool
  ps_active_subscriptions :: u32

record auth_snapshot =
  as_instrument :: instrument
  as_kind :: event_kind
  as_subscriber_refcount :: u32
  as_seq_position :: "seq option"
  as_last_source_ts :: "timestamp option"
  as_last_rx_ts :: "timestamp option"
  as_latency_ns :: "i64 option"
  as_gap_count :: u64
  as_recent_gaps :: "gap_span list"
  as_last_gap_rx_ts :: "timestamp option"
  as_backfilling :: bool
  as_connection :: stream_connection

definition auth_snapshot_new :: "instrument \<Rightarrow> event_kind \<Rightarrow> u32 \<Rightarrow> u64 \<Rightarrow> auth_snapshot" where
  "auth_snapshot_new i k refcount gap_count =
     \<lparr> as_instrument = i, as_kind = k, as_subscriber_refcount = refcount, as_seq_position = None,
       as_last_source_ts = None, as_last_rx_ts = None, as_latency_ns = None,
       as_gap_count = gap_count, as_recent_gaps = [], as_last_gap_rx_ts = None,
       as_backfilling = False, as_connection = Pending \<rparr>"

definition with_timestamps :: "timestamp option \<Rightarrow> timestamp option \<Rightarrow> auth_snapshot \<Rightarrow> auth_snapshot" where
  "with_timestamps source rx s =
     s\<lparr> as_last_source_ts := source, as_last_rx_ts := rx,
        as_latency_ns := (case (source, rx) of
                            (Some a, Some b) \<Rightarrow> Some (sub_i64 b a)
                          | _ \<Rightarrow> None) \<rparr>"

datatype provider_state =
    PsConnected | PsConnecting | PsDisconnected | PsUnauthenticated | PsCompanionUnreachable
  | PsDisabled | PsIdle

definition provider_state :: "provider_snapshot \<Rightarrow> provider_state" where
  "provider_state p =
     (if \<not> ps_enabled p then PsDisabled
      else if ps_connection_state p = CsUnauthenticated then PsUnauthenticated
      else if ps_active_subscriptions p = 0 then PsIdle
      else (case ps_connection_state p of
              CsConnected \<Rightarrow> PsConnected
            | CsDisconnected \<Rightarrow> PsDisconnected
            | CsUnauthenticated \<Rightarrow> PsUnauthenticated
            | CsUnknown \<Rightarrow> PsConnecting))"

datatype liveness =
    AwaitingData
  | LvLive
  | Stale timestamp
  | Quiet timestamp
  | Gapped "gap_span list"
  | Backfilling

definition fault_since :: "auth_snapshot \<Rightarrow> timestamp option" where
  "fault_since s =
     (case as_connection s of
        Down since cause \<Rightarrow> (if cause = CauseDisabled then None else Some since)
      | Pending \<Rightarrow> None
      | Up _ \<Rightarrow> None)"

definition liveness :: "auth_snapshot \<Rightarrow> timestamp \<Rightarrow> i64 \<Rightarrow> liveness" where
  "liveness s captured_at quiet_after_ns =
     (if as_backfilling s then Backfilling
      else case fault_since s of
        Some since \<Rightarrow> Stale since
      | None \<Rightarrow>
          (case as_last_rx_ts s of
             None \<Rightarrow> AwaitingData
           | Some rx \<Rightarrow>
               if sub_i64 captured_at rx > quiet_after_ns then Quiet rx
               else (case as_last_gap_rx_ts s of
                       Some gap_rx \<Rightarrow>
                         if sub_i64 captured_at gap_rx \<le> quiet_after_ns
                         then Gapped (as_recent_gaps s) else LvLive
                     | None \<Rightarrow> LvLive)))"

record provider_health =
  ph_provider :: provider_id
  ph_state :: provider_state
  ph_detail :: "string option"

record stream_health =
  sh_instrument :: instrument
  sh_kind :: event_kind
  sh_liveness :: liveness
  sh_last_event_source_ts :: "timestamp option"
  sh_gap_count :: u64
  sh_latency :: "i64 option"

record daemon_health =
  dh_version :: "string option"
  dh_credential_backend :: "string option"
  dh_captured_at :: timestamp

record health_view =
  hv_schema_version :: u32
  hv_daemon :: daemon_health
  hv_providers :: "provider_health list"
  hv_streams :: "stream_health list"

definition health_from_snapshot ::
  "timestamp \<Rightarrow> provider_snapshot list \<Rightarrow> auth_snapshot list \<Rightarrow> i64 \<Rightarrow> health_view" where
  "health_from_snapshot captured_at provs auths quiet_after_ns =
     \<lparr> hv_schema_version = 3, hv_daemon = \<lparr> dh_version = None, dh_credential_backend = None, dh_captured_at = captured_at \<rparr>,
       hv_providers = map (\<lambda>p. \<lparr> ph_provider = ps_provider p, ph_state = provider_state p,
                                ph_detail = ps_last_error p \<rparr>) provs,
       hv_streams = map (\<lambda>s. \<lparr> sh_instrument = as_instrument s, sh_kind = as_kind s,
                              sh_liveness = liveness s captured_at quiet_after_ns,
                              sh_last_event_source_ts = as_last_source_ts s,
                              sh_gap_count = as_gap_count s,
                              sh_latency = as_latency_ns s \<rparr>) auths \<rparr>"

section \<open>The fold over delivered events\<close>

definition gap_spans :: "market_event list \<Rightarrow> gap_span list" where
  "gap_spans evs = List.map_filter (\<lambda>ev. case ev of
      Control c \<Rightarrow> (case c_kind c of Gap _ _ sp \<Rightarrow> Some sp | _ \<Rightarrow> None)
    | _ \<Rightarrow> None) evs"

lemma gap_spans_snoc:
  "gap_spans (evs @ [ev]) = gap_spans evs @
     (case ev of Control c \<Rightarrow> (case c_kind c of Gap _ _ sp \<Rightarrow> [sp] | _ \<Rightarrow> []) | _ \<Rightarrow> [])"
  by (auto simp: gap_spans_def List.map_filter_def split: market_event.splits control_kind.splits)

text \<open>The newest \<open>n\<close> elements of a list.\<close>

definition newest :: "nat \<Rightarrow> 'a list \<Rightarrow> 'a list" where
  "newest n xs = drop (length xs - n) xs"

lemma push_recent_newest: "push_recent_gap sp (newest 8 xs) = newest 8 (xs @ [sp])"
proof (cases "8 \<le> length xs")
  case True
  then have "Suc (length xs) - 8 = Suc (length xs - 8)" by simp
  then show ?thesis
    using True by (simp add: push_recent_gap_def newest_def RECENT_GAPS_CAP_def tl_drop drop_Suc)
qed (simp add: push_recent_gap_def newest_def RECENT_GAPS_CAP_def)

lemma record_event_gaps:
  "ls_gap_count (fold record_event evs live_stats_new) = of_nat (length (gap_spans evs))
   \<and> ls_recent_gaps (fold record_event evs live_stats_new) = newest 8 (gap_spans evs)"
proof (induction evs rule: rev_induct)
  case Nil
  then show ?case by (simp add: live_stats_new_def gap_spans_def newest_def List.map_filter_simps)
next
  case (snoc ev evs)
  then show ?case
    using push_recent_newest
    by (auto simp: record_event_def record_seq_def Let_def gap_spans_snoc data_source_ts_def
        split: market_event.splits control_kind.splits option.splits)
qed

lemma record_event_seq:
  "seq_position (fold record_event evs live_stats_new) = (if evs = [] then None else Some (ev_seq (last evs)))"
proof (induction evs rule: rev_induct)
  case (snoc ev evs)
  then show ?case
    by (auto simp: record_event_def record_seq_def Let_def seq_of_Some seq_position_def
        split: market_event.splits control_kind.splits option.splits)
qed (simp add: live_stats_new_def seq_position_def)

section \<open>The connection phase\<close>

definition is_connect :: "control \<Rightarrow> bool" where
  "is_connect c = (case c_kind c of ProviderConnected _ \<Rightarrow> True | _ \<Rightarrow> False)"

definition cause_of :: "control \<Rightarrow> disconnect_cause option" where
  "cause_of c = (case c_kind c of ProviderDisconnected _ _ cause \<Rightarrow> Some cause | _ \<Rightarrow> None)"

text \<open>The disconnect causes in a sequence, and whether its newest connection control is a disconnect.\<close>

definition causes :: "control list \<Rightarrow> disconnect_cause list" where
  "causes cs = List.map_filter cause_of cs"

definition ends_down :: "control list \<Rightarrow> bool" where
  "ends_down cs = (let evidence = filter (\<lambda>c. is_connect c \<or> cause_of c \<noteq> None) cs
                   in evidence \<noteq> [] \<and> \<not> is_connect (last evidence))"

definition record_controls :: "control list \<Rightarrow> live_stats \<Rightarrow> live_stats" where
  "record_controls cs st = fold (\<lambda>c s. snd (record_connection c s)) cs st"

lemma record_controls_append:
  "record_controls (xs @ ys) st = record_controls ys (record_controls xs st)"
  by (simp add: record_controls_def)

lemma record_connection_phase:
  "ls_connection (snd (record_connection c st)) =
     (if is_connect c then (case ls_connection st of Up s \<Rightarrow> Up s | _ \<Rightarrow> Up (c_rx_ts c))
      else case cause_of c of
        Some cause \<Rightarrow> (case ls_connection st of Down s _ \<Rightarrow> Down s cause | _ \<Rightarrow> Down (c_rx_ts c) cause)
      | None \<Rightarrow> ls_connection st)"
  by (auto simp: record_connection_def is_connect_def cause_of_def
      split: control_kind.splits stream_connection.splits)

lemma record_controls_ends_down:
  "(\<exists>t ca. ls_connection (record_controls cs live_stats_new) = Down t ca) \<longleftrightarrow> ends_down cs"
proof (induction cs rule: rev_induct)
  case (snoc c cs)
  then show ?case
    by (auto simp: record_controls_append record_controls_def record_connection_phase ends_down_def Let_def
        split: option.splits stream_connection.splits)
qed (simp add: record_controls_def live_stats_new_def ends_down_def)

lemma record_controls_stays_down:
  assumes "ls_connection st = Down t ca" "\<forall>c \<in> set cs. \<not> is_connect c"
  shows "ls_connection (record_controls cs st) = Down t (last (ca # causes cs))"
  using assms
proof (induction cs arbitrary: st ca)
  case (Cons c cs)
  define st1 where "st1 = snd (record_connection c st)"
  have "ls_connection st1 = Down t (case cause_of c of Some x \<Rightarrow> x | None \<Rightarrow> ca)"
    using Cons.prems by (auto simp: st1_def record_connection_phase split: option.splits)
  then have "ls_connection (record_controls cs st1) =
      Down t (last ((case cause_of c of Some x \<Rightarrow> x | None \<Rightarrow> ca) # causes cs))"
    using Cons.IH Cons.prems by simp
  then show ?case
    by (simp add: record_controls_def st1_def [symmetric] causes_def List.map_filter_simps split: option.splits)
qed (simp add: record_controls_def causes_def List.map_filter_simps)

text \<open>An outage begins at its first disconnect and carries the newest cause.\<close>

lemma record_controls_outage:
  assumes "\<not> ends_down older" "cause_of d = Some ca" "\<forall>c \<in> set newer. \<not> is_connect c"
  shows "ls_connection (record_controls (older @ d # newer) live_stats_new) =
           Down (c_rx_ts d) (last (causes (d # newer)))"
proof -
  let ?st = "record_controls older live_stats_new"
  have d: "\<not> is_connect d" using assms(2) by (auto simp: cause_of_def is_connect_def split: control_kind.splits)
  have "ls_connection (snd (record_connection d ?st)) = Down (c_rx_ts d) ca"
    using assms(1,2) d record_controls_ends_down [of older]
    by (auto simp: record_connection_phase split: stream_connection.splits)
  then have "ls_connection (record_controls newer (snd (record_connection d ?st))) =
      Down (c_rx_ts d) (last (ca # causes newer))"
    using record_controls_stays_down assms(3) by blast
  then show ?thesis
    using assms(2) by (simp add: record_controls_append record_controls_def causes_def List.map_filter_simps)
qed

section \<open>Derived provider state\<close>

lemma phase_flags_spec:
  "phase_flags streams =
     (streams \<noteq> [], (\<exists>t. Up t \<in> set streams), (\<exists>t c. Down t c \<in> set streams),
      (\<exists>t. Down t CauseUnauthenticated \<in> set streams))"
proof (induction streams rule: rev_induct)
  case (snoc p streams)
  then show ?case by (cases p) (auto simp: phase_flags_def)
qed (simp add: phase_flags_def)

lemma connection_state_connected:
  "connection_state a streams = CsConnected \<longleftrightarrow> (\<exists>t. Up t \<in> set streams)"
  by (auto simp: connection_state_def phase_flags_spec)

lemma connection_state_active:
  "streams \<noteq> [] \<Longrightarrow> connection_state a streams = connection_state b streams"
  by (simp add: connection_state_def phase_flags_spec)

lemma liveness_stale_iff:
  "liveness s now q = Stale t \<longleftrightarrow>
     \<not> as_backfilling s \<and> (\<exists>cause. as_connection s = Down t cause \<and> cause \<noteq> CauseDisabled)"
  by (auto simp: liveness_def fault_since_def split: stream_connection.splits option.splits)

section \<open>Correctness of the statistics\<close>

text \<open>After any delivered stream the gap counter is the number of gap controls in it
  (modulo the counter's width), the recent list holds the newest eight of their spans in
  order, and the sequence position is that of the last event.\<close>

lemma live_stats_track_stream:
  "let st = fold record_event evs live_stats_new in
   ls_gap_count st = of_nat (length (gap_spans evs)) \<and> ls_recent_gaps st = newest 8 (gap_spans evs)
   \<and> seq_position st = (if evs = [] then None else Some (ev_seq (last evs)))"
  using record_event_gaps record_event_seq by (simp add: Let_def)

text \<open>An outage starts at its first disconnect and keeps that instant through repeated
  disconnects, while its cause is that of the newest one.\<close>

lemma outage_anchor:
  assumes "\<not> ends_down older" "cause_of d = Some ca" "\<forall>c \<in> set newer. \<not> is_connect c"
  shows "ls_connection (record_controls (older @ d # newer) live_stats_new) =
           Down (c_rx_ts d) (last (causes (d # newer)))"
  by (rule record_controls_outage [OF assms])

text \<open>The provider's connection state: connected exactly when some stream is up;
  otherwise unauthenticated when a stream is down for that cause, disconnected when one is
  down, and the remembered outcome of earlier attempts counts only when no stream is active.\<close>

lemma connection_state_spec:
  "connection_state a streams =
     (if \<exists>t. Up t \<in> set streams then CsConnected
      else if \<exists>t. Down t CauseUnauthenticated \<in> set streams then CsUnauthenticated
      else if \<exists>t c. Down t c \<in> set streams then CsDisconnected
      else if streams \<noteq> [] then CsUnknown
      else if ac_auth_failed a then CsUnauthenticated
      else if ac_ever_connected a then CsDisconnected else CsUnknown)"
  by (simp add: connection_state_def phase_flags_spec)

text \<open>A stream is reported stale exactly when it is not backfilling and its connection is
  down for another cause than an operator's disable, since the instant the outage began; it
  is reported live only with data received within the quiet threshold.\<close>

lemma liveness_spec:
  "(liveness s now q = Stale t \<longleftrightarrow>
     \<not> as_backfilling s \<and> (\<exists>cause. as_connection s = Down t cause \<and> cause \<noteq> CauseDisabled))
   \<and> (liveness s now q = LvLive \<longrightarrow>
        (\<exists>rx. as_last_rx_ts s = Some rx \<and> sub_i64 now rx \<le> q) \<and> \<not> as_backfilling s)"
proof -
  have "\<exists>rx. as_last_rx_ts s = Some rx \<and> sub_i64 now rx \<le> q" "\<not> as_backfilling s"
    if "liveness s now q = LvLive"
    using that by (auto simp: liveness_def split: if_splits option.splits)
  then show ?thesis using liveness_stale_iff [of s now q t] by blast
qed

end
