(* ===== verification/Controller.thy ===== *)
theory Controller
  imports Stats Tiling "HOL-Library.Monad_Syntax" "HOL-Library.Sublist"
begin

text \<open>
  The per-session controller of \<^verbatim>\<open>session.rs\<close>: source stamping, tee, delivery, the
  historical read-through path, the stitched backfill and the live loop. An operation maps
  a controller state to the next one; \<open>None\<close> is the one panic of this code, the exhausted
  sequence counter of \<open>stamp\<close>.

  A \<^verbatim>\<open>tokio::select!\<close> loop is a recursion over an explicit schedule: the list of the
  branches that fired, in order, with what they received. Any interleaving of commands,
  removals, live arrivals and fetched events is such a list; a list that ends before the
  loop does is a run that is still waiting. Providers (\<^verbatim>\<open>fetch_history\<close>), the cache behind
  its trait (\<open>cache_ops\<close>) and the wall clock are parameters.

  \<open>ct_trace\<close> is a history variable: every event handed to \<^verbatim>\<open>deliver_with\<close>, in order. No
  operation reads it.
\<close>

section \<open>Session options\<close>

datatype scope = Historical timestamp timestamp | LiveScope "timestamp option"

record persistence_options =
  read_cache :: bool
  write_cache :: bool
  write_tap_log :: bool

definition options_none :: persistence_options where
  "options_none = \<lparr> read_cache = False, write_cache = False, write_tap_log = False \<rparr>"

definition options_cached :: persistence_options where
  "options_cached = \<lparr> read_cache = True, write_cache = True, write_tap_log = False \<rparr>"

definition options_read_only :: persistence_options where
  "options_read_only = \<lparr> read_cache = True, write_cache = False, write_tap_log = False \<rparr>"

definition options_refresh :: persistence_options where
  "options_refresh = \<lparr> read_cache = False, write_cache = True, write_tap_log = False \<rparr>"

definition with_tap_log :: "bool \<Rightarrow> persistence_options \<Rightarrow> persistence_options" where
  "with_tap_log on opts = opts\<lparr> write_tap_log := on \<rparr>"

definition uses_cache :: "persistence_options \<Rightarrow> bool" where
  "uses_cache opts \<longleftrightarrow> read_cache opts \<or> write_cache opts"

section \<open>Collaborators\<close>

record history_request =
  hr_instrument :: instrument
  hr_kind :: event_kind
  hr_from :: timestamp
  hr_to :: timestamp
  hr_adjustment :: adjustment

text \<open>How a spawned fetch task ended, and the events it had sent by then.\<close>

datatype fetch_join = FetchOk | FetchErr error | FetchCancelled | FetchPanicked string

type_synonym fetcher = "history_request \<Rightarrow> market_event list \<times> fetch_join"

record 'c cache_ops =
  co_gaps :: "'c \<Rightarrow> cache_key \<Rightarrow> gap_span list res"
  co_store :: "cache_key \<Rightarrow> market_event list \<Rightarrow> 'c \<Rightarrow> unit res \<times> 'c"
  co_open :: "'c \<Rightarrow> cache_key \<Rightarrow> replay_request \<Rightarrow> market_event list res"

section \<open>State\<close>

datatype sink = Attached "market_event chan" | Detached event_ring

datatype arrival = ArLive | ArSeed

record 'c controller =
  ct_instrument :: instrument
  ct_kind :: event_kind
  ct_scope :: scope
  ct_adjustment :: adjustment
  ct_persistence :: persistence_options
  ct_stream_taken :: bool
  ct_provider :: provider_id
  ct_tap_log :: "market_event list option"
  ct_cache :: "'c option"
  ct_sink :: sink
  ct_ring_capacity :: nat
  ct_next_seq :: u64
  ct_fanout :: "fan_out option"
  ct_stats :: live_stats
  ct_accounting :: accounting
  ct_data_forwarded :: bool
  ct_live_handle :: bool
  ct_trace :: "market_event list"

datatype command =
    SetPersistence persistence_options
  | AddSubscriber subscriber_id "market_event chan"
  | Close

datatype removal = One subscriber_id | RemovalsClosed

section \<open>Stamping and delivery\<close>

definition stamp :: "market_event \<Rightarrow> 'c controller \<Rightarrow> (market_event \<times> 'c controller) option" where
  "stamp ev c =
     (case checked_add_u64 (ct_next_seq c) 1 of
        None \<Rightarrow> None
      | Some n \<Rightarrow>
          if n \<noteq> u64_max then Some (stamp_seq ev (ct_next_seq c), c\<lparr> ct_next_seq := n \<rparr>) else None)"

text \<open>
  The in-process sink. \<^verbatim>\<open>send().await\<close> waits for room, so an open channel always takes
  the event; a closed one hands it back.
\<close>

definition publish :: "market_event \<Rightarrow> market_event chan \<Rightarrow> market_event chan option" where
  "publish ev ch = (if ch_closed ch then None else Some (ch\<lparr> ch_queue := ch_queue ch @ [ev] \<rparr>))"

definition sink_deliver :: "nat \<Rightarrow> market_event \<Rightarrow> sink \<Rightarrow> sink" where
  "sink_deliver ring_capacity ev s =
     (case s of
        Attached ch \<Rightarrow>
          (case publish ev ch of
             Some ch' \<Rightarrow> Attached ch'
           | None \<Rightarrow> Detached (event_ring_push ev (event_ring_new ring_capacity)))
      | Detached ring \<Rightarrow> Detached (event_ring_push ev ring))"

definition deliver_with :: "market_event \<Rightarrow> arrival \<Rightarrow> 'c controller \<Rightarrow> 'c controller" where
  "deliver_with ev arr c0 =
     (let c = c0\<lparr> ct_trace := ct_trace c0 @ [ev] \<rparr> in
      case ct_fanout c of
        Some f \<Rightarrow>
          c\<lparr> ct_stats := (case arr of ArLive \<Rightarrow> record_event ev (ct_stats c)
                                    | ArSeed \<Rightarrow> record_seed ev (ct_stats c)),
             ct_fanout := Some (fanout ev f) \<rparr>
      | None \<Rightarrow> c\<lparr> ct_sink := sink_deliver (ct_ring_capacity c) ev (ct_sink c) \<rparr>)"

definition deliver :: "market_event \<Rightarrow> 'c controller \<Rightarrow> 'c controller" where
  "deliver ev c = deliver_with ev ArLive c"

definition emit :: "market_event \<Rightarrow> 'c controller \<Rightarrow> 'c controller option" where
  "emit ev c = do { (ev', c') \<leftarrow> stamp ev c; Some (deliver ev' c') }"

definition tee :: "market_event \<Rightarrow> 'c controller \<Rightarrow> 'c controller" where
  "tee ev c =
     (if \<not> is_data ev then c
      else case ct_scope c of
        Historical _ _ \<Rightarrow> c
      | LiveScope _ \<Rightarrow>
          (case ct_tap_log c of
             None \<Rightarrow> c
           | Some log \<Rightarrow>
               if write_tap_log (ct_persistence c) then c\<lparr> ct_tap_log := Some (log @ [ev]) \<rparr> else c))"

definition forward_with :: "market_event \<Rightarrow> arrival \<Rightarrow> 'c controller \<Rightarrow> 'c controller option" where
  "forward_with ev0 arr c0 =
     do { (ev, c1) \<leftarrow> stamp ev0 c0;
          let c2 = (if is_data ev then c1\<lparr> ct_data_forwarded := True \<rparr> else c1);
          let c3 = c2\<lparr> ct_accounting :=
                     record_forwarded ev (ct_fanout c2 \<noteq> None \<and> arr = ArLive) (ct_accounting c2) \<rparr>;
          Some (deliver_with ev arr (tee ev c3)) }"

definition forward :: "market_event \<Rightarrow> 'c controller \<Rightarrow> 'c controller option" where
  "forward ev c = forward_with ev ArLive c"

fun forward_all :: "market_event list \<Rightarrow> 'c controller \<Rightarrow> 'c controller option" where
  "forward_all [] c = Some c"
| "forward_all (ev # evs) c = do { c' \<leftarrow> forward ev c; forward_all evs c' }"

section \<open>Controls the controller originates\<close>

definition gap_control :: "timestamp \<Rightarrow> timestamp \<Rightarrow> timestamp \<Rightarrow> 'c controller \<Rightarrow> market_event" where
  "gap_control src f t c =
     Control \<lparr> c_source_ts = src, c_rx_ts = src, c_seq = 0,
               c_kind = Gap (ct_provider c) (ct_instrument c) (gap_span_of f t) \<rparr>"

definition emit_gap :: "timestamp \<Rightarrow> timestamp \<Rightarrow> timestamp \<Rightarrow> 'c controller \<Rightarrow> 'c controller option" where
  "emit_gap src f t c = forward (gap_control src f t c) c"

definition error_control :: "timestamp \<Rightarrow> string \<Rightarrow> 'c controller \<Rightarrow> market_event" where
  "error_control src message c =
     Control \<lparr> c_source_ts = src, c_rx_ts = src, c_seq = 0,
               c_kind = ProviderError (ct_provider c) message \<rparr>"

definition emit_provider_error :: "timestamp \<Rightarrow> string \<Rightarrow> 'c controller \<Rightarrow> 'c controller option" where
  "emit_provider_error src message c =
     forward (error_control src message c)
       (c\<lparr> ct_accounting := record_error message (ct_accounting c) \<rparr>)"

definition closing_control :: "timestamp \<Rightarrow> market_event" where
  "closing_control now = Control \<lparr> c_source_ts = now, c_rx_ts = now, c_seq = 0, c_kind = SessionClosing \<rparr>"

text \<open>\<^verbatim>\<open>shutdown\<close>; flushing the tap log and the sink changes no state of the model.\<close>

definition shutdown :: "timestamp \<Rightarrow> 'c controller \<Rightarrow> 'c controller option" where
  "shutdown now c = emit (closing_control now) c"

section \<open>Commands and removals\<close>

definition apply_persistence :: "persistence_options \<Rightarrow> 'c controller \<Rightarrow> unit res \<times> 'c controller" where
  "apply_persistence opts c =
     (if uses_cache opts \<and> ct_cache c = None then (Inl PersistenceRequired, c)
      else if write_tap_log opts \<and> ct_tap_log c = None then (Inl PersistenceRequired, c)
      else (Inr (), c\<lparr> ct_persistence := opts \<rparr>))"

definition add_subscriber :: "subscriber_id \<Rightarrow> market_event chan \<Rightarrow> 'c controller \<Rightarrow> 'c controller" where
  "add_subscriber sid sender c =
     (case ct_fanout c of
        None \<Rightarrow> c
      | Some f \<Rightarrow>
          let f' = fanout_add sid sender f in
          c\<lparr> ct_fanout := Some f', ct_stats := set_subscribers (fanout_subscriber_count f') (ct_stats c) \<rparr>)"

text \<open>\<^verbatim>\<open>handle_command\<close>: \<open>False\<close> when the controller should exit.\<close>

definition handle_command :: "timestamp \<Rightarrow> command option \<Rightarrow> 'c controller \<Rightarrow> (bool \<times> 'c controller) option" where
  "handle_command now cmd c =
     (case cmd of
        Some (SetPersistence opts) \<Rightarrow> Some (True, snd (apply_persistence opts c))
      | Some (AddSubscriber sid sender) \<Rightarrow> Some (True, add_subscriber sid sender c)
      | Some Close \<Rightarrow> do { c' \<leftarrow> shutdown now c; Some (False, c') }
      | None \<Rightarrow> Some (False, c))"

definition live_should_teardown :: "'c controller \<Rightarrow> bool" where
  "live_should_teardown c = (case ct_fanout c of None \<Rightarrow> False | Some f \<Rightarrow> should_teardown f)"

definition remove_subscriber :: "subscriber_id \<Rightarrow> 'c controller \<Rightarrow> 'c controller" where
  "remove_subscriber sid c =
     (case ct_fanout c of
        None \<Rightarrow> c
      | Some f \<Rightarrow>
          let f' = fanout_remove sid f in
          c\<lparr> ct_fanout := Some f', ct_stats := set_subscribers (fanout_subscriber_count f') (ct_stats c) \<rparr>)"

definition backfill_removal :: "removal \<Rightarrow> 'c controller \<Rightarrow> bool \<times> 'c controller" where
  "backfill_removal r c =
     (case r of
        One sid \<Rightarrow> let c' = remove_subscriber sid c in (live_should_teardown c', c')
      | RemovalsClosed \<Rightarrow> (True, c))"

definition note_provider_arrival :: "market_event \<Rightarrow> 'c controller \<Rightarrow> 'c controller" where
  "note_provider_arrival ev c =
     (case ev of
        Control k \<Rightarrow>
          (let (change, st) = record_connection k (ct_stats c) in
           c\<lparr> ct_stats := st,
              ct_accounting := record_provider_control (c_kind k) change (ct_accounting c) \<rparr>)
      | _ \<Rightarrow> c)"

section \<open>The environment\<close>

text \<open>
  What the other ends of the channels do between two steps of the controller: the consumer
  takes or drops the historical stream, a referrer receives one event or drops its receiver.
\<close>

datatype env_act = TakeStream | DropStream | ReferrerRecv subscriber_id | ReferrerDrop subscriber_id

definition on_referrer :: "subscriber_id \<Rightarrow> (market_event chan \<Rightarrow> market_event chan) \<Rightarrow> 'c controller \<Rightarrow> 'c controller" where
  "on_referrer sid g c =
     c\<lparr> ct_fanout := map_option (\<lambda>f. f\<lparr> fo_subscribers :=
          map (\<lambda>(i, r). (i, if i = sid then r\<lparr> rf_tx := g (rf_tx r) \<rparr> else r)) (fo_subscribers f) \<rparr>) (ct_fanout c) \<rparr>"

definition env_step :: "env_act \<Rightarrow> 'c controller \<Rightarrow> 'c controller" where
  "env_step act c =
     (case act of
        TakeStream \<Rightarrow> c\<lparr> ct_stream_taken := True \<rparr>
      | DropStream \<Rightarrow>
          (case ct_sink c of
             Attached ch \<Rightarrow> c\<lparr> ct_sink := Attached (ch\<lparr> ch_closed := True \<rparr>) \<rparr>
           | Detached _ \<Rightarrow> c)
      | ReferrerRecv sid \<Rightarrow> on_referrer sid (\<lambda>ch. ch\<lparr> ch_queue := tl (ch_queue ch) \<rparr>) c
      | ReferrerDrop sid \<Rightarrow> on_referrer sid (\<lambda>ch. ch\<lparr> ch_closed := True \<rparr>) c)"

section \<open>The live side of a backfill\<close>

record live_side =
  lv_open :: bool
  lv_pending :: "event_ring option"
  lv_removals :: bool

definition no_live_side :: live_side where
  "no_live_side = \<lparr> lv_open = False, lv_pending = None, lv_removals = False \<rparr>"

definition buffer_live_arrival :: "market_event option \<Rightarrow> live_side \<Rightarrow> live_side" where
  "buffer_live_arrival ev lv =
     (case ev of
        Some e \<Rightarrow> lv\<lparr> lv_pending := map_option (event_ring_push e) (lv_pending lv) \<rparr>
      | None \<Rightarrow> lv\<lparr> lv_open := False \<rparr>)"

definition flush_backfill_pending :: "event_ring \<Rightarrow> 'c controller \<Rightarrow> 'c controller option" where
  "flush_backfill_pending ring c =
     (case event_ring_into_parts ring of (dropped, _, events) \<Rightarrow>
       do { c' \<leftarrow> (case dropped of
                    Some sp \<Rightarrow> emit_gap (from_source_ts sp) (from_source_ts sp) (to_source_ts sp) c
                  | None \<Rightarrow> Some c);
            forward_all events c' })"

section \<open>Streaming planned segments\<close>

datatype choice =
    ChCmd timestamp "command option"
  | ChRemoval timestamp removal
  | ChLive "market_event option"
  | ChEnv env_act
  | ChNext

datatype loop_end = LoopBreak | LoopClosed | LoopWaiting

text \<open>
  The branches the two segment loops share: everything but the segment's own events. A
  removal or live branch pends forever when its channel is absent, so such an entry of the
  schedule is passed over.
\<close>

definition side_branch ::
  "choice \<Rightarrow> live_side \<Rightarrow> 'c controller \<Rightarrow> (bool \<times> live_side \<times> 'c controller) option" where
  "side_branch ch lv c =
     (case ch of
        ChCmd now cmd \<Rightarrow> do { (go, c') \<leftarrow> handle_command now cmd c; Some (go, lv, c') }
      | ChRemoval now r \<Rightarrow>
          (if \<not> lv_removals lv then Some (True, lv, c)
           else let (tear, c') = backfill_removal r c in
                if tear then do { c'' \<leftarrow> shutdown now c'; Some (False, lv, c'') }
                else Some (True, lv, c'))
      | ChLive ev \<Rightarrow>
          (if \<not> lv_open lv then Some (True, lv, c)
           else Some (True, buffer_live_arrival ev lv,
                      case ev of Some e \<Rightarrow> note_provider_arrival e c | None \<Rightarrow> c))
      | ChEnv act \<Rightarrow> Some (True, lv, env_step act c)
      | ChNext \<Rightarrow> Some (True, lv, c))"

fun covered_loop ::
  "choice list \<Rightarrow> market_event list \<Rightarrow> live_side \<Rightarrow> 'c controller \<Rightarrow>
   (loop_end \<times> choice list \<times> live_side \<times> 'c controller) option" where
  "covered_loop [] stream lv c = Some (LoopWaiting, [], lv, c)"
| "covered_loop (ChNext # sched) [] lv c = Some (LoopBreak, sched, lv, c)"
| "covered_loop (ChNext # sched) (ev # stream) lv c =
     do { c' \<leftarrow> emit ev c; covered_loop sched stream lv c' }"
| "covered_loop (ch # sched) stream lv c =
     do { (go, lv', c') \<leftarrow> side_branch ch lv c;
          if go then covered_loop sched stream lv' c' else Some (LoopClosed, sched, lv', c') }"

definition opt_max :: "timestamp option \<Rightarrow> timestamp option \<Rightarrow> timestamp option" where
  "opt_max a b =
     (case (a, b) of (None, _) \<Rightarrow> b | (_, None) \<Rightarrow> a | (Some x, Some y) \<Rightarrow> Some (max x y))"

fun gap_loop ::
  "bool \<Rightarrow> choice list \<Rightarrow> market_event list \<Rightarrow> live_side \<Rightarrow> 'c controller \<Rightarrow>
   market_event list \<Rightarrow> timestamp option \<Rightarrow>
   (loop_end \<times> choice list \<times> live_side \<times> 'c controller \<times> market_event list \<times> timestamp option) option" where
  "gap_loop st [] rx lv c batch mx = Some (LoopWaiting, [], lv, c, batch, mx)"
| "gap_loop st (ChNext # sched) [] lv c batch mx = Some (LoopBreak, sched, lv, c, batch, mx)"
| "gap_loop st (ChNext # sched) (ev # rx) lv c batch mx =
     do { c' \<leftarrow> emit ev c;
          gap_loop st sched rx lv c' (if st then batch @ [ev] else batch) (opt_max mx (data_source_ts ev)) }"
| "gap_loop st (ch # sched) rx lv c batch mx =
     do { (go, lv', c') \<leftarrow> side_branch ch lv c;
          if go then gap_loop st sched rx lv' c' batch mx
          else Some (LoopClosed, sched, lv', c', batch, mx) }"

definition fetch_error :: "fetch_join \<Rightarrow> string option" where
  "fetch_error j =
     (case j of
        FetchOk \<Rightarrow> None
      | FetchErr e \<Rightarrow> Some (provider_error_message e)
      | FetchCancelled \<Rightarrow> None
      | FetchPanicked m \<Rightarrow> Some (''fetch task panicked: '' @ m))"

definition segment_key :: "timestamp \<Rightarrow> timestamp \<Rightarrow> 'c controller \<Rightarrow> cache_key" where
  "segment_key f t c =
     \<lparr> k_instrument = ct_instrument c, k_kind = ct_kind c, k_from = f, k_to = t,
       k_adjustment = ct_adjustment c \<rparr>"

text \<open>Store a fetched batch; a failed store is only logged.\<close>

definition cache_write ::
  "'c cache_ops \<Rightarrow> persistence_options \<Rightarrow> timestamp \<Rightarrow> timestamp \<Rightarrow> market_event list \<Rightarrow> 'c controller \<Rightarrow> 'c controller" where
  "cache_write ops opts f t batch c =
     (if write_cache opts
      then (case ct_cache c of
              None \<Rightarrow> c
            | Some cache \<Rightarrow> c\<lparr> ct_cache := Some (snd (co_store ops (segment_key f t c) batch cache)) \<rparr>)
      else c)"

datatype seg_outcome = SegDone | SegClosed | SegWaiting

definition loop_outcome :: "loop_end \<Rightarrow> seg_outcome" where
  "loop_outcome e = (case e of LoopBreak \<Rightarrow> SegDone | LoopClosed \<Rightarrow> SegClosed | LoopWaiting \<Rightarrow> SegWaiting)"

text \<open>
  One segment. The flag of a \<open>SegDone\<close> result says whether the segments after it are still
  streamed: a failed gap fetch breaks out of the loop over segments.
\<close>

definition covered_segment ::
  "'c cache_ops \<Rightarrow> timestamp \<Rightarrow> timestamp \<Rightarrow> choice list \<Rightarrow> live_side \<Rightarrow> 'c controller \<Rightarrow>
   (seg_outcome \<times> bool \<times> choice list \<times> live_side \<times> 'c controller) option" where
  "covered_segment ops f t sched lv c =
     (let gapped = do { c' \<leftarrow> emit_gap f f t c; Some (SegDone, True, sched, lv, c') } in
      case ct_cache c of
        None \<Rightarrow> gapped
      | Some cache \<Rightarrow>
          (case co_open ops cache (segment_key f t c)
                  \<lparr> rq_instruments = [ct_instrument c], rq_kinds = [ct_kind c], rq_from = f, rq_to = t \<rparr> of
             Inl _ \<Rightarrow> gapped
           | Inr stream \<Rightarrow>
               do { (e, sched', lv', c') \<leftarrow> covered_loop sched stream lv c;
                    Some (loop_outcome e, True, sched', lv', c') }))"

definition gap_segment ::
  "'c cache_ops \<Rightarrow> fetcher \<Rightarrow> persistence_options \<Rightarrow> timestamp option \<Rightarrow> timestamp \<Rightarrow> timestamp \<Rightarrow>
   choice list \<Rightarrow> live_side \<Rightarrow> 'c controller \<Rightarrow>
   (seg_outcome \<times> bool \<times> choice list \<times> live_side \<times> 'c controller) option" where
  "gap_segment ops fetch opts edge f t sched lv c0 =
     (let (rx, join) = fetch \<lparr> hr_instrument = ct_instrument c0, hr_kind = ct_kind c0, hr_from = f,
                               hr_to = t, hr_adjustment = ct_adjustment c0 \<rparr>;
          c1 = c0\<lparr> ct_accounting := record_history_fetch (ct_accounting c0) \<rparr>;
          st = (write_cache opts \<and> ct_cache c0 \<noteq> None)
      in do { (e, sched', lv', c, batch, mx) \<leftarrow> gap_loop st sched rx lv c1 [] None;
              if e \<noteq> LoopBreak then Some (loop_outcome e, True, sched', lv', c)
              else case fetch_error join of
                None \<Rightarrow>
                  let claim_to = (if edge = Some t then confirmed_prefix_end mx f t else t)
                  in Some (SegDone, True, sched', lv', cache_write ops opts f claim_to batch c)
              | Some message \<Rightarrow>
                  let confirmed_to = confirmed_prefix_end mx f t;
                      gap_to = (case edge of Some b \<Rightarrow> b | None \<Rightarrow> t);
                      c2 = cache_write ops opts f confirmed_to batch c
                  in do { c3 \<leftarrow> (if confirmed_to < gap_to then emit_gap confirmed_to confirmed_to gap_to c2
                                else Some c2);
                          c4 \<leftarrow> emit_provider_error confirmed_to message c3;
                          Some (SegDone, False, sched', lv', c4) } })"

fun stream_segments ::
  "'c cache_ops \<Rightarrow> fetcher \<Rightarrow> persistence_options \<Rightarrow> timestamp option \<Rightarrow> segment list \<Rightarrow>
   choice list \<Rightarrow> live_side \<Rightarrow> 'c controller \<Rightarrow>
   (seg_outcome \<times> choice list \<times> live_side \<times> 'c controller) option" where
  "stream_segments ops fetch opts edge [] sched lv c = Some (SegDone, sched, lv, c)"
| "stream_segments ops fetch opts edge (seg # segs) sched lv c =
     do { (e, more, sched', lv', c') \<leftarrow>
            (case seg of
               Covered f t \<Rightarrow> covered_segment ops f t sched lv c
             | GapSeg f t \<Rightarrow> gap_segment ops fetch opts edge f t sched lv c);
          if e = SegDone \<and> more then stream_segments ops fetch opts edge segs sched' lv' c'
          else Some (e, sched', lv', c') }"

section \<open>Historical scope\<close>

datatype finish_in = FinCmd timestamp "command option" | FinConsumerGone timestamp | FinEnv env_act

text \<open>The wait for the consumer to drain; the flag is true once the controller has exited.\<close>

fun finish_loop :: "finish_in list \<Rightarrow> 'c controller \<Rightarrow> (bool \<times> 'c controller) option" where
  "finish_loop [] c = Some (False, c)"
| "finish_loop (FinCmd now cmd # ins) c =
     do { (go, c') \<leftarrow> handle_command now cmd c;
          if go then finish_loop ins c' else Some (True, c') }"
| "finish_loop (FinEnv act # ins) c = finish_loop ins (env_step act c)"
| "finish_loop (FinConsumerGone now # ins) c = do { c' \<leftarrow> shutdown now c; Some (True, c') }"

text \<open>\<^verbatim>\<open>finish_historical\<close>, with the two clock readings it may take.\<close>

definition finish_historical ::
  "timestamp \<Rightarrow> timestamp \<Rightarrow> finish_in list \<Rightarrow> 'c controller \<Rightarrow> (bool \<times> 'c controller) option" where
  "finish_historical now now' ins c =
     (if \<not> ct_stream_taken c then do { c' \<leftarrow> shutdown now c; Some (True, c') }
      else do { c1 \<leftarrow> emit (closing_control now) c;
                case ct_sink c1 of
                  Attached ch \<Rightarrow>
                    (if \<not> ch_closed ch then finish_loop ins c1
                     else do { c' \<leftarrow> shutdown now' c1; Some (True, c') })
                | Detached _ \<Rightarrow> do { c' \<leftarrow> shutdown now' c1; Some (True, c') } })"

text \<open>The uncached path: forward what the one fetch sends, then surface its failure.\<close>

fun hist_loop ::
  "choice list \<Rightarrow> market_event list \<Rightarrow> 'c controller \<Rightarrow> timestamp option \<Rightarrow>
   (loop_end \<times> 'c controller \<times> timestamp option) option" where
  "hist_loop [] rx c mx = Some (LoopWaiting, c, mx)"
| "hist_loop (ChNext # sched) [] c mx = Some (LoopBreak, c, mx)"
| "hist_loop (ChNext # sched) (ev # rx) c mx =
     do { c' \<leftarrow> forward ev c; hist_loop sched rx c' (opt_max mx (data_source_ts ev)) }"
| "hist_loop (ch # sched) rx c mx =
     do { (go, _, c') \<leftarrow> side_branch ch no_live_side c;
          if go then hist_loop sched rx c' mx else Some (LoopClosed, c', mx) }"

definition run_historical_uncached ::
  "fetcher \<Rightarrow> timestamp \<Rightarrow> timestamp \<Rightarrow> timestamp \<Rightarrow> timestamp \<Rightarrow> choice list \<Rightarrow> finish_in list \<Rightarrow>
   'c controller \<Rightarrow> (bool \<times> 'c controller) option" where
  "run_historical_uncached fetch now now' from to sched ins c0 =
     (let (rx, join) = fetch \<lparr> hr_instrument = ct_instrument c0, hr_kind = ct_kind c0, hr_from = from,
                               hr_to = to, hr_adjustment = ct_adjustment c0 \<rparr>;
          c1 = c0\<lparr> ct_accounting := record_history_fetch (ct_accounting c0) \<rparr>
      in do { (e, c, mx) \<leftarrow> hist_loop sched rx c1 None;
              case e of
                LoopClosed \<Rightarrow> Some (True, c)
              | LoopWaiting \<Rightarrow> Some (False, c)
              | LoopBreak \<Rightarrow>
                  do { c' \<leftarrow> (case fetch_error join of
                               None \<Rightarrow> Some c
                             | Some m \<Rightarrow> emit_provider_error (case mx of Some x \<Rightarrow> x | None \<Rightarrow> from) m c);
                       finish_historical now now' ins c' } })"

text \<open>
  The cached path. \<open>waited\<close> is what the cache has become by the time the fetch slot is
  acquired: other sessions may have stored into it meanwhile.
\<close>

definition planned_gaps :: "'c cache_ops \<Rightarrow> cache_key \<Rightarrow> 'c \<Rightarrow> gap_span list" where
  "planned_gaps ops key cache =
     (case co_gaps ops cache key of
        Inr g \<Rightarrow> g
      | Inl _ \<Rightarrow> [gap_span_of (k_from key) (k_to key)])"

definition plan_historical ::
  "'c cache_ops \<Rightarrow> ('c \<Rightarrow> 'c) \<Rightarrow> timestamp \<Rightarrow> timestamp \<Rightarrow> persistence_options \<Rightarrow> 'c \<Rightarrow> 'c controller \<Rightarrow>
   gap_span list \<times> 'c controller" where
  "plan_historical ops waited from to opts cache c =
     (let key = segment_key from to c in
      if \<not> read_cache opts then ([gap_span_of from to], c)
      else let initial = planned_gaps ops key cache in
        if initial = [] then ([], c)
        else let cache' = waited cache; regaps = planned_gaps ops key cache'; c' = c\<lparr> ct_cache := Some cache' \<rparr>
             in (regaps, if regaps = []
                         then c'\<lparr> ct_accounting := record_history_fetch_coalesced (ct_accounting c') \<rparr>
                         else c'))"

definition run_historical_cached ::
  "'c cache_ops \<Rightarrow> fetcher \<Rightarrow> ('c \<Rightarrow> 'c) \<Rightarrow> timestamp \<Rightarrow> timestamp \<Rightarrow> timestamp \<Rightarrow> timestamp \<Rightarrow> persistence_options \<Rightarrow> 'c \<Rightarrow>
   choice list \<Rightarrow> finish_in list \<Rightarrow> 'c controller \<Rightarrow> (bool \<times> 'c controller) option" where
  "run_historical_cached ops fetch waited now now' from to opts cache sched ins c0 =
     (let (gs, c1) = plan_historical ops waited from to opts cache c0 in
      do { (e, _, _, c) \<leftarrow> stream_segments ops fetch opts None (tile from to gs) sched no_live_side c1;
           case e of
             SegClosed \<Rightarrow> Some (True, c)
           | SegWaiting \<Rightarrow> Some (False, c)
           | SegDone \<Rightarrow> finish_historical now now' ins c })"

definition run_historical ::
  "'c cache_ops \<Rightarrow> fetcher \<Rightarrow> ('c \<Rightarrow> 'c) \<Rightarrow> timestamp \<Rightarrow> timestamp \<Rightarrow> timestamp \<Rightarrow> timestamp \<Rightarrow>
   choice list \<Rightarrow> finish_in list \<Rightarrow> 'c controller \<Rightarrow> (bool \<times> 'c controller) option" where
  "run_historical ops fetch waited now now' from to sched ins c =
     (case ct_cache c of
        Some cache \<Rightarrow>
          (if uses_cache (ct_persistence c)
           then run_historical_cached ops fetch waited now now' from to (ct_persistence c) cache sched ins c
           else run_historical_uncached fetch now now' from to sched ins c)
      | None \<Rightarrow> run_historical_uncached fetch now now' from to sched ins c)"

section \<open>Live scope\<close>

text \<open>
  \<^verbatim>\<open>run_backfill\<close>; \<open>edge\<close> is the wall clock read at its start. The outcome says whether the
  controller goes on to the live loop, exits, or is still streaming.
\<close>

definition run_backfill ::
  "'c cache_ops \<Rightarrow> fetcher \<Rightarrow> timestamp \<Rightarrow> timestamp \<Rightarrow> choice list \<Rightarrow> 'c controller \<Rightarrow>
   (seg_outcome \<times> 'c controller) option" where
  "run_backfill ops fetch edge from sched c0 =
     (if from \<ge> edge then Some (SegDone, c0)
      else
        let c1 = c0\<lparr> ct_stats := set_backfilling True (ct_stats c0) \<rparr>;
            opts = ct_persistence c1;
            gs = (case (ct_cache c1, read_cache opts) of
                    (Some cache, True) \<Rightarrow> planned_gaps ops (segment_key from edge c1) cache
                  | _ \<Rightarrow> [gap_span_of from edge]);
            lv = \<lparr> lv_open = True, lv_pending = Some (event_ring_new (ct_ring_capacity c1)), lv_removals = True \<rparr>
        in do { (e, _, lv', c) \<leftarrow> stream_segments ops fetch opts (Some edge) (tile from edge gs) sched lv c1;
                case e of
                  SegWaiting \<Rightarrow> Some (SegWaiting, c)
                | SegClosed \<Rightarrow> Some (SegClosed, c\<lparr> ct_stats := set_backfilling False (ct_stats c) \<rparr>)
                | SegDone \<Rightarrow>
                    do { c' \<leftarrow> (case lv_pending lv' of
                                 Some ring \<Rightarrow> flush_backfill_pending ring c
                               | None \<Rightarrow> Some c);
                         Some (SegDone, c'\<lparr> ct_stats := set_backfilling False (ct_stats c') \<rparr>) } })"

definition teardown_upstream :: "'c controller \<Rightarrow> 'c controller" where
  "teardown_upstream c =
     (if ct_live_handle c
      then c\<lparr> ct_live_handle := False, ct_accounting := record_unsubscribe (ct_accounting c) \<rparr>
      else c)"

datatype live_in =
    LiCmd timestamp "command option"
  | LiRemove "subscriber_id option"
  | LiProvider "market_event option"
  | LiSeed "market_event option"
  | LiEnv env_act

text \<open>
  The live loop. \<open>seed\<close> says whether the latest-value branch is still armed. The result flag
  is true when the loop has ended and the upstream was released.
\<close>

fun live_loop :: "bool \<Rightarrow> live_in list \<Rightarrow> 'c controller \<Rightarrow> (bool \<times> 'c controller) option" where
  "live_loop seed [] c = (if live_should_teardown c then Some (True, teardown_upstream c) else Some (False, c))"
| "live_loop seed (inp # ins) c =
     (if live_should_teardown c then Some (True, teardown_upstream c)
      else case inp of
        LiCmd now cmd \<Rightarrow>
          do { (go, c') \<leftarrow> handle_command now cmd c;
               if go then live_loop seed ins c' else Some (True, teardown_upstream c') }
      | LiRemove (Some sid) \<Rightarrow> live_loop seed ins (remove_subscriber sid c)
      | LiRemove None \<Rightarrow> Some (True, teardown_upstream c)
      | LiProvider None \<Rightarrow> Some (True, teardown_upstream c)
      | LiProvider (Some ev) \<Rightarrow>
          do { c' \<leftarrow> forward ev (note_provider_arrival ev c); live_loop seed ins c' }
      | LiSeed sd \<Rightarrow>
          (if \<not> seed then live_loop seed ins c
           else case sd of
             Some ev \<Rightarrow>
               (if ct_data_forwarded c then live_loop False ins c
                else do { c' \<leftarrow> forward_with ev ArSeed c; live_loop False ins c' })
           | None \<Rightarrow> live_loop False ins c)
      | LiEnv act \<Rightarrow> live_loop seed ins (env_step act c))"

definition run_live ::
  "'c cache_ops \<Rightarrow> fetcher \<Rightarrow> timestamp \<Rightarrow> timestamp option \<Rightarrow> choice list \<Rightarrow> live_in list \<Rightarrow> bool \<Rightarrow>
   'c controller \<Rightarrow> (bool \<times> 'c controller) option" where
  "run_live ops fetch edge backfill_from sched ins seed c0 =
     (let c1 = (case ct_fanout c0 of
                  Some f \<Rightarrow> c0\<lparr> ct_stats := set_subscribers (fanout_subscriber_count f) (ct_stats c0) \<rparr>
                | None \<Rightarrow> c0)
      in case backfill_from of
           None \<Rightarrow> live_loop seed ins c1
         | Some from \<Rightarrow>
             do { (e, c) \<leftarrow> run_backfill ops fetch edge from sched c1;
                  case e of
                    SegWaiting \<Rightarrow> Some (False, c)
                  | SegClosed \<Rightarrow> Some (True, teardown_upstream c)
                  | SegDone \<Rightarrow> live_loop seed ins c })"

section \<open>Opening a controller\<close>

definition new_controller ::
  "instrument \<Rightarrow> event_kind \<Rightarrow> scope \<Rightarrow> adjustment \<Rightarrow> persistence_options \<Rightarrow> provider_id \<Rightarrow>
   market_event list option \<Rightarrow> 'c option \<Rightarrow> sink \<Rightarrow> nat \<Rightarrow> fan_out option \<Rightarrow> accounting \<Rightarrow> 'c controller" where
  "new_controller i k sc adj opts prov log cache snk cap fo acct =
     \<lparr> ct_instrument = i, ct_kind = k, ct_scope = sc, ct_adjustment = adj, ct_persistence = opts,
       ct_stream_taken = False, ct_provider = prov, ct_tap_log = log, ct_cache = cache, ct_sink = snk,
       ct_ring_capacity = cap, ct_next_seq = 0, ct_fanout = fo, ct_stats = live_stats_new,
       ct_accounting = acct, ct_data_forwarded = False, ct_live_handle = True, ct_trace = [] \<rparr>"

end
