(* ===== verification/Client_Mux.thy ===== *)
theory Client_Mux
  imports Controller "HOL-Library.Multiset"
begin

text \<open>
  The client controller of \<^verbatim>\<open>client.rs\<close>: one task that multiplexes the substreams of a
  client's subscriptions into one stream. It owns the subscription set, the coalescer of
  connection-scoped controls, and the sink: an attached channel or a detached resume ring.
  A \<^verbatim>\<open>HashMap\<close> of subscriptions is an association list with distinct keys; the iteration
  order of the ring's drained map is the parameter \<open>order\<close>. What \<^verbatim>\<open>Datamancer::authoritative\<close>
  answers to a subscribe command and the readings of the wall clock come with the input.

  Two history variables, read by no operation: \<open>cl_trace\<close>, the events the controller put on
  the multiplexed stream, and \<open>cl_visible\<close>, the events a consumer's channel accepted.
\<close>

section \<open>State\<close>

datatype conn_state = ConnUp | ConnDown

type_synonym sub_key = "instrument \<times> event_kind"

record sub_entry =
  se_guard :: subscriber_id
  se_provider :: provider_id

datatype client_sink = ClAttached "market_event chan" | ClDetached client_ring

record client_ctl =
  cl_streams :: "sub_key list"
  cl_entries :: "(sub_key \<times> sub_entry) list"
  cl_sink :: client_sink
  cl_ring_capacity :: nat
  cl_seen_provider_state :: "provider_id \<rightharpoonup> conn_state"
  cl_last_provider_error :: "provider_id \<rightharpoonup> string"
  cl_stats :: client_stats
  cl_removed :: "(sub_key \<times> subscriber_id) list"
  cl_trace :: "market_event list"
  cl_visible :: "market_event list"

text \<open>\<open>cl_removed\<close>: the removals the dropped guards queued, oldest first.\<close>

datatype client_command =
    CcSubscribe instrument event_kind scope persistence_options "(subscriber_id \<times> provider_id) res"
  | CcUnsubscribe instrument event_kind timestamp timestamp
  | CcTake
  | CcSubscriptions
  | CcClose timestamp timestamp

datatype client_reply =
    RpSubscribe "unit res"
  | RpUnsubscribe "unit res"
  | RpTake "unit res"
  | RpSubscriptions "sub_key list"
  | RpClosed

definition DEFAULT_BUFFER :: nat where "DEFAULT_BUFFER = 1024"

section \<open>Delivery\<close>

definition client_deliver :: "market_event \<Rightarrow> provider_id \<Rightarrow> client_ctl \<Rightarrow> client_ctl" where
  "client_deliver ev provider c =
     (let to_ring = (\<lambda>ring.
            let (evicted, ring') = client_ring_push ev provider ring;
                st = (if evicted then record_drops 1 (cl_stats c) else cl_stats c)
            in c\<lparr> cl_sink := ClDetached ring', cl_stats := set_occupancy (client_ring_len ring') st \<rparr>)
      in case cl_sink c of
           ClAttached tx \<Rightarrow>
             (case publish ev tx of
                Some tx' \<Rightarrow> c\<lparr> cl_sink := ClAttached tx', cl_visible := cl_visible c @ [ev] \<rparr>
              | None \<Rightarrow> to_ring (client_ring_new (cl_ring_capacity c)))
         | ClDetached ring \<Rightarrow> to_ring ring)"

text \<open>Delivery of an event that is new on the multiplexed stream, not a replay of the ring.\<close>

definition client_emit :: "market_event \<Rightarrow> provider_id \<Rightarrow> client_ctl \<Rightarrow> client_ctl" where
  "client_emit ev provider c = client_deliver ev provider (c\<lparr> cl_trace := cl_trace c @ [ev] \<rparr>)"

definition prepare_attach :: "client_ctl \<Rightarrow> (client_ring option \<times> client_ctl) res" where
  "prepare_attach c =
     (let attach = c\<lparr> cl_sink := ClAttached (chan_new DEFAULT_BUFFER), cl_stats := set_occupancy 0 (cl_stats c) \<rparr>
      in case cl_sink c of
           ClAttached tx \<Rightarrow> (if \<not> ch_closed tx then Inl EventsAlreadyTaken else Inr (None, attach))
         | ClDetached ring \<Rightarrow> Inr (Some ring, attach))"

definition ring_gap :: "seq \<times> instrument \<times> gap_span \<times> provider_id \<Rightarrow> market_event" where
  "ring_gap = (\<lambda>(first_seq, i, span, p).
     Control \<lparr> c_source_ts = from_source_ts span, c_rx_ts = from_source_ts span, c_seq = first_seq,
               c_kind = Gap p i span \<rparr>)"

definition flush_ring ::
  "((instrument \<times> dropped_span) list \<Rightarrow> (instrument \<times> dropped_span) list) \<Rightarrow> client_ring \<Rightarrow> client_ctl \<Rightarrow> client_ctl" where
  "flush_ring order ring c =
     (let (gaps, events) = client_ring_into_parts order ring;
          c' = foldl (\<lambda>d g. client_deliver (ring_gap g) (snd (snd (snd g))) d) c gaps
      in foldl (\<lambda>d (ev, p). client_deliver ev p d) c' events)"

definition client_closing :: "timestamp \<Rightarrow> timestamp \<Rightarrow> market_event" where
  "client_closing now now' =
     Control \<lparr> c_source_ts = now, c_rx_ts = now', c_seq = SYNTHETIC, c_kind = SessionClosing \<rparr>"

definition emit_session_closing :: "timestamp \<Rightarrow> timestamp \<Rightarrow> client_ctl \<Rightarrow> client_ctl" where
  "emit_session_closing now now' c = client_emit (client_closing now now') [] c"

definition subscription_changed ::
  "timestamp \<Rightarrow> timestamp \<Rightarrow> instrument \<Rightarrow> event_kind \<Rightarrow> provider_id \<Rightarrow> bool \<Rightarrow> market_event" where
  "subscription_changed now now' i k provider active =
     Control \<lparr> c_source_ts = now, c_rx_ts = now', c_seq = SYNTHETIC,
               c_kind = SubscriptionChanged provider i k active \<rparr>"

section \<open>Subscriptions\<close>

definition sync_subscriptions :: "client_ctl \<Rightarrow> client_ctl" where
  "sync_subscriptions c = c\<lparr> cl_stats := set_subscriptions (map fst (cl_entries c)) (cl_stats c) \<rparr>"

definition subscribe ::
  "instrument \<Rightarrow> event_kind \<Rightarrow> scope \<Rightarrow> persistence_options \<Rightarrow> (subscriber_id \<times> provider_id) res \<Rightarrow>
   client_ctl \<Rightarrow> unit res \<times> client_ctl" where
  "subscribe i k sc opts auth c =
     (if map_of (cl_entries c) (i, k) \<noteq> None then (Inl (DuplicateSubscription i k), c)
      else if sc \<noteq> LiveScope None then (Inl UnsupportedClientScope, c)
      else case auth of
        Inl e \<Rightarrow> (Inl e, c)
      | Inr (sid, provider) \<Rightarrow>
          (Inr (), sync_subscriptions
             (c\<lparr> cl_entries := AList.update (i, k) \<lparr> se_guard = sid, se_provider = provider \<rparr> (cl_entries c),
                 cl_streams := List.insert (i, k) (cl_streams c) \<rparr>)))"

text \<open>Remove an entry; dropping it drops its guard, which queues the removal.\<close>

definition drop_entry :: "sub_key \<Rightarrow> sub_entry \<Rightarrow> client_ctl \<Rightarrow> client_ctl" where
  "drop_entry key e c =
     c\<lparr> cl_entries := AList.delete key (cl_entries c), cl_removed := cl_removed c @ [(key, se_guard e)] \<rparr>"

definition unsubscribe ::
  "timestamp \<Rightarrow> timestamp \<Rightarrow> instrument \<Rightarrow> event_kind \<Rightarrow> client_ctl \<Rightarrow> unit res \<times> client_ctl" where
  "unsubscribe now now' i k c =
     (case map_of (cl_entries c) (i, k) of
        None \<Rightarrow> (Inl (NotSubscribed i k), c)
      | Some e \<Rightarrow>
          let c1 = drop_entry (i, k) e c;
              c2 = sync_subscriptions (c1\<lparr> cl_streams := remove1 (i, k) (cl_streams c1) \<rparr>)
          in (Inr (), client_emit (subscription_changed now now' i k (se_provider e) False) (se_provider e) c2))"

definition handle_substream_end :: "timestamp \<Rightarrow> timestamp \<Rightarrow> sub_key \<Rightarrow> client_ctl \<Rightarrow> client_ctl" where
  "handle_substream_end now now' key c =
     (case map_of (cl_entries c) key of
        None \<Rightarrow> c
      | Some e \<Rightarrow>
          client_emit (subscription_changed now now' (fst key) (snd key) (se_provider e) False) (se_provider e)
            (sync_subscriptions (drop_entry key e c)))"

section \<open>Routing\<close>

definition note_conn :: "provider_id \<Rightarrow> conn_state \<Rightarrow> client_ctl \<Rightarrow> bool \<times> client_ctl" where
  "note_conn provider new c =
     (if cl_seen_provider_state c provider = Some new then (False, c)
      else (True, c\<lparr> cl_seen_provider_state := (cl_seen_provider_state c)(provider \<mapsto> new) \<rparr>))"

definition duplicate_error :: "provider_id \<Rightarrow> string \<Rightarrow> client_ctl \<Rightarrow> bool \<times> client_ctl" where
  "duplicate_error provider message c =
     (if cl_last_provider_error c provider = Some message then (True, c)
      else (False, c\<lparr> cl_last_provider_error := (cl_last_provider_error c)(provider \<mapsto> message) \<rparr>))"

text \<open>Whether the coalescer lets an event through.\<close>

definition client_admit :: "market_event \<Rightarrow> client_ctl \<Rightarrow> bool \<times> client_ctl" where
  "client_admit ev c =
     (case ev of
        Control k \<Rightarrow>
          (case c_kind k of
             SessionClosing \<Rightarrow> (False, c)
           | ProviderConnected p \<Rightarrow> note_conn p ConnUp c
           | ProviderDisconnected p _ _ \<Rightarrow> note_conn p ConnDown c
           | ProviderError p m \<Rightarrow> (case duplicate_error p m c of (dup, c') \<Rightarrow> (\<not> dup, c'))
           | SubscriptionChanged _ _ _ _ \<Rightarrow> (True, c)
           | Gap _ _ _ \<Rightarrow> (True, c))
      | _ \<Rightarrow> (True, c))"

definition client_route :: "sub_key \<Rightarrow> market_event \<Rightarrow> client_ctl \<Rightarrow> client_ctl" where
  "client_route key ev c =
     (let ring_provider = (case map_of (cl_entries c) key of
                             None \<Rightarrow> i_provider (fst key)
                           | Some e \<Rightarrow> se_provider e)
      in case client_admit ev c of
           (False, c') \<Rightarrow> c'
         | (True, c') \<Rightarrow> client_emit ev ring_provider c')"

section \<open>Commands and the loop\<close>

definition client_handle_command ::
  "((instrument \<times> dropped_span) list \<Rightarrow> (instrument \<times> dropped_span) list) \<Rightarrow> client_command \<Rightarrow> client_ctl \<Rightarrow>
   bool \<times> client_reply \<times> client_ctl" where
  "client_handle_command order cmd c =
     (case cmd of
        CcSubscribe i k sc opts auth \<Rightarrow> (case subscribe i k sc opts auth c of (r, c') \<Rightarrow> (True, RpSubscribe r, c'))
      | CcUnsubscribe i k now now' \<Rightarrow> (case unsubscribe now now' i k c of (r, c') \<Rightarrow> (True, RpUnsubscribe r, c'))
      | CcTake \<Rightarrow>
          (case prepare_attach c of
             Inl e \<Rightarrow> (True, RpTake (Inl e), c)
           | Inr (prior, c') \<Rightarrow>
               (True, RpTake (Inr ()), case prior of Some ring \<Rightarrow> flush_ring order ring c' | None \<Rightarrow> c'))
      | CcSubscriptions \<Rightarrow> (True, RpSubscriptions (map fst (cl_entries c)), c)
      | CcClose now now' \<Rightarrow> (False, RpClosed, emit_session_closing now now' c))"

datatype client_in =
    CiEvent sub_key market_event
  | CiEnded sub_key timestamp timestamp
  | CiCommand client_command
  | CiHandleDropped timestamp timestamp
  | CiConsumerDrop

text \<open>
  When the loop has ended, dropping the remaining entries releases their guards.
\<close>

definition release_all :: "client_ctl \<Rightarrow> client_ctl" where
  "release_all c =
     c\<lparr> cl_entries := [], cl_streams := [],
        cl_removed := cl_removed c @ map (\<lambda>(key, e). (key, se_guard e)) (cl_entries c) \<rparr>"

text \<open>
  One input of the select loop; \<open>False\<close> when the controller exits. A message can only come
  from a substream in the map, and the map forgets a substream that ended. Dropping the
  consumer's stream closes its channel.
\<close>

definition client_step ::
  "((instrument \<times> dropped_span) list \<Rightarrow> (instrument \<times> dropped_span) list) \<Rightarrow> client_in \<Rightarrow> client_ctl \<Rightarrow>
   bool \<times> client_ctl" where
  "client_step order inp c =
     (case inp of
        CiEvent key ev \<Rightarrow> (True, if key \<in> set (cl_streams c) then client_route key ev c else c)
      | CiEnded key now now' \<Rightarrow>
          (True, if key \<in> set (cl_streams c)
                 then handle_substream_end now now' key (c\<lparr> cl_streams := remove1 key (cl_streams c) \<rparr>) else c)
      | CiCommand cmd \<Rightarrow> (case client_handle_command order cmd c of (go, _, c') \<Rightarrow> (go, c'))
      | CiHandleDropped now now' \<Rightarrow> (False, emit_session_closing now now' c)
      | CiConsumerDrop \<Rightarrow>
          (True, case cl_sink c of
                   ClAttached tx \<Rightarrow> c\<lparr> cl_sink := ClAttached (tx\<lparr> ch_closed := True \<rparr>) \<rparr>
                 | ClDetached _ \<Rightarrow> c))"

fun client_run ::
  "((instrument \<times> dropped_span) list \<Rightarrow> (instrument \<times> dropped_span) list) \<Rightarrow> client_in list \<Rightarrow> client_ctl \<Rightarrow>
   bool \<times> client_ctl" where
  "client_run order [] c = (False, c)"
| "client_run order (inp # ins) c =
     (case client_step order inp c of
        (True, c') \<Rightarrow> client_run order ins c'
      | (False, c') \<Rightarrow> (True, release_all c'))"

text \<open>\<^verbatim>\<open>spawn_client\<close>, with its optional seed subscription.\<close>

definition spawn_client :: "u64 \<Rightarrow> nat \<Rightarrow> (sub_key \<times> subscriber_id \<times> provider_id) option \<Rightarrow> client_ctl" where
  "spawn_client cid ring_capacity seed =
     (let entries = (case seed of
                       None \<Rightarrow> []
                     | Some (key, sid, p) \<Rightarrow> [(key, \<lparr> se_guard = sid, se_provider = p \<rparr>)])
      in \<lparr> cl_streams = map fst entries, cl_entries = entries,
           cl_sink = ClDetached (client_ring_new ring_capacity), cl_ring_capacity = ring_capacity,
           cl_seen_provider_state = Map.empty, cl_last_provider_error = Map.empty,
           cl_stats = set_subscriptions (map fst entries) (client_stats_new cid ring_capacity),
           cl_removed = [], cl_trace = [], cl_visible = [] \<rparr>)"

section \<open>What an operation leaves alone\<close>

lemma client_deliver_fields [simp]:
  "cl_streams (client_deliver ev p c) = cl_streams c" "cl_entries (client_deliver ev p c) = cl_entries c"
  "cl_seen_provider_state (client_deliver ev p c) = cl_seen_provider_state c"
  "cl_removed (client_deliver ev p c) = cl_removed c" "cl_trace (client_deliver ev p c) = cl_trace c"
  "cs_subscriptions (cl_stats (client_deliver ev p c)) = cs_subscriptions (cl_stats c)"
  by (simp_all add: client_deliver_def record_drops_def set_occupancy_def Let_def
      split: client_sink.splits option.splits prod.splits)

lemma client_emit_fields [simp]:
  "cl_streams (client_emit ev p c) = cl_streams c" "cl_entries (client_emit ev p c) = cl_entries c"
  "cl_seen_provider_state (client_emit ev p c) = cl_seen_provider_state c"
  "cl_removed (client_emit ev p c) = cl_removed c" "cl_trace (client_emit ev p c) = cl_trace c @ [ev]"
  "cs_subscriptions (cl_stats (client_emit ev p c)) = cs_subscriptions (cl_stats c)"
  by (simp_all add: client_emit_def)

text \<open>\<open>same_mux c c'\<close>: the multiplex state, everything but the sink and the counters, is kept.\<close>

definition same_mux :: "client_ctl \<Rightarrow> client_ctl \<Rightarrow> bool" where
  "same_mux c c' \<longleftrightarrow> cl_streams c' = cl_streams c \<and> cl_entries c' = cl_entries c \<and>
     cl_seen_provider_state c' = cl_seen_provider_state c \<and> cl_removed c' = cl_removed c \<and>
     cl_trace c' = cl_trace c \<and> cs_subscriptions (cl_stats c') = cs_subscriptions (cl_stats c)"

lemma same_mux_refl [simp]: "same_mux c c"
  by (simp add: same_mux_def)

lemma same_mux_trans: "same_mux a b \<Longrightarrow> same_mux b c \<Longrightarrow> same_mux a c"
  by (simp add: same_mux_def)

lemma same_mux_delivers: "same_mux c (foldl (\<lambda>d x. client_deliver (f x) (g x) d) c xs)"
proof (induction xs arbitrary: c)
  case (Cons x xs)
  have "same_mux c (client_deliver (f x) (g x) c)" by (simp add: same_mux_def)
  then show ?case using same_mux_trans [OF _ Cons.IH] by simp
qed simp

lemma same_mux_flush: "same_mux c (flush_ring order ring c)"
proof -
  obtain gaps events where p: "client_ring_into_parts order ring = (gaps, events)" by fastforce
  have "same_mux c (foldl (\<lambda>d g. client_deliver (ring_gap g) (snd (snd (snd g))) d) c gaps)"
    by (rule same_mux_delivers)
  moreover have "same_mux d (foldl (\<lambda>d (ev, p). client_deliver ev p d) d events)" for d
    using same_mux_delivers [of d fst snd events] by (simp add: case_prod_unfold)
  ultimately show ?thesis unfolding flush_ring_def p Let_def prod.case by (rule same_mux_trans)
qed

lemma same_mux_take:
  assumes "client_handle_command order CcTake c = (go, reply, c')"
  shows "same_mux c c'"
proof -
  have "same_mux c (c\<lparr> cl_sink := s, cl_stats := set_occupancy n (cl_stats c) \<rparr>)" for s n
    by (simp add: same_mux_def set_occupancy_def)
  then show ?thesis
    using assms same_mux_trans [OF _ same_mux_flush]
    by (fastforce simp: client_handle_command_def prepare_attach_def Let_def
        split: sum.splits option.splits prod.splits client_sink.splits if_splits)
qed

lemma client_admit_fields:
  assumes "client_admit ev c = (ok, c')"
  shows "cl_streams c' = cl_streams c" "cl_entries c' = cl_entries c" "cl_removed c' = cl_removed c"
    "cl_trace c' = cl_trace c" "cl_stats c' = cl_stats c"
  using assms
  by (auto simp: client_admit_def note_conn_def duplicate_error_def
      split: market_event.splits control_kind.splits if_splits)

section \<open>Client invariants\<close>

text \<open>
  An invariant of the multiplex depends on the multiplex state only and survives an admitted
  or refused event, a subscribe, a removal with its control, and the closing control.
\<close>

definition with_entry :: "sub_key \<Rightarrow> subscriber_id \<Rightarrow> provider_id \<Rightarrow> client_ctl \<Rightarrow> client_ctl" where
  "with_entry key sid p c =
     sync_subscriptions
       (c\<lparr> cl_entries := AList.update key \<lparr> se_guard = sid, se_provider = p \<rparr> (cl_entries c),
           cl_streams := List.insert key (cl_streams c) \<rparr>)"

definition without_entry :: "sub_key \<Rightarrow> sub_entry \<Rightarrow> client_ctl \<Rightarrow> client_ctl" where
  "without_entry key e c =
     sync_subscriptions ((drop_entry key e c)\<lparr> cl_streams := remove1 key (cl_streams c) \<rparr>)"

locale client_invariant =
  fixes I :: "client_ctl \<Rightarrow> bool"
  assumes inv_mux: "same_mux c c' \<Longrightarrow> I c \<Longrightarrow> I c'"
    and inv_admit: "client_admit ev c = (ok, c') \<Longrightarrow> I c \<Longrightarrow>
       I (if ok then c'\<lparr> cl_trace := cl_trace c' @ [ev] \<rparr> else c')"
    and inv_add: "map_of (cl_entries c) key = None \<Longrightarrow> I c \<Longrightarrow> I (with_entry key sid p c)"
    and inv_remove: "map_of (cl_entries c) key = Some e \<Longrightarrow> I c \<Longrightarrow>
       I ((without_entry key e c)\<lparr> cl_trace := cl_trace c @ [subscription_changed n n' (fst key) (snd key) q False] \<rparr>)"
    and inv_forget: "map_of (cl_entries c) key = None \<Longrightarrow> I c \<Longrightarrow> I (c\<lparr> cl_streams := remove1 key (cl_streams c) \<rparr>)"
begin

lemma emit_iff: "I (client_emit ev p c) \<longleftrightarrow> I (c\<lparr> cl_trace := cl_trace c @ [ev] \<rparr>)"
proof -
  have "same_mux (client_emit ev p c) (c\<lparr> cl_trace := cl_trace c @ [ev] \<rparr>)"
    "same_mux (c\<lparr> cl_trace := cl_trace c @ [ev] \<rparr>) (client_emit ev p c)"
    by (simp_all add: same_mux_def)
  then show ?thesis using inv_mux by blast
qed

lemma route_inv: "I c \<Longrightarrow> I (client_route key ev c)"
  using inv_admit [of ev c]
  by (auto simp: client_route_def Let_def emit_iff split: prod.splits bool.splits)

lemma end_inv:
  assumes "I c"
  shows "I (handle_substream_end n n' key (c\<lparr> cl_streams := remove1 key (cl_streams c) \<rparr>))"
proof (cases "map_of (cl_entries c) key")
  case None
  then show ?thesis using inv_forget assms by (simp add: handle_substream_end_def)
next
  case (Some e)
  have "sync_subscriptions (drop_entry key e (c\<lparr> cl_streams := remove1 key (cl_streams c) \<rparr>)) = without_entry key e c"
    by (simp add: without_entry_def sync_subscriptions_def drop_entry_def)
  moreover have "cl_trace (without_entry key e c) = cl_trace c"
    by (simp add: without_entry_def sync_subscriptions_def drop_entry_def)
  ultimately show ?thesis
    using inv_remove [OF Some assms] Some by (simp add: handle_substream_end_def emit_iff)
qed

lemma unsubscribe_inv: "I c \<Longrightarrow> I (snd (unsubscribe n n' i k c))"
proof (cases "map_of (cl_entries c) (i, k)")
  case (Some e)
  have "cl_trace (without_entry (i, k) e c) = cl_trace c"
    "sync_subscriptions ((drop_entry (i, k) e c)\<lparr> cl_streams := remove1 (i, k) (cl_streams (drop_entry (i, k) e c)) \<rparr>)
       = without_entry (i, k) e c"
    by (simp_all add: without_entry_def sync_subscriptions_def drop_entry_def)
  then show "I c \<Longrightarrow> ?thesis"
    using inv_remove [OF Some] Some by (simp add: unsubscribe_def emit_iff Let_def)
qed (simp add: unsubscribe_def)

lemma subscribe_inv: "I c \<Longrightarrow> I (snd (subscribe i k sc opts auth c))"
  using inv_add by (auto simp: subscribe_def with_entry_def split: sum.splits)

text \<open>Every step that keeps the controller running keeps the invariant.\<close>

lemma step_inv:
  assumes "client_step order inp c = (True, c')" "I c"
  shows "I c'"
proof (cases inp)
  case (CiEvent key ev)
  then show ?thesis using assms route_inv [of c key ev] by (auto simp: client_step_def)
next
  case (CiEnded key n n')
  then show ?thesis using assms end_inv [of c n n' key] by (auto simp: client_step_def)
next
  case (CiCommand cmd)
  obtain r where h: "client_handle_command order cmd c = (True, r, c')"
    using assms(1) CiCommand by (auto simp: client_step_def split: prod.splits)
  show ?thesis
  proof (cases cmd)
    case (CcSubscribe i k sc opts auth)
    then show ?thesis
      using h subscribe_inv [OF assms(2), of i k sc opts auth]
      by (auto simp: client_handle_command_def split: prod.splits)
  next
    case (CcUnsubscribe i k n n')
    then show ?thesis
      using h unsubscribe_inv [OF assms(2), of n n' i k]
      by (auto simp: client_handle_command_def split: prod.splits)
  next
    case CcTake
    then show ?thesis using h same_mux_take inv_mux assms(2) by blast
  qed (use h assms(2) in \<open>auto simp: client_handle_command_def\<close>)
next
  case CiConsumerDrop
  have "same_mux c c'"
    using assms(1) CiConsumerDrop by (auto simp: client_step_def same_mux_def split: client_sink.splits)
  then show ?thesis using inv_mux assms(2) by blast
qed (use assms in \<open>auto simp: client_step_def\<close>)

lemma step_exit:
  assumes "client_step order inp c = (False, c')"
  shows "\<exists>n n'. c' = emit_session_closing n n' c"
  using assms
  by (auto simp: client_step_def client_handle_command_def
      split: client_in.splits client_command.splits prod.splits sum.splits)

text \<open>A run that is still going satisfies it; one that ended did before its last control.\<close>

lemma run_inv:
  "client_run order ins c = (ended, c') \<Longrightarrow> I c \<Longrightarrow>
   (if ended then \<exists>d n n'. I d \<and> c' = release_all (emit_session_closing n n' d) else I c')"
proof (induction ins arbitrary: c)
  case (Cons inp ins)
  obtain go d where st: "client_step order inp c = (go, d)" by fastforce
  show ?case
  proof (cases go)
    case True
    then show ?thesis using Cons.IH [of d] Cons.prems st step_inv [of order inp c d] by simp
  next
    case False
    then show ?thesis using Cons.prems st step_exit [of order inp c d] by auto
  qed
qed auto

end

section \<open>The invariants of the multiplex\<close>

text \<open>The subscription set, the substream map and the mirrored list agree.\<close>

definition wired :: "client_ctl \<Rightarrow> bool" where
  "wired c \<longleftrightarrow> distinct (map fst (cl_entries c)) \<and> distinct (cl_streams c) \<and>
     fst ` set (cl_entries c) \<subseteq> set (cl_streams c) \<and>
     cs_subscriptions (cl_stats c) = map fst (cl_entries c)"

text \<open>The connection-scoped controls of one provider, as transitions.\<close>

definition conn_of :: "provider_id \<Rightarrow> market_event \<Rightarrow> conn_state option" where
  "conn_of p ev =
     (case ev of
        Control k \<Rightarrow>
          (case c_kind k of
             ProviderConnected q \<Rightarrow> (if q = p then Some ConnUp else None)
           | ProviderDisconnected q _ _ \<Rightarrow> (if q = p then Some ConnDown else None)
           | _ \<Rightarrow> None)
      | _ \<Rightarrow> None)"

definition conn_log :: "provider_id \<Rightarrow> market_event list \<Rightarrow> conn_state list" where
  "conn_log p evs = List.map_filter (conn_of p) evs"

definition coalesced :: "provider_id \<Rightarrow> client_ctl \<Rightarrow> bool" where
  "coalesced p c \<longleftrightarrow> successively (\<noteq>) (conn_log p (cl_trace c)) \<and>
     cl_seen_provider_state c p = (if conn_log p (cl_trace c) = [] then None else Some (last (conn_log p (cl_trace c))))"

definition is_closing :: "market_event \<Rightarrow> bool" where
  "is_closing ev = (case ev of Control k \<Rightarrow> c_kind k = SessionClosing | _ \<Rightarrow> False)"

lemma conn_log_snoc:
  "conn_log p (evs @ [ev]) = conn_log p evs @ (case conn_of p ev of None \<Rightarrow> [] | Some s \<Rightarrow> [s])"
  by (simp add: conn_log_def List.map_filter_def split: option.splits)

lemma conn_of_changed [simp]: "conn_of p (subscription_changed n n' i k q a) = None"
  by (simp add: conn_of_def subscription_changed_def)

lemma fst_set_delete: "fst ` set (AList.delete k xs) = fst ` set xs - {k}"
  by (induction xs) auto

interpretation wiring: client_invariant wired
proof
  fix c c' ev ok key sid p e n n' q
  show "same_mux c c' \<Longrightarrow> wired c \<Longrightarrow> wired c'" by (simp add: same_mux_def wired_def)
  show "client_admit ev c = (ok, c') \<Longrightarrow> wired c \<Longrightarrow>
      wired (if ok then c'\<lparr> cl_trace := cl_trace c' @ [ev] \<rparr> else c')"
    using client_admit_fields by (simp add: wired_def)
  show "map_of (cl_entries c) key = None \<Longrightarrow> wired c \<Longrightarrow> wired (with_entry key sid p c)"
    by (simp add: wired_def with_entry_def sync_subscriptions_def set_subscriptions_def distinct_update dom_update)
       blast
  show "map_of (cl_entries c) key = Some e \<Longrightarrow> wired c \<Longrightarrow>
      wired ((without_entry key e c)\<lparr> cl_trace := cl_trace c @ [subscription_changed n n' (fst key) (snd key) q False] \<rparr>)"
    by (simp add: wired_def without_entry_def drop_entry_def sync_subscriptions_def set_subscriptions_def
        fst_set_delete distinct_delete) blast
  show "map_of (cl_entries c) key = None \<Longrightarrow> wired c \<Longrightarrow> wired (c\<lparr> cl_streams := remove1 key (cl_streams c) \<rparr>)"
    by (auto simp: wired_def map_of_eq_None_iff)
qed

interpretation coalescing: client_invariant "coalesced p0"
proof
  fix c c' ev ok key sid p e n n' q
  show "same_mux c c' \<Longrightarrow> coalesced p0 c \<Longrightarrow> coalesced p0 c'" by (simp add: same_mux_def coalesced_def)
  show "client_admit ev c = (ok, c') \<Longrightarrow> coalesced p0 c \<Longrightarrow>
      coalesced p0 (if ok then c'\<lparr> cl_trace := cl_trace c' @ [ev] \<rparr> else c')"
    by (auto simp: coalesced_def client_admit_def note_conn_def duplicate_error_def conn_log_snoc conn_of_def
        successively_append_iff
        split: market_event.splits control_kind.splits if_splits)
  show "map_of (cl_entries c) key = None \<Longrightarrow> coalesced p0 c \<Longrightarrow> coalesced p0 (with_entry key sid p c)"
    by (simp add: coalesced_def with_entry_def sync_subscriptions_def)
  show "map_of (cl_entries c) key = Some e \<Longrightarrow> coalesced p0 c \<Longrightarrow>
      coalesced p0 ((without_entry key e c)\<lparr> cl_trace := cl_trace c @ [subscription_changed n n' (fst key) (snd key) q False] \<rparr>)"
    by (simp add: coalesced_def without_entry_def drop_entry_def sync_subscriptions_def conn_log_snoc)
  show "map_of (cl_entries c) key = None \<Longrightarrow> coalesced p0 c \<Longrightarrow> coalesced p0 (c\<lparr> cl_streams := remove1 key (cl_streams c) \<rparr>)"
    by (simp add: coalesced_def)
qed

interpretation unclosed: client_invariant "\<lambda>c. filter is_closing (cl_trace c) = []"
proof
  fix c c' ev ok key sid p e n n' q
  let ?I = "\<lambda>c. filter is_closing (cl_trace c) = []"
  show "same_mux c c' \<Longrightarrow> ?I c \<Longrightarrow> ?I c'" by (simp add: same_mux_def)
  show "client_admit ev c = (ok, c') \<Longrightarrow> ?I c \<Longrightarrow> ?I (if ok then c'\<lparr> cl_trace := cl_trace c' @ [ev] \<rparr> else c')"
    by (auto simp: client_admit_def note_conn_def duplicate_error_def is_closing_def
        split: market_event.splits control_kind.splits if_splits)
  show "map_of (cl_entries c) key = None \<Longrightarrow> ?I c \<Longrightarrow> ?I (with_entry key sid p c)"
    by (simp add: with_entry_def sync_subscriptions_def)
  show "map_of (cl_entries c) key = Some e \<Longrightarrow> ?I c \<Longrightarrow>
      ?I ((without_entry key e c)\<lparr> cl_trace := cl_trace c @ [subscription_changed n n' (fst key) (snd key) q False] \<rparr>)"
    by (simp add: is_closing_def subscription_changed_def)
  show "map_of (cl_entries c) key = None \<Longrightarrow> ?I c \<Longrightarrow> ?I (c\<lparr> cl_streams := remove1 key (cl_streams c) \<rparr>)"
    by simp
qed

section \<open>Guards are released once\<close>

text \<open>The guards a run obtained, in order, and the ones still held.\<close>

definition granted_by :: "client_in \<Rightarrow> client_ctl \<Rightarrow> (sub_key \<times> subscriber_id) list" where
  "granted_by inp c =
     (case inp of
        CiCommand (CcSubscribe i k sc opts (Inr (sid, p))) \<Rightarrow>
          (if fst (subscribe i k sc opts (Inr (sid, p)) c) = Inr () then [((i, k), sid)] else [])
      | _ \<Rightarrow> [])"

fun granted ::
  "((instrument \<times> dropped_span) list \<Rightarrow> (instrument \<times> dropped_span) list) \<Rightarrow> client_in list \<Rightarrow> client_ctl \<Rightarrow>
   (sub_key \<times> subscriber_id) list" where
  "granted order [] c = []"
| "granted order (inp # ins) c =
     granted_by inp c @ (case client_step order inp c of (True, c') \<Rightarrow> granted order ins c' | (False, _) \<Rightarrow> [])"

definition held :: "client_ctl \<Rightarrow> (sub_key \<times> subscriber_id) list" where
  "held c = map (\<lambda>(key, e). (key, se_guard e)) (cl_entries c)"

abbreviation ledger :: "client_ctl \<Rightarrow> (sub_key \<times> subscriber_id) multiset" where
  "ledger c \<equiv> mset (cl_removed c) + mset (held c)"

lemma ledger_mux: "same_mux c c' \<Longrightarrow> ledger c' = ledger c"
  by (simp add: same_mux_def held_def)

lemma mset_delete:
  "distinct (map fst xs) \<Longrightarrow> map_of xs k = Some e \<Longrightarrow> mset xs = add_mset (k, e) (mset (AList.delete k xs))"
proof (induction xs)
  case (Cons x xs)
  obtain k' e' where x: "x = (k', e')" by fastforce
  show ?case
  proof (cases "k' = k")
    case True
    then have "AList.delete k xs = xs" using Cons.prems(1) x by (simp add: delete_idem)
    then show ?thesis using True Cons.prems(2) x by simp
  next
    case False
    then show ?thesis using Cons.IH Cons.prems x by (simp only: list.map distinct.simps map_of.simps) simp
  qed
qed simp

lemma update_fresh: "map_of xs k = None \<Longrightarrow> AList.update k v xs = xs @ [(k, v)]"
  by (induction xs) (auto split: if_splits)

lemma ledger_subscribe:
  "ledger (snd (subscribe i k sc opts auth c)) =
     mset (granted_by (CiCommand (CcSubscribe i k sc opts auth)) c) + ledger c"
  by (auto simp: subscribe_def granted_by_def sync_subscriptions_def held_def update_fresh
      split: sum.splits prod.splits)

lemma ledger_drop:
  assumes "wired c" "map_of (cl_entries c) key = Some e"
  shows "ledger (drop_entry key e c) = ledger c"
proof -
  have "mset (cl_entries c) = add_mset (key, e) (mset (AList.delete key (cl_entries c)))"
    using mset_delete [OF _ assms(2)] assms(1) unfolding wired_def by blast
  then have "mset (held c) = add_mset (key, se_guard e) (mset (held (drop_entry key e c)))"
    by (simp add: held_def drop_entry_def)
  then show ?thesis by (simp add: drop_entry_def held_def)
qed

lemma ledger_fields [simp]:
  "held (client_emit ev p c) = held c" "held (sync_subscriptions c) = held c"
  "cl_removed (sync_subscriptions c) = cl_removed c" "held (c\<lparr> cl_streams := ss \<rparr>) = held c"
  by (simp_all add: held_def sync_subscriptions_def)

lemma ledger_step:
  assumes "client_step order inp c = (go, c')" "wired c"
  shows "ledger c' = mset (granted_by inp c) + ledger c"
proof (cases inp)
  case (CiEvent key ev)
  obtain ok d where ad: "client_admit ev c = (ok, d)" by fastforce
  have "ledger (client_route key ev c) = ledger c"
    using client_admit_fields(2,3) [OF ad] by (cases ok) (simp_all add: client_route_def ad held_def Let_def)
  then show ?thesis using assms CiEvent by (auto simp: client_step_def granted_by_def)
next
  case (CiEnded key n n')
  have w: "map_of (cl_entries c) key = Some e \<Longrightarrow>
      ledger (drop_entry key e (c\<lparr> cl_streams := remove1 key (cl_streams c) \<rparr>)) = ledger c" for e
    using ledger_drop [OF assms(2)] by (simp add: drop_entry_def held_def)
  show ?thesis
    using assms CiEnded w
    by (auto simp: client_step_def granted_by_def handle_substream_end_def split: option.splits if_splits)
next
  case (CiCommand cmd)
  obtain r where h: "client_handle_command order cmd c = (go, r, c')"
    using assms(1) CiCommand by (auto simp: client_step_def split: prod.splits)
  show ?thesis
  proof (cases cmd)
    case (CcSubscribe i k sc opts auth)
    then show ?thesis
      using h ledger_subscribe [of i k sc opts auth c] CiCommand
      by (auto simp: client_handle_command_def split: prod.splits)
  next
    case (CcUnsubscribe i k n n')
    then show ?thesis
      using h CiCommand ledger_drop [OF assms(2), of "(i, k)"]
      by (auto simp: client_handle_command_def unsubscribe_def granted_by_def Let_def split: prod.splits option.splits)
  next
    case CcTake
    then have "same_mux c c'" using h same_mux_take by blast
    then show ?thesis using ledger_mux CiCommand CcTake by (simp add: granted_by_def)
  next
    case CcSubscriptions
    then show ?thesis using h CiCommand by (simp add: client_handle_command_def granted_by_def)
  next
    case (CcClose n n')
    then show ?thesis using h CiCommand by (auto simp: client_handle_command_def granted_by_def emit_session_closing_def)
  qed
next
  case (CiHandleDropped n n')
  then show ?thesis using assms(1) by (auto simp: client_step_def granted_by_def emit_session_closing_def)
next
  case CiConsumerDrop
  then show ?thesis
    using assms(1) by (auto simp: client_step_def granted_by_def held_def split: client_sink.splits)
qed

lemma ledger_run:
  "client_run order ins c = (ended, c') \<Longrightarrow> wired c \<Longrightarrow> ledger c' = mset (granted order ins c) + ledger c"
proof (induction ins arbitrary: c)
  case (Cons inp ins)
  obtain go d where st: "client_step order inp c = (go, d)" by fastforce
  note l = ledger_step [OF st Cons.prems(2)]
  show ?case
  proof (cases go)
    case True
    then have "wired d" using wiring.step_inv [of order inp c d] st Cons.prems(2) by simp
    then show ?thesis using Cons.IH [of d] Cons.prems(1) st l True by simp
  next
    case False
    have "ledger (release_all d) = ledger d" by (simp add: release_all_def held_def)
    then show ?thesis using Cons.prems(1) st l False by simp
  qed
qed simp

section \<open>Resuming a detached consumer\<close>

lemma deliver_attached:
  "cl_sink c = ClAttached tx \<Longrightarrow> \<not> ch_closed tx \<Longrightarrow>
   client_deliver ev p c =
     c\<lparr> cl_sink := ClAttached (tx\<lparr> ch_queue := ch_queue tx @ [ev] \<rparr>), cl_visible := cl_visible c @ [ev] \<rparr>"
  by (simp add: client_deliver_def publish_def)

lemma delivers_attached:
  assumes "cl_sink c = ClAttached tx" "\<not> ch_closed tx"
  shows "\<exists>tx'. cl_sink (foldl (\<lambda>d x. client_deliver (f x) (g x) d) c xs) = ClAttached tx' \<and> \<not> ch_closed tx' \<and>
    ch_queue tx' = ch_queue tx @ map f xs \<and>
    cl_visible (foldl (\<lambda>d x. client_deliver (f x) (g x) d) c xs) = cl_visible c @ map f xs"
  using assms
proof (induction xs arbitrary: c tx)
  case (Cons x xs)
  let ?tx = "tx\<lparr> ch_queue := ch_queue tx @ [f x] \<rparr>"
  let ?c = "c\<lparr> cl_sink := ClAttached ?tx, cl_visible := cl_visible c @ [f x] \<rparr>"
  have "client_deliver (f x) (g x) c = ?c" using deliver_attached Cons.prems by simp
  then show ?case using Cons.IH [of ?c ?tx] Cons.prems by simp
qed simp

lemma flush_visible:
  assumes "cl_sink c = ClAttached tx" "\<not> ch_closed tx"
  shows "cl_visible (flush_ring order ring c) =
    cl_visible c @ map ring_gap (fst (client_ring_into_parts order ring)) @ map fst (cr_buf ring)"
proof -
  let ?gaps = "fst (client_ring_into_parts order ring)"
  let ?c1 = "foldl (\<lambda>d g. client_deliver (ring_gap g) (snd (snd (snd g))) d) c ?gaps"
  obtain tx1 where tx1: "cl_sink ?c1 = ClAttached tx1" "\<not> ch_closed tx1"
    and v1: "cl_visible ?c1 = cl_visible c @ map ring_gap ?gaps"
    using delivers_attached [OF assms, of ring_gap "\<lambda>g. snd (snd (snd g))" ?gaps] by blast
  have "cl_visible (foldl (\<lambda>d x. client_deliver (fst x) (snd x) d) ?c1 (cr_buf ring)) =
      cl_visible ?c1 @ map fst (cr_buf ring)"
    using delivers_attached [OF tx1, of fst snd "cr_buf ring"] by blast
  then have "cl_visible (foldl (\<lambda>d (ev, p). client_deliver ev p d) ?c1 (cr_buf ring)) =
      cl_visible c @ map ring_gap ?gaps @ map fst (cr_buf ring)"
    by (simp add: v1 case_prod_unfold)
  moreover have "client_ring_into_parts order ring = (?gaps, cr_buf ring)"
    by (simp add: client_ring_into_parts_def)
  ultimately show ?thesis unfolding flush_ring_def Let_def by (metis (no_types, lifting) case_prod_conv)
qed

lemma deliver_detached:
  "cl_sink c = ClDetached r \<Longrightarrow> cl_sink (client_deliver ev p c) = ClDetached (client_push (ev, p) r)
     \<and> cl_visible (client_deliver ev p c) = cl_visible c"
  by (simp add: client_deliver_def client_push_def Let_def split: prod.splits)

lemma delivers_detached:
  "cl_sink c = ClDetached r \<Longrightarrow>
   cl_sink (foldl (\<lambda>d (ev, p). client_deliver ev p d) c evs) = ClDetached (fold client_push evs r)
   \<and> cl_visible (foldl (\<lambda>d (ev, p). client_deliver ev p d) c evs) = cl_visible c"
proof (induction evs arbitrary: c r)
  case (Cons e evs)
  then show ?case using deliver_detached [of c r "fst e" "snd e"] by (simp add: case_prod_unfold)
qed simp

text \<open>\<open>spans g i f t\<close>: the gap control \<open>g\<close> covers \<open>[f, t)\<close> of instrument \<open>i\<close>.\<close>

definition spans :: "market_event \<Rightarrow> instrument \<Rightarrow> timestamp \<Rightarrow> timestamp \<Rightarrow> bool" where
  "spans g i f t \<longleftrightarrow> (\<exists>p sp k. g = Control k \<and> c_kind k = Gap p i sp \<and> {f ..< t} \<subseteq> {from_source_ts sp ..< to_source_ts sp})"

lemma ring_gap_spans:
  assumes "\<And>xs. set (order xs) = set xs" "{f ..< t} \<subseteq> client_lost r i" "f < t"
  shows "\<exists>g \<in> set (map ring_gap (fst (client_ring_into_parts order r))). spans g i f t"
proof -
  obtain d where d: "map_of (cr_dropped r) i = Some d"
    and sub: "{f ..< t} \<subseteq> {from_source_ts (ds_span d) ..< to_source_ts (ds_span d)}"
    using assms(2,3) by (auto simp: client_lost_def span_opt_set_def split: option.splits)
  have "(i, d) \<in> set (order (cr_dropped r))" using map_of_SomeD [OF d] assms(1) by simp
  then have "(ds_first_seq d, i, ds_span d, ds_provider d) \<in> set (fst (client_ring_into_parts order r))"
    by (force simp: client_ring_into_parts_def)
  then show ?thesis using sub by (force simp: ring_gap_def spans_def)
qed

section \<open>Correctness of the client controller\<close>

lemma spawn_inv [simp]:
  "wired (spawn_client cid cap seed)" "coalesced p (spawn_client cid cap seed)"
  "cl_trace (spawn_client cid cap seed) = []"
  by (auto simp: wired_def coalesced_def spawn_client_def conn_log_def set_subscriptions_def Let_def
      List.map_filter_simps split: option.splits)


definition demo_conn :: "provider_id \<Rightarrow> market_event" where
  "demo_conn p = Control \<lparr> c_source_ts = 1, c_rx_ts = 1, c_seq = 0, c_kind = ProviderConnected p \<rparr>"

definition demo_client :: client_ctl where
  "demo_client = spawn_client 1 4 (Some ((demo_instrument, KTrade), 0, ''alpaca''))"

definition demo_client_ins :: "client_in list" where
  "demo_client_ins =
     [CiEvent (demo_instrument, KTrade) (demo_conn ''alpaca''), CiEvent (demo_instrument, KTrade) (demo_conn ''alpaca''),
      CiEvent (demo_instrument, KTrade) (demo_trade 5 1), CiCommand (CcClose 9 9)]"

lemma demo_client_ends: "\<exists>c'. client_run id demo_client_ins demo_client = (True, c')"
  by (simp add: demo_client_ins_def client_step_def client_handle_command_def split: prod.split)


text \<open>When a client's run has ended, every guard it was granted, the seed's included, has
  been released exactly once.\<close>

lemma guards_released_once:
  assumes "client_run order ins (spawn_client cid cap seed) = (True, c')"
  shows "mset (cl_removed c') =
           mset (granted order ins (spawn_client cid cap seed)) + mset (held (spawn_client cid cap seed))
    \<and> cl_entries c' = []"
proof -
  have "\<exists>d n n'. wired d \<and> c' = release_all (emit_session_closing n n' d)"
    using wiring.run_inv [OF assms] by simp
  then have e: "cl_entries c' = []" by (auto simp: release_all_def)
  then have "held c' = []" by (simp add: held_def)
  moreover have "cl_removed (spawn_client cid cap seed) = []" by (simp add: spawn_client_def Let_def)
  ultimately show ?thesis using ledger_run [OF assms] e by simp
qed

lemma guards_released_once_witness:
  "\<exists>c'. client_run id demo_client_ins demo_client = (True, c') \<and> mset (cl_removed c') = {#((demo_instrument, KTrade), 0)#}"
proof -
  obtain c' where r: "client_run id demo_client_ins demo_client = (True, c')" using demo_client_ends by blast
  have "granted id demo_client_ins demo_client = []"
    by (simp add: demo_client_ins_def granted_by_def client_step_def split: prod.split bool.split)
  moreover have "held demo_client = [((demo_instrument, KTrade), 0)]"
    by (simp add: held_def demo_client_def spawn_client_def)
  ultimately show ?thesis using r guards_released_once [OF r [unfolded demo_client_def]] by (auto simp: demo_client_def)
qed

text \<open>Resume. A consumer that let go of its stream and takes it again first gets one gap
  control per affected instrument, together covering whatever the resume ring evicted
  meanwhile, and then, in order, the newest events the ring could hold.\<close>

lemma resume_complete:
  assumes "\<And>xs. set (order xs) = set xs"
    and "cl_sink c = ClAttached tx" "ch_closed tx" "evs \<noteq> []"
    and "client_handle_command order CcTake (foldl (\<lambda>d (ev, p). client_deliver ev p d) c evs) = (go, reply, c')"
  shows "reply = RpTake (Inr ()) \<and>
    (\<exists>gaps. cl_visible c' = cl_visible c @ gaps @ map fst (drop (length evs - max (cl_ring_capacity c) 1) evs) \<and>
       (\<forall>(ev, p) \<in> set (take (length evs - max (cl_ring_capacity c) 1) evs).
          case client_drop_coords ev p of None \<Rightarrow> True
          | Some (i, f, t, _) \<Rightarrow> f < t \<longrightarrow> (\<exists>g \<in> set gaps. spans g i f t)))"
proof -
  obtain e es where evs: "evs = e # es" using assms(4) by (cases evs) auto
  let ?new = "client_ring_new (cl_ring_capacity c)"
  let ?ring = "fold client_push evs ?new"
  let ?n = "length evs - max (cl_ring_capacity c) 1"
  let ?c1 = "foldl (\<lambda>d (ev, p). client_deliver ev p d) c evs"
  have "cl_sink (client_deliver (fst e) (snd e) c) = ClDetached (client_push e ?new)
      \<and> cl_visible (client_deliver (fst e) (snd e) c) = cl_visible c"
    using assms(2,3) by (simp add: client_deliver_def publish_def client_push_def Let_def split: prod.splits)
  then have c1: "cl_sink ?c1 = ClDetached ?ring" "cl_visible ?c1 = cl_visible c"
    using delivers_detached [of "client_deliver (fst e) (snd e) c" "client_push e ?new" es] evs
    by (simp_all add: case_prod_unfold)
  let ?c2 = "?c1\<lparr> cl_sink := ClAttached (chan_new DEFAULT_BUFFER), cl_stats := set_occupancy 0 (cl_stats ?c1) \<rparr>"
  have r: "reply = RpTake (Inr ())" and c': "c' = flush_ring order ?ring ?c2"
    using assms(5) c1(1) by (simp_all add: client_handle_command_def prepare_attach_def)
  have ok: "client_ring_ok ?new" by (simp add: client_ring_ok_def client_ring_new_def)
  have buf: "cr_buf ?ring = drop ?n evs"
    using cr.pushes_suffix [OF ok, of evs] by (simp add: client_ring_new_def)
  let ?gaps = "map ring_gap (fst (client_ring_into_parts order ?ring))"
  have "cl_visible c' = cl_visible c @ ?gaps @ map fst (drop ?n evs)"
    using flush_visible [of ?c2 "chan_new DEFAULT_BUFFER" order ?ring] c1(2) buf
    by (simp add: c' chan_new_def)
  moreover have "\<exists>g \<in> set ?gaps. spans g i f t"
    if "(ev, p) \<in> set (take ?n evs)" "client_drop_coords ev p = Some (i, f, t, q)" "f < t" for ev p i f t q
  proof -
    have "{f ..< t} \<subseteq> client_lost ?ring i"
      using cr.pushes_accounted [OF ok, of "(ev, p)" evs i "{f ..< t}"] that
      by (simp add: client_ring_new_def client_coord_def)
    then show ?thesis using ring_gap_spans [OF assms(1)] that(3) by blast
  qed
  then have "\<forall>(ev, p) \<in> set (take ?n evs). case client_drop_coords ev p of None \<Rightarrow> True
      | Some (i, f, t, _) \<Rightarrow> f < t \<longrightarrow> (\<exists>g \<in> set ?gaps. spans g i f t)"
    by (auto split: option.split)
  ultimately show ?thesis using r by blast
qed

definition demo_detached :: client_ctl where
  "demo_detached = demo_client\<lparr> cl_ring_capacity := 1, cl_sink := ClAttached ((chan_new 1)\<lparr> ch_closed := True \<rparr>) \<rparr>"

lemma resume_complete_witness:
  "\<exists>go c' gaps. client_handle_command id CcTake
      (foldl (\<lambda>d (ev, p). client_deliver ev p d) demo_detached
         [(demo_trade 5 0, ''alpaca''), (demo_trade 6 1, ''alpaca'')]) = (go, RpTake (Inr ()), c')
     \<and> cl_visible c' = gaps @ [demo_trade 6 1] \<and> (\<exists>g \<in> set gaps. spans g demo_instrument 5 6)"
proof -
  let ?evs = "[(demo_trade 5 0, ''alpaca''), (demo_trade 6 1, ''alpaca'')]"
  let ?c = "foldl (\<lambda>d (ev, p). client_deliver ev p d) demo_detached ?evs"
  obtain go reply c' where h: "client_handle_command id CcTake ?c = (go, reply, c')"
    by (metis prod_cases3)
  have co: "client_drop_coords (demo_trade 5 0) ''alpaca'' = Some (demo_instrument, 5, 6, ''alpaca'')"
    by (simp add: client_drop_coords_def demo_trade_def data_source_ts_def demo_instrument_def instrument_new_def
        rust_int)
  have "reply = RpTake (Inr ()) \<and> (\<exists>gaps. cl_visible c' = cl_visible demo_detached @ gaps @ map fst (drop 1 ?evs) \<and>
      (\<forall>(ev, p) \<in> set (take 1 ?evs). case client_drop_coords ev p of None \<Rightarrow> True
          | Some (i, f, t, _) \<Rightarrow> f < t \<longrightarrow> (\<exists>g \<in> set gaps. spans g i f t)))"
    using resume_complete [OF _ _ _ _ h] by (simp add: demo_detached_def)
  moreover have "cl_visible demo_detached = []"
    by (simp add: demo_detached_def demo_client_def spawn_client_def)
  ultimately show ?thesis using h co by auto
qed

text \<open>A subscribe that is refused (a duplicate, a scope other than pure live, or an error of
  the authoritative open) changes nothing; an accepted one adds exactly its own key.\<close>

lemma subscribe_effect:
  "case subscribe i k sc opts auth c of
     (Inl e, c') \<Rightarrow> c' = c \<and>
       (e = DuplicateSubscription i k \<and> (i, k) \<in> fst ` set (cl_entries c)
        \<or> e = UnsupportedClientScope \<and> sc \<noteq> LiveScope None \<or> auth = Inl e)
   | (Inr _, c') \<Rightarrow> (i, k) \<notin> fst ` set (cl_entries c) \<and> sc = LiveScope None \<and>
       fst ` set (cl_entries c') = insert (i, k) (fst ` set (cl_entries c)) \<and> cl_trace c' = cl_trace c"
proof -
  consider e where "map_of (cl_entries c) (i, k) = Some e"
    | "map_of (cl_entries c) (i, k) = None" "sc \<noteq> LiveScope None"
    | e where "map_of (cl_entries c) (i, k) = None" "sc = LiveScope None" "auth = Inl e"
    | sid p where "map_of (cl_entries c) (i, k) = None" "sc = LiveScope None" "auth = Inr (sid, p)"
    by (metis not_None_eq obj_sumE surj_pair)
  then show ?thesis
  proof cases
    case (1 e)
    then have "(i, k) \<in> fst ` set (cl_entries c)" by (metis map_of_eq_None_iff option.distinct(1))
    then show ?thesis using 1 by (simp add: subscribe_def)
  next
    case (4 sid p)
    then have "(i, k) \<notin> fst ` set (cl_entries c)" by (simp add: map_of_eq_None_iff)
    then show ?thesis using 4 by (simp add: subscribe_def sync_subscriptions_def dom_update)
  qed (simp_all add: subscribe_def)
qed

end
