(* ===== verification/Registry.thy ===== *)
theory Registry
  imports Client_Mux
begin

text \<open>
  The live-session registry of \<^verbatim>\<open>session.rs\<close> and \<^verbatim>\<open>AuthoritativeSession\<close> of \<^verbatim>\<open>client.rs\<close>: at
  most one authoritative session per \<open>(instrument, kind)\<close>, shared by reference counting. An
  \<^verbatim>\<open>Arc\<close> allocation is an entry of a store with its strong count; the registry's \<^verbatim>\<open>Weak\<close> is
  the allocation's address, and upgrading it succeeds while the count is positive. The step
  relation interleaves the critical sections of any number of openers, handle drops and
  controller exits.
\<close>

section \<open>State\<close>

type_synonym auth_id = nat

record auth_session =
  au_key :: sub_key
  au_provider :: provider_id
  au_scope :: scope
  au_persistence :: persistence_options
  au_next_subscriber_id :: u64
  au_strong :: nat
  au_running :: bool
  au_claimed :: bool

text \<open>
  \<open>au_running\<close>: the controller task still answers commands. \<open>au_claimed\<close> is a history
  variable: the session was entered into the registry.
\<close>

record registry =
  rg_slots :: "sub_key \<rightharpoonup> auth_id"
  rg_store :: "auth_id \<rightharpoonup> auth_session"
  rg_next :: auth_id

definition registry_empty :: registry where
  "registry_empty = \<lparr> rg_slots = Map.empty, rg_store = Map.empty, rg_next = 0 \<rparr>"

definition strong_count :: "registry \<Rightarrow> auth_id \<Rightarrow> nat" where
  "strong_count g a = (case rg_store g a of None \<Rightarrow> 0 | Some s \<Rightarrow> au_strong s)"

definition on_session :: "auth_id \<Rightarrow> (auth_session \<Rightarrow> auth_session) \<Rightarrow> registry \<Rightarrow> registry" where
  "on_session a f g = g\<lparr> rg_store := (rg_store g)(a := map_option f (rg_store g a)) \<rparr>"

section \<open>Operations\<close>

text \<open>\<^verbatim>\<open>map.get(&key).and_then(Weak::upgrade)\<close>: a new strong handle on success.\<close>

definition upgrade_slot :: "sub_key \<Rightarrow> registry \<Rightarrow> (auth_id \<times> registry) option" where
  "upgrade_slot key g =
     (case rg_slots g key of
        None \<Rightarrow> None
      | Some a \<Rightarrow>
          if strong_count g a = 0 then None
          else Some (a, on_session a (\<lambda>s. s\<lparr> au_strong := au_strong s + 1 \<rparr>) g))"

definition authoritative_new ::
  "sub_key \<Rightarrow> provider_id \<Rightarrow> scope \<Rightarrow> persistence_options \<Rightarrow> registry \<Rightarrow> auth_id \<times> registry" where
  "authoritative_new key provider sc opts g =
     (let a = rg_next g in
      (a, g\<lparr> rg_next := a + 1,
             rg_store := (rg_store g)(a \<mapsto>
               \<lparr> au_key = key, au_provider = provider, au_scope = sc, au_persistence = opts,
                 au_next_subscriber_id = 0, au_strong = 1, au_running = False, au_claimed = False \<rparr>) \<rparr>))"

definition alloc_subscriber_id :: "auth_id \<Rightarrow> registry \<Rightarrow> subscriber_id \<times> registry" where
  "alloc_subscriber_id a g =
     (case rg_store g a of
        None \<Rightarrow> (0, g)
      | Some s \<Rightarrow>
          (au_next_subscriber_id s,
           on_session a (\<lambda>s. s\<lparr> au_next_subscriber_id := au_next_subscriber_id s + 1 \<rparr>) g))"

text \<open>\<^verbatim>\<open>add_subscriber\<close>: the id is allocated before the command is sent.\<close>

definition auth_add_subscriber :: "auth_id \<Rightarrow> registry \<Rightarrow> subscriber_id res \<times> registry" where
  "auth_add_subscriber a g =
     (case rg_store g a of
        None \<Rightarrow> (Inl SessionClosed, g)
      | Some s \<Rightarrow>
          (case alloc_subscriber_id a g of (sid, g') \<Rightarrow>
             (if au_running s then Inr sid else Inl SessionClosed, g')))"

definition auth_set_persistence ::
  "auth_id \<Rightarrow> persistence_options \<Rightarrow> unit res \<Rightarrow> registry \<Rightarrow> unit res \<times> registry" where
  "auth_set_persistence a opts reply g =
     (case rg_store g a of
        None \<Rightarrow> (Inl SessionClosed, g)
      | Some s \<Rightarrow>
          if \<not> au_running s then (Inl SessionClosed, g)
          else case reply of
            Inl e \<Rightarrow> (Inl e, g)
          | Inr _ \<Rightarrow> (Inr (), on_session a (\<lambda>s. s\<lparr> au_persistence := opts \<rparr>) g))"

text \<open>Under the lock: defer to a racing winner, or claim the slot.\<close>

definition claim_slot :: "auth_id \<Rightarrow> sub_key \<Rightarrow> registry \<Rightarrow> auth_id option \<times> registry" where
  "claim_slot a key g =
     (case upgrade_slot key g of
        Some (w, g') \<Rightarrow> (Some w, g')
      | None \<Rightarrow>
          (None, (on_session a (\<lambda>s. s\<lparr> au_claimed := True \<rparr>) g)\<lparr> rg_slots := (rg_slots g)(key \<mapsto> a) \<rparr>))"

text \<open>Dropping a strong handle; the last one runs \<^verbatim>\<open>Drop for AuthoritativeSession\<close>.\<close>

definition auth_drop :: "sub_key \<Rightarrow> registry \<Rightarrow> registry" where
  "auth_drop key g =
     (case rg_slots g key of
        None \<Rightarrow> g
      | Some w \<Rightarrow> if strong_count g w = 0 then g\<lparr> rg_slots := (rg_slots g)(key := None) \<rparr> else g)"

definition drop_strong :: "auth_id \<Rightarrow> registry \<Rightarrow> registry" where
  "drop_strong a g =
     (case rg_store g a of
        None \<Rightarrow> g
      | Some s \<Rightarrow>
          let g' = on_session a (\<lambda>s. s\<lparr> au_strong := au_strong s - 1 \<rparr>) g in
          if au_strong s = 1 then auth_drop (au_key s) g' else g')"

text \<open>\<^verbatim>\<open>Arc::clone\<close>, for the handle inside a \<^verbatim>\<open>SubscriberGuard\<close>.\<close>

definition clone_strong :: "auth_id \<Rightarrow> registry \<Rightarrow> registry" where
  "clone_strong a g = on_session a (\<lambda>s. s\<lparr> au_strong := au_strong s + 1 \<rparr>) g"

definition set_running :: "bool \<Rightarrow> auth_id \<Rightarrow> registry \<Rightarrow> registry" where
  "set_running b a g = on_session a (\<lambda>s. s\<lparr> au_running := b \<rparr>) g"

section \<open>Opening a live session\<close>

text \<open>How the provider answered: \<^verbatim>\<open>start_live\<close>, then \<^verbatim>\<open>subscribe\<close> on the handle.\<close>

datatype open_outcome = OpenOk | StartFailed error | SubscribeFailed error

definition open_error :: "open_outcome \<Rightarrow> error option" where
  "open_error out = (case out of OpenOk \<Rightarrow> None | StartFailed e \<Rightarrow> Some e | SubscribeFailed e \<Rightarrow> Some e)"

definition record_open :: "open_outcome \<Rightarrow> accounting \<Rightarrow> accounting" where
  "record_open out acct =
     (let started = record_live_start acct in
      case out of
        StartFailed e \<Rightarrow> record_open_failure e started
      | OpenOk \<Rightarrow> record_subscribe started
      | SubscribeFailed e \<Rightarrow> record_open_failure e (record_subscribe started))"

text \<open>
  \<^verbatim>\<open>create_authoritative\<close>. \<open>env1\<close> is what other tasks do to the registry between the probe and
  the claim. A lost race or a failed open drops the local handle; only a claimed slot
  reaches the provider and its accounting.
\<close>

definition create_authoritative ::
  "(registry \<Rightarrow> registry) \<Rightarrow> open_outcome \<Rightarrow> sub_key \<Rightarrow> provider_id \<Rightarrow> scope \<Rightarrow> persistence_options \<Rightarrow> accounting \<Rightarrow>
   registry \<Rightarrow> (auth_id \<times> subscriber_id) res \<times> accounting \<times> registry" where
  "create_authoritative env1 out key provider sc opts acct g0 =
     (let (a, g1) = authoritative_new key provider sc opts (env1 g0) in
      case claim_slot a key g1 of
        (Some w, g2) \<Rightarrow>
          (case auth_add_subscriber w g2 of
             (Inl e, g3) \<Rightarrow> (Inl e, acct, drop_strong a (drop_strong w g3))
           | (Inr sid, g3) \<Rightarrow> (Inr (w, sid), acct, drop_strong a (clone_strong w g3)))
      | (None, g2) \<Rightarrow>
          (case alloc_subscriber_id a g2 of (sid, g3) \<Rightarrow>
            (case open_error out of
               Some e \<Rightarrow> (Inl e, record_open out acct, drop_strong a g3)
             | None \<Rightarrow> (Inr (a, sid), record_open out acct, clone_strong a (set_running True a g3)))))"

definition authoritative ::
  "(registry \<Rightarrow> registry) \<Rightarrow> open_outcome \<Rightarrow> provider_id res \<Rightarrow> sub_key \<Rightarrow> scope \<Rightarrow> persistence_options \<Rightarrow> accounting \<Rightarrow>
   registry \<Rightarrow> (auth_id \<times> subscriber_id) res \<times> accounting \<times> registry" where
  "authoritative env1 out routed key sc opts acct g =
     (case routed of
        Inl e \<Rightarrow> (Inl e, acct, g)
      | Inr provider \<Rightarrow>
          (case upgrade_slot key g of
             None \<Rightarrow> create_authoritative env1 out key provider sc opts acct g
           | Some (w, g1) \<Rightarrow>
               (case auth_add_subscriber w g1 of
                  (Inr sid, g2) \<Rightarrow> (Inr (w, sid), acct, clone_strong w g2)
                | (Inl _, g2) \<Rightarrow> create_authoritative env1 out key provider sc opts acct (drop_strong w g2))))"

section \<open>Interleavings\<close>

text \<open>The critical sections of concurrent openers and handle holders, in any order.\<close>

inductive reg_step :: "registry \<Rightarrow> registry \<Rightarrow> bool" where
  Upgrade: "upgrade_slot key g = Some (a, g') \<Longrightarrow> reg_step g g'"
| New: "authoritative_new key p sc opts g = (a, g') \<Longrightarrow> reg_step g g'"
| Claim: "rg_store g a = Some s \<Longrightarrow> au_key s = key \<Longrightarrow> \<not> au_claimed s \<Longrightarrow> 0 < au_strong s \<Longrightarrow>
    claim_slot a key g = (w, g') \<Longrightarrow> reg_step g g'"
| Alloc: "alloc_subscriber_id a g = (sid, g') \<Longrightarrow> reg_step g g'"
| Drop: "0 < strong_count g a \<Longrightarrow> reg_step g (drop_strong a g)"
| Clone: "0 < strong_count g a \<Longrightarrow> reg_step g (clone_strong a g)"
| Run: "reg_step g (set_running b a g)"
| Persist: "auth_set_persistence a opts reply g = (r, g') \<Longrightarrow> reg_step g g'"

inductive_cases reg_stepE: "reg_step g g'"

text \<open>Every claimed session that still has a handle is the one in the slot of its key.\<close>

definition reg_ok :: "registry \<Rightarrow> bool" where
  "reg_ok g \<longleftrightarrow>
     (\<forall>a s. rg_store g a = Some s \<longrightarrow> a < rg_next g) \<and>
     (\<forall>key a. rg_slots g key = Some a \<longrightarrow> (\<exists>s. rg_store g a = Some s \<and> au_key s = key \<and> au_claimed s)) \<and>
     (\<forall>a s. rg_store g a = Some s \<longrightarrow> au_claimed s \<longrightarrow> 0 < au_strong s \<longrightarrow> rg_slots g (au_key s) = Some a)"

lemma reg_okI:
  assumes "\<And>a s. rg_store g a = Some s \<Longrightarrow> a < rg_next g"
    and "\<And>key a. rg_slots g key = Some a \<Longrightarrow> \<exists>s. rg_store g a = Some s \<and> au_key s = key \<and> au_claimed s"
    and "\<And>a s. rg_store g a = Some s \<Longrightarrow> au_claimed s \<Longrightarrow> 0 < au_strong s \<Longrightarrow> rg_slots g (au_key s) = Some a"
  shows "reg_ok g"
  using assms by (simp add: reg_ok_def)

lemma reg_bound: "reg_ok g \<Longrightarrow> rg_store g a = Some s \<Longrightarrow> a < rg_next g"
  unfolding reg_ok_def by blast

lemma reg_slot:
  "reg_ok g \<Longrightarrow> rg_slots g key = Some a \<Longrightarrow> \<exists>s. rg_store g a = Some s \<and> au_key s = key \<and> au_claimed s"
  unfolding reg_ok_def by blast

lemma reg_live:
  "reg_ok g \<Longrightarrow> rg_store g a = Some s \<Longrightarrow> au_claimed s \<Longrightarrow> 0 < au_strong s \<Longrightarrow> rg_slots g (au_key s) = Some a"
  unfolding reg_ok_def by blast

lemma reg_ok_empty: "reg_ok registry_empty"
  by (rule reg_okI) (simp_all add: registry_empty_def)

lemma on_session_fields [simp]:
  "rg_slots (on_session a f g) = rg_slots g" "rg_next (on_session a f g) = rg_next g"
  "rg_store (on_session a f g) b = (if b = a then map_option f (rg_store g a) else rg_store g b)"
  by (simp_all add: on_session_def)

text \<open>An update that keeps key, claim and liveness of every session keeps the invariant.\<close>

lemma reg_ok_on_session:
  assumes ok: "reg_ok g"
    and f: "\<And>s. rg_store g a = Some s \<Longrightarrow> au_key (f s) = au_key s \<and> au_claimed (f s) = au_claimed s
              \<and> (0 < au_strong (f s) \<longrightarrow> 0 < au_strong s)"
  shows "reg_ok (on_session a f g)"
proof (rule reg_okI)
  fix b s
  assume s: "rg_store (on_session a f g) b = Some s"
  then show "b < rg_next (on_session a f g)"
    using reg_bound [OF ok] by (auto split: if_splits)
  assume "au_claimed s" "0 < au_strong s"
  then show "rg_slots (on_session a f g) (au_key s) = Some b"
    using s f reg_live [OF ok] by (auto split: if_splits)
next
  fix key b
  assume "rg_slots (on_session a f g) key = Some b"
  then obtain s where "rg_store g b = Some s \<and> au_key s = key \<and> au_claimed s"
    using reg_slot [OF ok, of key b] by auto
  then show "\<exists>s. rg_store (on_session a f g) b = Some s \<and> au_key s = key \<and> au_claimed s"
    using f by auto
qed

lemma upgrade_ok:
  assumes "upgrade_slot key g = Some (a, g')" "reg_ok g"
  shows "reg_ok g'"
proof -
  have g': "g' = on_session a (\<lambda>s. s\<lparr> au_strong := au_strong s + 1 \<rparr>) g" and "strong_count g a \<noteq> 0"
    using assms(1) by (auto simp: upgrade_slot_def split: option.splits if_splits)
  then have "0 < au_strong s" if "rg_store g a = Some s" for s using that by (simp add: strong_count_def)
  then show ?thesis unfolding g' by (intro reg_ok_on_session [OF assms(2)]) simp
qed

lemma new_ok:
  assumes "authoritative_new key p sc opts g = (a, g')" and ok: "reg_ok g"
  shows "reg_ok g'"
proof (rule reg_okI)
  have fresh: "rg_store g (rg_next g) = None" using reg_bound [OF ok] by (metis less_irrefl option.exhaust)
  have next': "rg_next g' = rg_next g + 1" and slots': "rg_slots g' = rg_slots g"
    and store': "b \<noteq> rg_next g \<Longrightarrow> rg_store g' b = rg_store g b"
    and new: "rg_store g' (rg_next g) = Some t \<Longrightarrow> \<not> au_claimed t" for b t
    using assms(1) by (auto simp: authoritative_new_def Let_def)
  fix b s
  assume s: "rg_store g' b = Some s"
  show "b < rg_next g'"
    using s reg_bound [OF ok] store' by (cases "b = rg_next g") (auto simp: next' less_SucI)
  assume "au_claimed s" "0 < au_strong s"
  then show "rg_slots g' (au_key s) = Some b"
    using s new store' reg_live [OF ok] by (cases "b = rg_next g") (auto simp: slots')
next
  fix k b
  assume "rg_slots g' k = Some b"
  then have "rg_slots g k = Some b" using assms(1) by (auto simp: authoritative_new_def Let_def)
  moreover from reg_slot [OF ok this] have "b \<noteq> rg_next g" using reg_bound [OF ok] by blast
  ultimately show "\<exists>s. rg_store g' b = Some s \<and> au_key s = k \<and> au_claimed s"
    using reg_slot [OF ok, of k b] assms(1) by (auto simp: authoritative_new_def Let_def)
qed

lemma auth_drop_ok:
  assumes ok: "reg_ok g"
  shows "reg_ok (auth_drop key g)"
proof (cases "rg_slots g key")
  case (Some w)
  show ?thesis
  proof (cases "strong_count g w = 0")
    case True
    have g': "auth_drop key g = g\<lparr> rg_slots := (rg_slots g)(key := None) \<rparr>"
      using Some True by (simp add: auth_drop_def)
    have "au_key t \<noteq> key" if "rg_store g b = Some t" "au_claimed t" "0 < au_strong t" for b t
      using reg_live [OF ok that] Some True that by (auto simp: strong_count_def)
    then show ?thesis
      unfolding g' by (intro reg_okI) (use reg_bound [OF ok] reg_live [OF ok] reg_slot [OF ok] in \<open>auto split: if_splits\<close>)
  next
    case False
    then show ?thesis using Some ok by (simp add: auth_drop_def)
  qed
qed (simp add: auth_drop_def ok)

lemma claim_ok:
  assumes s: "rg_store g a = Some s" "au_key s = key" and "claim_slot a key g = (w, g')" and ok: "reg_ok g"
  shows "reg_ok g'"
proof (cases "upgrade_slot key g")
  case (Some r)
  then show ?thesis using assms(3) upgrade_ok [OF _ ok, of key "fst r" "snd r"] by (cases r) (auto simp: claim_slot_def)
next
  case None
  have dead: "strong_count g b = 0" if "rg_slots g key = Some b" for b
    using None that by (auto simp: upgrade_slot_def split: if_splits)
  have g': "g' = (on_session a (\<lambda>s. s\<lparr> au_claimed := True \<rparr>) g)\<lparr> rg_slots := (rg_slots g)(key \<mapsto> a) \<rparr>"
    using assms(3) None by (simp add: claim_slot_def)
  show ?thesis
  proof (rule reg_okI)
    fix b t
    assume t: "rg_store g' b = Some t"
    then show "b < rg_next g'" using reg_bound [OF ok] by (auto simp: g' split: if_splits)
    assume live: "au_claimed t" "0 < au_strong t"
    show "rg_slots g' (au_key t) = Some b"
    proof (cases "b = a")
      case False
      then have tg: "rg_store g b = Some t" using t by (simp add: g')
      have slot: "rg_slots g (au_key t) = Some b" by (rule reg_live [OF ok tg live])
      then have "au_key t \<noteq> key" using dead [of b] tg live(2) by (auto simp: strong_count_def)
      then show ?thesis using slot by (simp add: g')
    qed (use t s in \<open>auto simp: g'\<close>)
  next
    fix k b
    assume b: "rg_slots g' k = Some b"
    show "\<exists>t. rg_store g' b = Some t \<and> au_key t = k \<and> au_claimed t"
    proof (cases "k = key")
      case True
      then show ?thesis using b s by (simp add: g')
    next
      case False
      then obtain t where "rg_store g b = Some t" "au_key t = k" "au_claimed t"
        using b reg_slot [OF ok, of k b] by (auto simp: g')
      then show ?thesis by (auto simp: g')
    qed
  qed
qed

lemma drop_ok:
  assumes "reg_ok g"
  shows "reg_ok (drop_strong a g)"
proof -
  have "reg_ok (on_session a (\<lambda>s. s\<lparr> au_strong := au_strong s - 1 \<rparr>) g)"
    by (rule reg_ok_on_session [OF assms]) auto
  then show ?thesis using assms auth_drop_ok by (auto simp: drop_strong_def Let_def split: option.splits)
qed

lemma alloc_ok:
  assumes "reg_ok g"
  shows "reg_ok (snd (alloc_subscriber_id a g))"
proof -
  have "reg_ok (on_session a (\<lambda>s. s\<lparr> au_next_subscriber_id := au_next_subscriber_id s + 1 \<rparr>) g)"
    by (rule reg_ok_on_session [OF assms]) auto
  then show ?thesis using assms by (simp add: alloc_subscriber_id_def split: option.splits)
qed

lemma add_ok: "reg_ok g \<Longrightarrow> reg_ok (snd (auth_add_subscriber a g))"
  using alloc_ok [of g a] by (auto simp: auth_add_subscriber_def split: option.splits prod.splits)

lemma clone_ok:
  assumes "reg_ok g" "0 < strong_count g a"
  shows "reg_ok (clone_strong a g)"
  unfolding clone_strong_def
  by (rule reg_ok_on_session [OF assms(1)]) (use assms(2) in \<open>auto simp: strong_count_def\<close>)

text \<open>Allocating ids, running and cloning keep who has handles.\<close>

lemma strong_kept [simp]:
  "strong_count (snd (alloc_subscriber_id a g)) b = strong_count g b"
  "strong_count (snd (auth_add_subscriber a g)) b = strong_count g b"
  "strong_count (set_running r a g) b = strong_count g b"
  by (auto simp: strong_count_def alloc_subscriber_id_def auth_add_subscriber_def set_running_def
      split: option.splits prod.splits)

lemma upgrade_strong: "upgrade_slot key g = Some (a, g') \<Longrightarrow> 0 < strong_count g' a"
  by (auto simp: upgrade_slot_def strong_count_def split: option.splits if_splits)

lemma run_ok: "reg_ok g \<Longrightarrow> reg_ok (set_running b a g)"
  unfolding set_running_def by (erule reg_ok_on_session) auto

lemma persist_ok:
  assumes "reg_ok g"
  shows "reg_ok (snd (auth_set_persistence a opts reply g))"
proof -
  have "reg_ok (on_session a (\<lambda>s. s\<lparr> au_persistence := opts \<rparr>) g)"
    by (rule reg_ok_on_session [OF assms]) auto
  then show ?thesis
    using assms by (cases "rg_store g a"; cases reply) (simp_all add: auth_set_persistence_def)
qed

lemma reg_step_ok: "reg_step g g' \<Longrightarrow> reg_ok g \<Longrightarrow> reg_ok g'"
proof (induction rule: reg_step.induct)
  case (Upgrade key g a g')
  then show ?case using upgrade_ok by blast
next
  case (New key p sc opts g a g')
  then show ?case using new_ok by blast
next
  case (Claim g a s key w g')
  then show ?case using claim_ok by blast
next
  case (Alloc a g sid g')
  then show ?case using alloc_ok [of g a] by simp
next
  case (Drop g a)
  then show ?case using drop_ok by blast
next
  case (Clone g a)
  then show ?case using clone_ok by blast
next
  case (Run g b a)
  then show ?case using run_ok by blast
next
  case (Persist a opts reply g r g')
  then show ?case using persist_ok [of g a opts reply] by simp
qed

lemma reg_steps_ok: "reg_step\<^sup>*\<^sup>* g g' \<Longrightarrow> reg_ok g \<Longrightarrow> reg_ok g'"
  by (induction rule: rtranclp_induct) (auto intro: reg_step_ok)

section \<open>Opening preserves the invariant\<close>

lemma create_ok:
  assumes "reg_ok g" "\<And>h. reg_ok h \<Longrightarrow> reg_ok (env1 h)"
  shows "reg_ok (snd (snd (create_authoritative env1 out key p sc opts acct g)))"
proof -
  obtain a g1 where new: "authoritative_new key p sc opts (env1 g) = (a, g1)" by fastforce
  have ok1: "reg_ok g1" by (rule new_ok [OF new]) (use assms in blast)
  obtain s where s: "rg_store g1 a = Some s" "au_key s = key" "au_strong s = 1"
    using new by (auto simp: authoritative_new_def Let_def)
  obtain w g2 where cl: "claim_slot a key g1 = (w, g2)" by fastforce
  have ok2: "reg_ok g2" by (rule claim_ok [OF s(1,2) cl ok1])
  show ?thesis
  proof (cases w)
    case (Some v)
    obtain r g3 where add: "auth_add_subscriber v g2 = (r, g3)" by fastforce
    have ok3: "reg_ok g3" using add_ok [OF ok2, of v] add by simp
    have "0 < strong_count g2 v"
      using cl Some upgrade_strong [of key g1 v g2] by (auto simp: claim_slot_def split: option.splits)
    then have "reg_ok (clone_strong v g3)" using clone_ok [OF ok3] strong_kept(2) [of v g2 v] add by simp
    then show ?thesis
      using new cl Some add drop_ok ok3 by (cases r) (simp_all add: create_authoritative_def)
  next
    case None
    obtain sid g3 where al: "alloc_subscriber_id a g2 = (sid, g3)" by fastforce
    have ok3: "reg_ok g3" using alloc_ok [OF ok2, of a] al by simp
    have "strong_count g2 a = 1"
      using cl None s by (auto simp: claim_slot_def strong_count_def split: option.splits)
    then have "0 < strong_count (set_running True a g3) a" using strong_kept(1) [of a g2 a] al by simp
    then have "reg_ok (clone_strong a (set_running True a g3))" using clone_ok run_ok [OF ok3] by blast
    then show ?thesis
      using new cl None al drop_ok [OF ok3] by (cases "open_error out") (simp_all add: create_authoritative_def)
  qed
qed

lemma authoritative_ok:
  assumes "reg_ok g" "\<And>h. reg_ok h \<Longrightarrow> reg_ok (env1 h)"
  shows "reg_ok (snd (snd (authoritative env1 out routed key sc opts acct g)))"
proof (cases routed)
  case (Inr p)
  show ?thesis
  proof (cases "upgrade_slot key g")
    case None
    then show ?thesis using Inr create_ok [OF assms] by (simp add: authoritative_def)
  next
    case (Some r)
    obtain w g1 where r: "r = (w, g1)" by fastforce
    obtain res g2 where add: "auth_add_subscriber w g1 = (res, g2)" by fastforce
    have "reg_ok g1" using upgrade_ok Some r assms(1) by blast
    then have ok2: "reg_ok g2" using add_ok [of g1 w] add by simp
    have "0 < strong_count g2 w" using upgrade_strong Some r strong_kept(2) [of w g1 w] add by simp
    then have "reg_ok (clone_strong w g2)" by (rule clone_ok [OF ok2])
    then show ?thesis
      using Inr Some r add create_ok [OF drop_ok [OF ok2] assms(2)]
      by (cases res) (simp_all add: authoritative_def)
  qed
qed (simp add: authoritative_def assms(1))

section \<open>Correctness of the registry\<close>

text \<open>C38: One session per key. In every state reachable by any interleaving of openers,
  handle drops and controller exits, two registered sessions that still have handles and
  serve the same \<open>(instrument, kind)\<close> are the same session, and it is the one in the slot.\<close>

theorem registry_unique:
  assumes "reg_step\<^sup>*\<^sup>* registry_empty g"
    and "rg_store g a = Some s" "au_claimed s" "0 < au_strong s"
    and "rg_store g b = Some t" "au_claimed t" "0 < au_strong t" "au_key t = au_key s"
  shows "a = b \<and> rg_slots g (au_key s) = Some a"
proof -
  have ok: "reg_ok g" by (rule reg_steps_ok [OF assms(1) reg_ok_empty])
  show ?thesis using reg_live [OF ok assms(2-4)] reg_live [OF ok assms(5-7)] assms(8) by simp
qed

definition demo_registry :: registry where
  "demo_registry = snd (snd (authoritative id OpenOk (Inr ''alpaca'') (demo_instrument, KTrade) (LiveScope None)
     options_none accounting_default registry_empty))"

definition demo_session :: auth_session where
  "demo_session = \<lparr> au_key = (demo_instrument, KTrade), au_provider = ''alpaca'', au_scope = LiveScope None,
     au_persistence = options_none, au_next_subscriber_id = 1, au_strong = 2, au_running = True, au_claimed = True \<rparr>"

lemma demo_registry_eq:
  "rg_slots demo_registry = [(demo_instrument, KTrade) \<mapsto> 0]" "rg_store demo_registry = [0 \<mapsto> demo_session]"
  "rg_next demo_registry = 1"
  by (auto simp: demo_registry_def authoritative_def upgrade_slot_def registry_empty_def create_authoritative_def
      authoritative_new_def claim_slot_def alloc_subscriber_id_def set_running_def clone_strong_def on_session_def demo_session_def open_error_def Let_def)

lemma demo_registry_reachable: "reg_step\<^sup>*\<^sup>* registry_empty demo_registry"
proof -
  let ?k = "(demo_instrument, KTrade)"
  obtain a g1 where new: "authoritative_new ?k ''alpaca'' (LiveScope None) options_none registry_empty = (a, g1)" by fastforce
  obtain s where s: "rg_store g1 a = Some s" "au_key s = ?k" "\<not> au_claimed s" "0 < au_strong s"
    using new by (auto simp: authoritative_new_def Let_def)
  obtain w g2 where cl: "claim_slot a ?k g1 = (w, g2)" by fastforce
  have w: "w = None" using cl new by (auto simp: claim_slot_def upgrade_slot_def authoritative_new_def registry_empty_def)
  obtain sid g3 where al: "alloc_subscriber_id a g2 = (sid, g3)" by fastforce
  have "strong_count g2 a = 1"
    using cl w s new by (auto simp: claim_slot_def strong_count_def authoritative_new_def Let_def split: option.splits)
  then have live: "0 < strong_count (set_running True a g3) a" using strong_kept(1) [of a g2 a] al by simp
  have "demo_registry = clone_strong a (set_running True a g3)"
    using new cl w al by (simp add: demo_registry_def authoritative_def create_authoritative_def upgrade_slot_def registry_empty_def
        open_error_def)
  then show ?thesis
    using reg_step.New [OF new] reg_step.Claim [OF s cl] reg_step.Alloc [OF al] reg_step.Run [of g3 True a]
      reg_step.Clone [OF live]
    by (metis (no_types) converse_rtranclp_into_rtranclp rtranclp.rtrancl_refl)
qed

theorem registry_unique_witness: "rg_slots demo_registry (demo_instrument, KTrade) = Some 0"
  using registry_unique [OF demo_registry_reachable, of 0 demo_session 0 demo_session]
  by (simp add: demo_registry_eq demo_session_def)

text \<open>Opening a pair whose registered session is up shares it: no session is created, the
  caller gets a handle and a guard on it and a subscriber id no one else has.\<close>

lemma open_shares_running:
  assumes "rg_slots g key = Some a" "rg_store g a = Some s" "0 < au_strong s" "au_running s"
  shows "authoritative env1 out (Inr p) key sc opts acct g =
    (Inr (a, au_next_subscriber_id s), acct,
     on_session a (\<lambda>s. s\<lparr> au_next_subscriber_id := au_next_subscriber_id s + 1, au_strong := au_strong s + 2 \<rparr>) g)"
  using assms
  by (simp add: authoritative_def upgrade_slot_def strong_count_def auth_add_subscriber_def alloc_subscriber_id_def
      clone_strong_def on_session_def)

text \<open>A failed open leaves no trace in the registry: the slot it had claimed is free again,
  and the failure is the provider's last error.\<close>

lemma failed_open_frees_slot:
  assumes "rg_slots g key = None" "open_error out = Some e"
  shows "\<exists>g' acct'. authoritative id out (Inr p) key sc opts acct g = (Inl e, acct', g')
    \<and> rg_slots g' = rg_slots g \<and> ac_last_error acct' = Some (error_display e)"
  using assms
  by (auto simp: authoritative_def upgrade_slot_def create_authoritative_def authoritative_new_def claim_slot_def
      alloc_subscriber_id_def drop_strong_def auth_drop_def on_session_def strong_count_def record_open_def
      open_error_def record_open_failure_def record_error_def Let_def split: open_outcome.splits)

text \<open>A registered session whose controller has exited but whose handle is still held keeps
  its slot: opening the pair again fails with \<open>SessionClosed\<close> instead of starting anew.\<close>

lemma dead_session_blocks_reopen:
  assumes "reg_ok g" "rg_slots g key = Some a" "rg_store g a = Some s" "0 < au_strong s" "\<not> au_running s"
  shows "fst (authoritative id out (Inr p) key sc opts acct g) = Inl SessionClosed"
proof -
  have "a \<noteq> rg_next g" using reg_bound [OF assms(1,3)] by simp
  then show ?thesis
    using assms(2-5)
    by (simp add: authoritative_def upgrade_slot_def strong_count_def auth_add_subscriber_def alloc_subscriber_id_def
        create_authoritative_def authoritative_new_def claim_slot_def drop_strong_def Let_def on_session_def)
qed

lemma dead_session_blocks_reopen_witness:
  "fst (authoritative id OpenOk (Inr ''alpaca'') (demo_instrument, KTrade) (LiveScope None) options_none
     accounting_default (set_running False 0 demo_registry)) = Inl SessionClosed"
proof (rule dead_session_blocks_reopen)
  show "reg_ok (set_running False 0 demo_registry)"
    by (rule run_ok [OF reg_steps_ok [OF demo_registry_reachable reg_ok_empty]])
  show "rg_slots (set_running False 0 demo_registry) (demo_instrument, KTrade) = Some 0"
    by (simp add: set_running_def demo_registry_eq)
  show "rg_store (set_running False 0 demo_registry) 0 = Some (demo_session\<lparr> au_running := False \<rparr>)"
    by (simp add: set_running_def demo_registry_eq)
qed (simp_all add: demo_session_def)

end
