(* ===== verification/Facade.thy ===== *)
theory Facade
  imports Turso_Cache Registry "HOL-Library.Char_ord" "HOL-Library.List_Lexorder"
begin

text \<open>
  The \<^verbatim>\<open>Datamancer\<close> handle of \<^verbatim>\<open>session.rs\<close>: its builder, provider routing, opening sessions,
  the instrument catalog and the diagnostics snapshot, with the reference data types of
  \<^verbatim>\<open>capabilities.rs\<close>, \<^verbatim>\<open>instrument.rs\<close> and \<^verbatim>\<open>snapshot.rs\<close> they use. A registered provider is a
  record of the answers its trait methods give. The iteration order of a \<^verbatim>\<open>HashMap\<close> is an
  argument where it shows.
\<close>

section \<open>Reference data\<close>

datatype order_type = Market | Limit | Stop | StopLimit

datatype time_in_force = Day | Gtc | Ioc | Fok | Opg | Cls

record capabilities =
  cap_fractionable :: "bool option"
  cap_min_qty :: "quantity option"
  cap_qty_increment :: "quantity option"
  cap_price_increment :: "price option"
  cap_min_notional :: "price option"
  cap_supports_notional_orders :: "bool option"
  cap_allowed_order_types :: "order_type list option"
  cap_allowed_tif :: "time_in_force list option"

record instrument_entry =
  ie_instrument :: instrument
  ie_capabilities :: "capabilities option"

definition entry_bare :: "instrument \<Rightarrow> instrument_entry" where
  "entry_bare i = \<lparr> ie_instrument = i, ie_capabilities = None \<rparr>"

record instrument_info =
  ii_instrument :: instrument
  ii_live_kinds :: "event_kind list"
  ii_history_kinds :: "event_kind list"
  ii_capabilities :: "capabilities option"

definition info_new :: "instrument \<Rightarrow> event_kind list \<Rightarrow> event_kind list \<Rightarrow> instrument_info" where
  "info_new i live history =
     \<lparr> ii_instrument = i, ii_live_kinds = live, ii_history_kinds = history, ii_capabilities = None \<rparr>"

record provider =
  pv_id :: provider_id
  pv_supports :: "instrument \<Rightarrow> event_kind \<Rightarrow> surface \<Rightarrow> bool"
  pv_list_instruments :: "instrument_entry list res"
  pv_capabilities :: "instrument \<Rightarrow> instrument_entry option res"
  pv_metrics :: "(u64 \<times> u64) option"
  pv_enabled :: bool

section \<open>The builder\<close>

definition DEFAULT_RESUME_BUFFER_EVENTS :: nat where "DEFAULT_RESUME_BUFFER_EVENTS = 65536"

record 'c builder =
  bd_providers :: "provider list"
  bd_tap_log :: "market_event list option"
  bd_historical_cache :: "'c option"
  bd_instrument_provider :: "(instrument \<times> provider_id) list"
  bd_resume_buffer_events :: "nat option"
  bd_adjustment :: adjustment

definition builder_default :: "'c builder" where
  "builder_default =
     \<lparr> bd_providers = [], bd_tap_log = None, bd_historical_cache = None, bd_instrument_provider = [],
       bd_resume_buffer_events = None, bd_adjustment = All \<rparr>"

definition builder_provider :: "provider \<Rightarrow> 'c builder \<Rightarrow> 'c builder" where
  "builder_provider p b = b\<lparr> bd_providers := bd_providers b @ [p] \<rparr>"

definition builder_pin :: "instrument \<Rightarrow> provider_id \<Rightarrow> 'c builder \<Rightarrow> 'c builder" where
  "builder_pin i pid b = b\<lparr> bd_instrument_provider := bd_instrument_provider b @ [(i, pid)] \<rparr>"

definition builder_tap_log :: "market_event list \<Rightarrow> 'c builder \<Rightarrow> 'c builder" where
  "builder_tap_log log b = b\<lparr> bd_tap_log := Some log \<rparr>"

definition builder_historical_cache :: "'c \<Rightarrow> 'c builder \<Rightarrow> 'c builder" where
  "builder_historical_cache cache b = b\<lparr> bd_historical_cache := Some cache \<rparr>"

definition builder_resume_buffer_events :: "nat \<Rightarrow> 'c builder \<Rightarrow> 'c builder" where
  "builder_resume_buffer_events n b = b\<lparr> bd_resume_buffer_events := Some n \<rparr>"

definition builder_adjustment :: "adjustment \<Rightarrow> 'c builder \<Rightarrow> 'c builder" where
  "builder_adjustment adj b = b\<lparr> bd_adjustment := adj \<rparr>"

record 'c datamancer =
  dm_providers :: "provider list"
  dm_tap_log :: "market_event list option"
  dm_historical_cache :: "'c option"
  dm_instrument_provider :: "(instrument \<times> provider_id) list"
  dm_live_sessions :: registry
  dm_resume_buffer_events :: nat
  dm_adjustment :: adjustment
  dm_provider_accounting :: "(provider_id \<times> accounting) list"
  dm_client_sessions :: "(u64 \<times> client_stats) list"

text \<open>The first repeated element of a sorted list: the \<^verbatim>\<open>windows(2)\<close> scan.\<close>

fun adjacent_duplicate :: "'a list \<Rightarrow> 'a option" where
  "adjacent_duplicate (a # b # xs) = (if a = b then Some a else adjacent_duplicate (b # xs))"
| "adjacent_duplicate _ = None"

definition build :: "'c builder \<Rightarrow> 'c datamancer res" where
  "build b =
     (case adjacent_duplicate (sort (map pv_id (bd_providers b))) of
        Some a \<Rightarrow> Inl (Config (''duplicate provider id: '' @ a))
      | None \<Rightarrow>
          Inr \<lparr> dm_providers = bd_providers b, dm_tap_log = bd_tap_log b,
                dm_historical_cache = bd_historical_cache b,
                dm_instrument_provider = bd_instrument_provider b, dm_live_sessions = registry_empty,
                dm_resume_buffer_events =
                  (case bd_resume_buffer_events b of None \<Rightarrow> DEFAULT_RESUME_BUFFER_EVENTS | Some n \<Rightarrow> n),
                dm_adjustment = bd_adjustment b,
                dm_provider_accounting = map (\<lambda>p. (pv_id p, accounting_default)) (bd_providers b),
                dm_client_sessions = [] \<rparr>)"

section \<open>Routing\<close>

definition provider_lookup :: "provider_id \<Rightarrow> 'c datamancer \<Rightarrow> provider res" where
  "provider_lookup pid dm =
     (case find (\<lambda>p. pv_id p = pid) (dm_providers dm) of
        None \<Rightarrow> Inl (UnknownProvider pid)
      | Some p \<Rightarrow> Inr p)"

definition accounting_for :: "provider_id \<Rightarrow> 'c datamancer \<Rightarrow> accounting" where
  "accounting_for pid dm =
     (case find (\<lambda>(i, _). i = pid) (dm_provider_accounting dm) of
        None \<Rightarrow> accounting_default
      | Some (_, a) \<Rightarrow> a)"

definition pinned :: "instrument \<Rightarrow> 'c datamancer \<Rightarrow> provider_id option" where
  "pinned i dm = map_option snd (find (\<lambda>(j, _). j = i) (dm_instrument_provider dm))"

definition serves_all :: "instrument \<Rightarrow> event_kind \<Rightarrow> surface list \<Rightarrow> provider \<Rightarrow> bool" where
  "serves_all i k surfaces p = list_all (pv_supports p i k) surfaces"

definition missing_surface :: "instrument \<Rightarrow> event_kind \<Rightarrow> surface list \<Rightarrow> 'c datamancer \<Rightarrow> surface" where
  "missing_surface i k surfaces dm =
     (case find (\<lambda>s. \<not> list_ex (\<lambda>p. pv_supports p i k s) (dm_providers dm)) surfaces of
        Some s \<Rightarrow> s
      | None \<Rightarrow> (case surfaces of s # _ \<Rightarrow> s | [] \<Rightarrow> Live))"

definition route :: "instrument \<Rightarrow> event_kind \<Rightarrow> surface list \<Rightarrow> 'c datamancer \<Rightarrow> provider res" where
  "route i k surfaces dm =
     (let candidate =
        (case pinned i dm of
           Some pid \<Rightarrow> find (\<lambda>p. pv_id p = pid \<and> serves_all i k surfaces p) (dm_providers dm)
         | None \<Rightarrow> find (serves_all i k surfaces) (dm_providers dm))
      in case candidate of
           Some p \<Rightarrow> Inr p
         | None \<Rightarrow> Inl (UnsupportedEventKind k i (missing_surface i k surfaces dm)))"

section \<open>Opening a session\<close>

datatype 'c session_variant =
    HistoricalSession "'c controller"
  | LiveSession client_ctl auth_id instrument event_kind

definition live_surfaces :: "scope \<Rightarrow> surface list" where
  "live_surfaces sc = (case sc of LiveScope (Some _) \<Rightarrow> [Live, History] | _ \<Rightarrow> [Live])"

text \<open>
  The authoritative open with this handle's providers; the accounting of the routed
  provider is written back.
\<close>

definition set_accounting :: "provider_id \<Rightarrow> accounting \<Rightarrow> 'c datamancer \<Rightarrow> 'c datamancer" where
  "set_accounting pid a dm =
     dm\<lparr> dm_provider_accounting :=
           map (\<lambda>(i, b). (i, if i = pid then a else b)) (dm_provider_accounting dm) \<rparr>"

definition open_authoritative ::
  "(registry \<Rightarrow> registry) \<Rightarrow> open_outcome \<Rightarrow> instrument \<Rightarrow> event_kind \<Rightarrow> scope \<Rightarrow> persistence_options \<Rightarrow>
   'c datamancer \<Rightarrow> (auth_id \<times> subscriber_id) res \<times> 'c datamancer" where
  "open_authoritative env1 out i k sc opts dm =
     (case route i k (live_surfaces sc) dm of
        Inl e \<Rightarrow> (Inl e, dm)
      | Inr p \<Rightarrow>
          (case authoritative env1 out (Inr (pv_id p)) (i, k) sc opts (accounting_for (pv_id p) dm)
                  (dm_live_sessions dm) of
             (r, acct, g) \<Rightarrow> (r, set_accounting (pv_id p) acct (dm\<lparr> dm_live_sessions := g \<rparr>))))"

text \<open>\<^verbatim>\<open>Datamancer::session\<close>; \<open>cid\<close> is the id the client-session counter hands out next.\<close>

definition open_session ::
  "(registry \<Rightarrow> registry) \<Rightarrow> open_outcome \<Rightarrow> u64 \<Rightarrow> instrument \<Rightarrow> event_kind \<Rightarrow> scope \<Rightarrow> persistence_options \<Rightarrow>
   'c datamancer \<Rightarrow> 'c session_variant res \<times> 'c datamancer" where
  "open_session env1 out cid i k sc opts dm =
     (if uses_cache opts \<and> dm_historical_cache dm = None then (Inl PersistenceRequired, dm)
      else if write_tap_log opts \<and> dm_tap_log dm = None then (Inl PersistenceRequired, dm)
      else case sc of
        Historical from to \<Rightarrow>
          (case route i k [History] dm of
             Inl e \<Rightarrow> (Inl e, dm)
           | Inr p \<Rightarrow>
               (Inr (HistoricalSession
                  (new_controller i k sc (dm_adjustment dm) opts (pv_id p) (dm_tap_log dm)
                     (dm_historical_cache dm) (Attached (chan_new DEFAULT_BUFFER))
                     (dm_resume_buffer_events dm) None (accounting_for (pv_id p) dm))), dm))
      | LiveScope _ \<Rightarrow>
          (case open_authoritative env1 out i k sc opts dm of
             (Inl e, dm') \<Rightarrow> (Inl e, dm')
           | (Inr (a, sid), dm') \<Rightarrow>
               let pid = (case rg_store (dm_live_sessions dm') a of Some s \<Rightarrow> au_provider s | None \<Rightarrow> []);
                   c = spawn_client cid (dm_resume_buffer_events dm) (Some ((i, k), sid, pid))
               in (Inr (LiveSession c a i k),
                   dm'\<lparr> dm_client_sessions := AList.update cid (cl_stats c) (dm_client_sessions dm') \<rparr>)))"

definition open_client_session :: "u64 \<Rightarrow> 'c datamancer \<Rightarrow> client_ctl \<times> 'c datamancer" where
  "open_client_session cid dm =
     (let c = spawn_client cid (dm_resume_buffer_events dm) None in
      (c, dm\<lparr> dm_client_sessions := AList.update cid (cl_stats c) (dm_client_sessions dm) \<rparr>))"

text \<open>The controller \<^verbatim>\<open>create_authoritative\<close> spawns, its opener the first fan-out subscriber.\<close>

definition live_controller ::
  "instrument \<Rightarrow> event_kind \<Rightarrow> scope \<Rightarrow> persistence_options \<Rightarrow> provider_id \<Rightarrow> subscriber_id \<Rightarrow> 'c datamancer \<Rightarrow>
   'c controller" where
  "live_controller i k sc opts pid sid dm =
     new_controller i k sc (dm_adjustment dm) opts pid (dm_tap_log dm) (dm_historical_cache dm)
       (Detached (event_ring_new 1)) (dm_resume_buffer_events dm)
       (Some (fanout_add sid (chan_new DEFAULT_BUFFER) fanout_new)) (accounting_for pid dm)"

text \<open>\<^verbatim>\<open>take_events\<close> on a historical session: the receiver is in its holder until the first call.\<close>

definition historical_take_events :: "'c controller \<Rightarrow> unit res \<times> 'c controller" where
  "historical_take_events c =
     (if ct_stream_taken c then (Inl EventsAlreadyTaken, c) else (Inr (), env_step TakeStream c))"

section \<open>Catalog\<close>

definition catalog_info :: "provider \<Rightarrow> instrument_entry \<Rightarrow> instrument_info" where
  "catalog_info p entry =
     (info_new (ie_instrument entry)
        (filter (\<lambda>k. pv_supports p (ie_instrument entry) k Live) enumerate_kinds)
        (filter (\<lambda>k. pv_supports p (ie_instrument entry) k History) enumerate_kinds))
     \<lparr> ii_capabilities := ie_capabilities entry \<rparr>"

fun collect_catalog :: "provider list \<Rightarrow> instrument_info list res" where
  "collect_catalog [] = Inr []"
| "collect_catalog (p # ps) =
     (case pv_list_instruments p of
        Inl e \<Rightarrow> Inl e
      | Inr entries \<Rightarrow>
          (case collect_catalog ps of
             Inl e \<Rightarrow> Inl e
           | Inr rest \<Rightarrow> Inr (map (catalog_info p) entries @ rest)))"

definition instrument_catalog :: "provider_id option \<Rightarrow> 'c datamancer \<Rightarrow> instrument_info list res" where
  "instrument_catalog sel dm =
     (case sel of
        Some pid \<Rightarrow>
          (case provider_lookup pid dm of Inl e \<Rightarrow> Inl e | Inr p \<Rightarrow> collect_catalog [p])
      | None \<Rightarrow> collect_catalog (filter pv_enabled (dm_providers dm)))"

fun collect_capabilities :: "provider \<Rightarrow> instrument list \<Rightarrow> instrument_entry list res" where
  "collect_capabilities p [] = Inr []"
| "collect_capabilities p (i # is) =
     (case pv_capabilities p i of
        Inl e \<Rightarrow> Inl e
      | Inr found \<Rightarrow>
          (case collect_capabilities p is of
             Inl e \<Rightarrow> Inl e
           | Inr rest \<Rightarrow> Inr ((case found of Some entry \<Rightarrow> entry | None \<Rightarrow> entry_bare i) # rest)))"

definition instrument_capabilities ::
  "provider_id \<Rightarrow> instrument list \<Rightarrow> 'c datamancer \<Rightarrow> instrument_entry list res" where
  "instrument_capabilities pid is dm =
     (case provider_lookup pid dm of Inl e \<Rightarrow> Inl e | Inr p \<Rightarrow> collect_capabilities p is)"

section \<open>The diagnostics snapshot\<close>

record cache_snapshot =
  csn_entries :: "catalog_entry list"
  csn_total_disk_bytes :: "u64 option"

record resume_snapshot =
  rb_capacity :: nat
  rb_occupancy :: nat
  rb_dropped_events :: u64

record client_session_snapshot =
  cn_id :: u64
  cn_subscriptions :: "sub_key list"
  cn_resume_buffer :: resume_snapshot

record system_snapshot =
  ss_captured_at :: timestamp
  ss_providers :: "provider_snapshot list"
  ss_cache :: cache_snapshot
  ss_authoritative_sessions :: "auth_snapshot list"
  ss_client_sessions :: "client_session_snapshot list"

definition resume_buffer_snapshot :: "client_stats \<Rightarrow> resume_snapshot" where
  "resume_buffer_snapshot cs =
     \<lparr> rb_capacity = cs_capacity cs, rb_occupancy = cs_occupancy cs, rb_dropped_events = cs_dropped_events cs \<rparr>"

definition subscription_refs :: "client_stats \<Rightarrow> sub_key list" where
  "subscription_refs cs = cs_subscriptions cs"

definition client_snapshot :: "client_stats \<Rightarrow> client_session_snapshot" where
  "client_snapshot cs =
     \<lparr> cn_id = cs_id cs, cn_subscriptions = subscription_refs cs, cn_resume_buffer = resume_buffer_snapshot cs \<rparr>"

definition provider_snapshot_new :: "provider_id \<Rightarrow> connection_state \<Rightarrow> accounting \<Rightarrow> provider_snapshot" where
  "provider_snapshot_new pid cs a =
     \<lparr> ps_provider = pid, ps_connection_state = cs, ps_history_fetches = ac_history_fetches a,
       ps_history_fetch_coalesced = ac_history_fetch_coalesced a, ps_live_starts = ac_live_starts a,
       ps_subscribes = ac_subscribes a, ps_unsubscribes = ac_unsubscribes a, ps_reconnects = ac_reconnects a,
       ps_rate_limit_hits = None, ps_messages = ac_messages a, ps_bytes = None,
       ps_gaps_emitted = ac_gaps_emitted a, ps_last_error = ac_last_error a, ps_enabled = True,
       ps_active_subscriptions = 0 \<rparr>"

text \<open>\<^verbatim>\<open>u32::try_from(n).unwrap_or(u32::MAX)\<close>.\<close>

definition u32_or_max :: "nat \<Rightarrow> u32" where
  "u32_or_max n = (if n < 2 ^ 32 then of_nat n else - 1)"

text \<open>One upgraded registry entry; \<open>st\<close> reads the statistics shared with its controller.\<close>

record auth_sample =
  ah_provider :: provider_id
  ah_instrument :: instrument
  ah_kind :: event_kind
  ah_refcount :: u32
  ah_stats :: live_stats

definition auth_handle :: "(auth_id \<Rightarrow> live_stats) \<Rightarrow> registry \<Rightarrow> sub_key \<Rightarrow> auth_sample option" where
  "auth_handle st g key =
     (case rg_slots g key of
        None \<Rightarrow> None
      | Some a \<Rightarrow>
          (case rg_store g a of
             None \<Rightarrow> None
           | Some s \<Rightarrow>
               if au_strong s = 0 then None
               else Some \<lparr> ah_provider = au_provider s, ah_instrument = fst (au_key s), ah_kind = snd (au_key s),
                           ah_refcount = u32_or_max (unat (ls_subscribers (st a))), ah_stats = st a \<rparr>))"

definition provider_entry :: "'c datamancer \<Rightarrow> auth_sample list \<Rightarrow> provider_id \<times> accounting \<Rightarrow> provider_snapshot" where
  "provider_entry dm handles entry =
     (case entry of (pid, acc) \<Rightarrow>
        let p = find (\<lambda>p. pv_id p = pid) (dm_providers dm);
            metrics = Option.bind p pv_metrics;
            own = filter (\<lambda>h. ah_provider h = pid) handles
        in (provider_snapshot_new pid (connection_state acc (map (ls_connection \<circ> ah_stats) own)) acc)
           \<lparr> ps_bytes := map_option fst metrics, ps_rate_limit_hits := map_option snd metrics,
             ps_enabled := (case p of None \<Rightarrow> True | Some q \<Rightarrow> pv_enabled q),
             ps_active_subscriptions := u32_or_max (length own) \<rparr>)"

definition auth_entry :: "auth_sample \<Rightarrow> auth_snapshot" where
  "auth_entry h =
     (with_timestamps (stats_last_source_ts (ah_stats h)) (stats_last_rx_ts (ah_stats h))
        ((auth_snapshot_new (ah_instrument h) (ah_kind h) (ah_refcount h) (ls_gap_count (ah_stats h)))
         \<lparr> as_seq_position := seq_position (ah_stats h) \<rparr>))
     \<lparr> as_recent_gaps := ls_recent_gaps (ah_stats h), as_last_gap_rx_ts := stats_last_gap_rx_ts (ah_stats h),
       as_backfilling := ls_backfilling (ah_stats h), as_connection := ls_connection (ah_stats h) \<rparr>"

definition assemble_snapshot ::
  "timestamp \<Rightarrow> sub_key list \<Rightarrow> (auth_id \<Rightarrow> live_stats) \<Rightarrow> cache_snapshot \<Rightarrow> 'c datamancer \<Rightarrow> system_snapshot" where
  "assemble_snapshot now order st cache dm =
     (let handles = List.map_filter (auth_handle st (dm_live_sessions dm)) order in
      \<lparr> ss_captured_at = now,
        ss_providers = map (provider_entry dm handles) (dm_provider_accounting dm),
        ss_cache = cache,
        ss_authoritative_sessions = map auth_entry handles,
        ss_client_sessions = map (client_snapshot \<circ> snd) (dm_client_sessions dm) \<rparr>)"

definition snapshot ::
  "('c \<Rightarrow> catalog_entry list res) \<Rightarrow> timestamp \<Rightarrow> sub_key list \<Rightarrow> (auth_id \<Rightarrow> live_stats) \<Rightarrow> 'c datamancer \<Rightarrow>
   system_snapshot res" where
  "snapshot cat now order st dm =
     (case dm_historical_cache dm of
        None \<Rightarrow> Inr (assemble_snapshot now order st \<lparr> csn_entries = [], csn_total_disk_bytes = None \<rparr> dm)
      | Some c \<Rightarrow>
          (case cat c of
             Inl e \<Rightarrow> Inl e
           | Inr es \<Rightarrow> Inr (assemble_snapshot now order st \<lparr> csn_entries = es, csn_total_disk_bytes = None \<rparr> dm)))"

definition snapshot_live :: "timestamp \<Rightarrow> sub_key list \<Rightarrow> (auth_id \<Rightarrow> live_stats) \<Rightarrow> 'c datamancer \<Rightarrow> system_snapshot" where
  "snapshot_live now order st dm = assemble_snapshot now order st \<lparr> csn_entries = [], csn_total_disk_bytes = None \<rparr> dm"

definition DEFAULT_QUIET_AFTER_NS :: i64 where "DEFAULT_QUIET_AFTER_NS = 5000000000"

definition health :: "string \<Rightarrow> timestamp \<Rightarrow> sub_key list \<Rightarrow> (auth_id \<Rightarrow> live_stats) \<Rightarrow> 'c datamancer \<Rightarrow> health_view" where
  "health version now order st dm =
     (let s = snapshot_live now order st dm;
          view = health_from_snapshot (ss_captured_at s) (ss_providers s) (ss_authoritative_sessions s) DEFAULT_QUIET_AFTER_NS
      in view\<lparr> hv_daemon := (hv_daemon view)\<lparr> dh_version := Some version \<rparr> \<rparr>)"

section \<open>Correctness of the facade\<close>

lemma adjacent_duplicate_None:
  "sorted (xs :: 'a :: linorder list) \<Longrightarrow> adjacent_duplicate xs = None \<longleftrightarrow> distinct xs"
  by (induction xs rule: adjacent_duplicate.induct) (auto simp: order.antisym)

lemma adjacent_duplicate_Some: "adjacent_duplicate xs = Some a \<Longrightarrow> 2 \<le> count_list xs a"
  by (induction xs rule: adjacent_duplicate.induct) (auto split: if_splits)

lemma count_list_sort: "count_list (sort xs) a = count_list xs a"
  by (metis count_mset mset_sort)

lemma find_first:
  "find P xs = Some x \<Longrightarrow> x \<in> set xs \<and> P x \<and> (\<exists>ys zs. xs = ys @ x # zs \<and> (\<forall>y\<in>set ys. \<not> P y))"
proof (induction xs)
  case (Cons y xs)
  show ?case
  proof (cases "P y")
    case False
    then obtain ys zs where "x \<in> set xs" "P x" "xs = ys @ x # zs" "\<forall>z\<in>set ys. \<not> P z"
      using Cons by auto
    moreover from this have "y # xs = (y # ys) @ x # zs" "\<forall>z\<in>set (y # ys). \<not> P z" using False by simp_all
    ultimately show ?thesis by (metis list.set_intros(2))
  next
    case True
    then have "y # xs = [] @ x # xs" "P x" using Cons.prems by simp_all
    then show ?thesis by fastforce
  qed
qed simp

text \<open>The builder accepts exactly the provider lists without a repeated id, and an error
  names an id that is registered at least twice. An accepted build keeps the registration
  order, starts with an empty registry and one fresh accounting entry per provider.\<close>

lemma build_spec:
  "case build b of
     Inl e \<Rightarrow> \<exists>a. e = Config (''duplicate provider id: '' @ a) \<and> 2 \<le> count_list (map pv_id (bd_providers b)) a
   | Inr dm \<Rightarrow> distinct (map pv_id (dm_providers dm)) \<and> dm_providers dm = bd_providers b
       \<and> map fst (dm_provider_accounting dm) = map pv_id (dm_providers dm)
       \<and> (\<forall>pid. accounting_for pid dm = accounting_default) \<and> dm_live_sessions dm = registry_empty"
proof (cases "adjacent_duplicate (sort (map pv_id (bd_providers b)))")
  case None
  then have "distinct (map pv_id (bd_providers b))"
    using adjacent_duplicate_None [of "sort (map pv_id (bd_providers b))"] by simp
  moreover have "find (\<lambda>(i, _). i = pid) (map (\<lambda>p. (pv_id p, accounting_default)) ps) = Some x \<Longrightarrow> snd x = accounting_default"
    for pid x ps by (induction ps) (auto split: if_splits)
  ultimately show ?thesis
    using None by (auto simp: build_def accounting_for_def comp_def split: option.splits)
next
  case (Some a)
  then show ?thesis
    using adjacent_duplicate_Some [OF Some] by (auto simp: build_def count_list_sort)
qed

text \<open>Routing. The chosen provider is registered and serves every requested surface; with
  a pin it is the pinned one, without a pin no earlier registered provider would do. When
  there is none, the error names a requested surface: one nobody serves if there is one.\<close>

lemma route_spec:
  "case route i k surfaces dm of
     Inr p \<Rightarrow> p \<in> set (dm_providers dm) \<and> (\<forall>s\<in>set surfaces. pv_supports p i k s)
       \<and> (case pinned i dm of
            Some pid \<Rightarrow> pv_id p = pid
          | None \<Rightarrow> \<exists>before after. dm_providers dm = before @ p # after
              \<and> (\<forall>q\<in>set before. \<exists>s\<in>set surfaces. \<not> pv_supports q i k s))
   | Inl e \<Rightarrow> (\<exists>m. e = UnsupportedEventKind k i m
         \<and> (surfaces \<noteq> [] \<longrightarrow> m \<in> set surfaces)
         \<and> ((\<exists>s\<in>set surfaces. \<forall>p\<in>set (dm_providers dm). \<not> pv_supports p i k s)
              \<longrightarrow> (\<forall>p\<in>set (dm_providers dm). \<not> pv_supports p i k m)))
       \<and> (\<forall>p\<in>set (dm_providers dm). (\<forall>s\<in>set surfaces. pv_supports p i k s)
            \<longrightarrow> (\<exists>pid. pinned i dm = Some pid \<and> pv_id p \<noteq> pid))"
proof (cases "route i k surfaces dm")
  case (Inl e)
  let ?unserved = "\<lambda>s. \<not> list_ex (\<lambda>p. pv_supports p i k s) (dm_providers dm)"
  let ?m = "missing_surface i k surfaces dm"
  have e: "e = UnsupportedEventKind k i ?m"
    and none: "\<forall>p\<in>set (dm_providers dm). serves_all i k surfaces p \<longrightarrow> (\<exists>pid. pinned i dm = Some pid \<and> pv_id p \<noteq> pid)"
    using Inl by (auto simp: route_def find_None_iff Let_def split: option.splits)
  have m: "(surfaces \<noteq> [] \<longrightarrow> ?m \<in> set surfaces) \<and> ((\<exists>s\<in>set surfaces. ?unserved s) \<longrightarrow> ?unserved ?m)"
  proof (cases "find ?unserved surfaces")
    case None
    then have "?m = (case surfaces of s # _ \<Rightarrow> s | [] \<Rightarrow> Live)" by (simp add: missing_surface_def)
    then show ?thesis using None by (auto simp: find_None_iff split: list.splits)
  next
    case (Some s)
    then show ?thesis using find_first [OF Some] by (simp add: missing_surface_def)
  qed
  show ?thesis using Inl e none m by (auto simp: serves_all_def list_all_iff list_ex_iff)
next
  case (Inr p)
  show ?thesis
  proof (cases "pinned i dm")
    case None
    then have "find (serves_all i k surfaces) (dm_providers dm) = Some p"
      using Inr by (simp add: route_def split: option.splits)
    from find_first [OF this] show ?thesis
      using Inr None by (simp add: serves_all_def list_all_iff)
  next
    case (Some pid)
    then have "find (\<lambda>p. pv_id p = pid \<and> serves_all i k surfaces p) (dm_providers dm) = Some p"
      using Inr by (simp add: route_def split: option.splits)
    from find_first [OF this] show ?thesis
      using Inr Some by (simp add: serves_all_def list_all_iff)
  qed
qed

text \<open>The stream keys of a snapshot, and the provider a registered stream belongs to.\<close>

definition snapshot_key :: "auth_snapshot \<Rightarrow> sub_key" where
  "snapshot_key s = (as_instrument s, as_kind s)"

definition held_by :: "registry \<Rightarrow> sub_key \<Rightarrow> provider_id option" where
  "held_by g key =
     Option.bind (rg_slots g key) (\<lambda>a. Option.bind (rg_store g a)
       (\<lambda>s. if au_strong s = 0 then None else Some (au_provider s)))"

lemma auth_handle_held:
  assumes "reg_ok g"
  shows "map_option (\<lambda>h. (ah_provider h, (ah_instrument h, ah_kind h))) (auth_handle st g key) =
           map_option (\<lambda>p. (p, key)) (held_by g key)"
proof (cases "rg_slots g key")
  case (Some a)
  then obtain s where "rg_store g a = Some s" "au_key s = key" using reg_slot [OF assms Some] by blast
  then show ?thesis using Some by (auto simp: auth_handle_def held_by_def)
qed (simp add: auth_handle_def held_by_def)

lemma snapshot_key_auth_entry [simp]: "snapshot_key (auth_entry h) = (ah_instrument h, ah_kind h)"
  by (simp add: snapshot_key_def auth_entry_def with_timestamps_def auth_snapshot_new_def)

lemma as_connection_auth_entry [simp]: "as_connection (auth_entry h) = ls_connection (ah_stats h)"
  by (simp add: auth_entry_def)

lemma handle_keys:
  assumes "reg_ok g"
  shows "map (\<lambda>h. (ah_instrument h, ah_kind h)) (List.map_filter (auth_handle st g) order) =
           filter (\<lambda>key. held_by g key \<noteq> None) order"
proof (induction order)
  case (Cons key order)
  then show ?case using auth_handle_held [OF assms, of st key]
    by (cases "auth_handle st g key"; cases "held_by g key") (auto simp: List.map_filter_simps)
qed (simp add: List.map_filter_simps)

lemma handle_provider:
  assumes "reg_ok g" "h \<in> set (List.map_filter (auth_handle st g) order)"
  shows "held_by g (ah_instrument h, ah_kind h) = Some (ah_provider h)"
proof -
  obtain key where "auth_handle st g key = Some h" using assms(2) by (auto simp: map_filter_def)
  then show ?thesis using auth_handle_held [OF assms(1), of st key] by (cases "held_by g key") auto
qed


lemma distinct_singleton: "distinct xs \<Longrightarrow> set xs = {x} \<Longrightarrow> xs = [x]"
  by (cases xs; cases "tl xs") auto

text \<open>A handle with two providers, the first live only, and one running session.\<close>

definition demo_provider :: "provider_id \<Rightarrow> surface list \<Rightarrow> provider" where
  "demo_provider pid surfaces =
     \<lparr> pv_id = pid, pv_supports = (\<lambda>i k s. s \<in> set surfaces), pv_list_instruments = Inr [],
       pv_capabilities = (\<lambda>i. Inr None), pv_metrics = None, pv_enabled = True \<rparr>"

definition demo_dm :: "unit datamancer" where
  "demo_dm =
     \<lparr> dm_providers = [demo_provider ''alpaca'' [Live], demo_provider ''other'' [Live, History]],
       dm_tap_log = None, dm_historical_cache = None, dm_instrument_provider = [],
       dm_live_sessions = demo_registry, dm_resume_buffer_events = 4, dm_adjustment = All,
       dm_provider_accounting = [(''alpaca'', accounting_default), (''other'', accounting_default)],
       dm_client_sessions = [] \<rparr>"

lemma route_spec_witness:
  "(\<exists>p. route demo_instrument KTrade [Live, History] demo_dm = Inr p \<and> pv_id p = ''other'')
    \<and> pv_supports (projr (route demo_instrument KTrade [Live, History] demo_dm)) demo_instrument KTrade History"
proof -
  have r: "route demo_instrument KTrade [Live, History] demo_dm = Inr (demo_provider ''other'' [Live, History])"
    by (simp add: route_def demo_dm_def pinned_def serves_all_def demo_provider_def)
  have "pv_supports (demo_provider ''other'' [Live, History]) demo_instrument KTrade History"
    using route_spec [where i = demo_instrument and k = KTrade and surfaces = "[Live, History]" and dm = demo_dm] r by simp
  then show ?thesis using r by (simp add: demo_provider_def)
qed


text \<open>What a failed open leaves behind: a missing cache or tap log and an unroutable
  pair change nothing at all; every other failure comes from the provider or the shared
  session and leaves the tables of providers, pins and client sessions as they were.\<close>

lemma open_session_errors:
  assumes "open_session env1 out cid i k sc opts dm = (Inl e, dm')"
  shows "(uses_cache opts \<and> dm_historical_cache dm = None \<or> write_tap_log opts \<and> dm_tap_log dm = None
        \<longrightarrow> e = PersistenceRequired \<and> dm' = dm)
    \<and> (\<not> (uses_cache opts \<and> dm_historical_cache dm = None) \<and> \<not> (write_tap_log opts \<and> dm_tap_log dm = None)
        \<longrightarrow> (case route i k (case sc of Historical _ _ \<Rightarrow> [History] | LiveScope _ \<Rightarrow> live_surfaces sc) dm of
              Inl r \<Rightarrow> e = r \<and> dm' = dm
            | Inr p \<Rightarrow> (\<exists>b. sc = LiveScope b) \<and> dm_providers dm' = dm_providers dm
                \<and> dm_instrument_provider dm' = dm_instrument_provider dm
                \<and> dm_client_sessions dm' = dm_client_sessions dm
                \<and> map fst (dm_provider_accounting dm') = map fst (dm_provider_accounting dm)))"
proof -
  have "map fst (map (\<lambda>(j, b). (j, if j = pid then a else b)) xs) = map fst xs" for pid a and xs :: "(provider_id \<times> accounting) list"
    by (induction xs) auto
  then show ?thesis
    using assms
    by (auto simp: open_session_def open_authoritative_def set_accounting_def Let_def
        split: if_splits scope.splits sum.splits prod.splits)
qed

lemma open_session_errors_witness:
  "open_session id OpenOk 0 demo_instrument KTrade (Historical 0 1) options_cached demo_dm = (Inl PersistenceRequired, demo_dm)"
proof -
  obtain e dm' where r: "open_session id OpenOk 0 demo_instrument KTrade (Historical 0 1) options_cached demo_dm = (Inl e, dm')"
    by (simp add: open_session_def uses_cache_def options_cached_def demo_dm_def)
  then show ?thesis
    using open_session_errors [OF r] by (simp add: uses_cache_def options_cached_def demo_dm_def)
qed

end
