(* ===== verification/Controller_Inv.thy ===== *)
theory Controller_Inv
  imports Controller
begin

text \<open>
  Invariants of the controller, proved once for every operation. \<open>segment_invariant\<close> is the
  contract of a property that survives emitting an event, forwarding a control and any step
  that leaves the stream alone; it then survives \<open>stream_segments\<close> and the historical paths
  built on it. \<open>controller_invariant\<close> adds forwarding of data, and with it the live loop, the
  seam flush and the uncached fetch.
\<close>

section \<open>Frames\<close>

text \<open>
  Steps that touch neither the stream nor the tap log: what is buffered for the consumer
  stays, though its channel may close.
\<close>

definition same_buffer :: "sink \<Rightarrow> sink \<Rightarrow> bool" where
  "same_buffer s s' =
     (case (s, s') of
        (Attached a, Attached b) \<Rightarrow> ch_queue a = ch_queue b
      | (Detached r, Detached r') \<Rightarrow> r = r'
      | _ \<Rightarrow> False)"

lemma same_buffer_refl [simp]: "same_buffer s s"
  by (simp add: same_buffer_def split: sink.splits)

definition frame :: "'c controller \<Rightarrow> 'c controller \<Rightarrow> bool" where
  "frame c c' \<longleftrightarrow> ct_trace c' = ct_trace c \<and> ct_next_seq c' = ct_next_seq c \<and>
     ct_tap_log c' = ct_tap_log c \<and> ct_scope c' = ct_scope c \<and> ct_instrument c' = ct_instrument c \<and>
     ct_kind c' = ct_kind c \<and> ct_provider c' = ct_provider c \<and> ct_adjustment c' = ct_adjustment c \<and>
     ct_ring_capacity c' = ct_ring_capacity c \<and> same_buffer (ct_sink c) (ct_sink c') \<and>
     (ct_fanout c' = None \<longleftrightarrow> ct_fanout c = None)"

named_theorems frames "frame facts of the operations"

lemma frame_refl [frames]: "frame c c"
  by (simp add: frame_def)

lemma frame_fields [frames]:
  "frame c (c\<lparr> ct_stats := st \<rparr>)" "frame c (c\<lparr> ct_accounting := a \<rparr>)" "frame c (c\<lparr> ct_cache := k \<rparr>)"
  "frame c (c\<lparr> ct_stats := st, ct_accounting := a \<rparr>)" "frame c (c\<lparr> ct_cache := k, ct_accounting := a \<rparr>)"
  by (simp_all add: frame_def)

lemma frame_apply_persistence [frames]: "frame c (snd (apply_persistence opts c))"
  by (simp add: frame_def apply_persistence_def)

lemma frame_add_subscriber [frames]: "frame c (add_subscriber sid ch c)"
  by (simp add: frame_def add_subscriber_def Let_def split: option.splits)

lemma frame_remove_subscriber [frames]: "frame c (remove_subscriber sid c)"
  by (simp add: frame_def remove_subscriber_def Let_def split: option.splits)

lemma frame_backfill_removal [frames]: "frame c (snd (backfill_removal r c))"
  by (cases r) (simp_all add: backfill_removal_def Let_def frames)

lemma frame_note_provider_arrival [frames]: "frame c (note_provider_arrival ev c)"
  by (simp add: frame_def note_provider_arrival_def split: market_event.splits prod.splits)

lemma frame_env_step [frames]: "frame c (env_step act c)"
  by (cases act) (simp_all add: frame_def env_step_def on_referrer_def same_buffer_def split: sink.splits)

lemma frame_cache_write [frames]: "frame c (cache_write ops opts f t batch c)"
  by (simp add: frame_def cache_write_def split: option.splits)

lemma frame_teardown [frames]: "frame c (teardown_upstream c)"
  by (simp add: frame_def teardown_upstream_def)

lemma frame_plan [frames]: "frame c (snd (plan_historical ops waited f t opts cache c))"
  by (simp add: frame_def plan_historical_def Let_def)

section \<open>Properties of segment streaming\<close>

locale segment_invariant =
  fixes P :: "'c controller \<Rightarrow> bool"
  assumes inv_emit: "P c \<Longrightarrow> emit ev c = Some c' \<Longrightarrow> P c'"
    and inv_forward_control: "P c \<Longrightarrow> \<not> is_data ev \<Longrightarrow> forward_with ev arr c = Some c' \<Longrightarrow> P c'"
    and inv_frame: "P c \<Longrightarrow> frame c c' \<Longrightarrow> P c'"
begin

lemma inv_shutdown: "shutdown now c = Some c' \<Longrightarrow> P c \<Longrightarrow> P c'"
  unfolding shutdown_def using inv_emit by blast

lemma inv_emit_gap: "emit_gap src f t c = Some c' \<Longrightarrow> P c \<Longrightarrow> P c'"
  unfolding emit_gap_def forward_def gap_control_def using inv_forward_control is_data_Control by blast

lemma inv_cache_write: "P c \<Longrightarrow> P (cache_write ops opts f t batch c)"
  by (rule inv_frame [OF _ frame_cache_write])

lemma inv_emit_provider_error: "emit_provider_error src m c = Some c' \<Longrightarrow> P c \<Longrightarrow> P c'"
  unfolding emit_provider_error_def forward_def error_control_def
  using inv_forward_control is_data_Control inv_frame [OF _ frame_fields(2)] by blast

lemma inv_handle_command: "handle_command now cmd c = Some (go, c') \<Longrightarrow> P c \<Longrightarrow> P c'"
  using inv_shutdown inv_frame [OF _ frame_apply_persistence] inv_frame [OF _ frame_add_subscriber]
  by (auto simp: handle_command_def split: option.splits command.splits bind_splits)

lemma inv_side_branch: "side_branch ch lv c = Some (go, lv', c') \<Longrightarrow> P c \<Longrightarrow> P c'"
proof (cases ch)
  case (ChCmd now cmd)
  then show "side_branch ch lv c = Some (go, lv', c') \<Longrightarrow> P c \<Longrightarrow> P c'"
    by (auto simp: side_branch_def split: bind_splits intro: inv_handle_command)
next
  case (ChRemoval now r)
  then show "side_branch ch lv c = Some (go, lv', c') \<Longrightarrow> P c \<Longrightarrow> P c'"
    using inv_frame [OF _ frame_backfill_removal] inv_shutdown
    by (auto simp: side_branch_def split: bind_splits prod.splits if_splits) (metis snd_conv)+
qed (auto simp: side_branch_def split: if_splits option.splits
      intro: inv_frame [OF _ frame_note_provider_arrival] inv_frame [OF _ frame_env_step])

lemma inv_covered_loop:
  "covered_loop sched stream lv c = Some (e, sched', lv', c') \<Longrightarrow> P c \<Longrightarrow> P c'"
  by (induction sched stream lv c rule: covered_loop.induct)
     (auto split: bind_splits if_splits intro: inv_emit inv_side_branch dest: inv_side_branch inv_emit)

lemma inv_gap_loop:
  "gap_loop st sched rx lv c batch mx = Some (e, sched', lv', c', batch', mx') \<Longrightarrow> P c \<Longrightarrow> P c'"
  by (induction st sched rx lv c batch mx rule: gap_loop.induct)
     (auto split: bind_splits if_splits intro: inv_emit inv_side_branch dest: inv_side_branch inv_emit)

lemma inv_covered_segment:
  "covered_segment ops f t sched lv c = Some (e, mr, sched', lv', c') \<Longrightarrow> P c \<Longrightarrow> P c'"
  by (auto simp: covered_segment_def Let_def split: bind_splits option.splits sum.splits
      intro: inv_emit_gap inv_covered_loop)

lemma inv_gap_segment:
  assumes "gap_segment ops fetch opts edge f t sched lv c = Some (e, mr, sched', lv', c')" "P c"
  shows "P c'"
proof -
  have acct: "P (c\<lparr> ct_accounting := record_history_fetch (ct_accounting c) \<rparr>)"
    using assms(2) inv_frame frame_fields(2) by blast
  show ?thesis
    using assms(1) acct
    by (auto simp: gap_segment_def Let_def split: bind_splits option.splits prod.splits if_splits
        dest!: inv_gap_loop inv_emit_provider_error inv_emit_gap intro: inv_cache_write)
qed

lemma inv_stream_segments:
  "stream_segments ops fetch opts edge segs sched lv c = Some (e, sched', lv', c') \<Longrightarrow> P c \<Longrightarrow> P c'"
proof (induction segs arbitrary: sched lv c)
  case (Cons seg segs)
  then show ?case
    by (cases seg) (auto split: bind_splits if_splits dest!: inv_covered_segment inv_gap_segment)
qed simp

lemma inv_finish_loop: "finish_loop ins c = Some (x, c') \<Longrightarrow> P c \<Longrightarrow> P c'"
proof (induction ins arbitrary: c)
  case (Cons i ins)
  then show ?case
    by (cases i) (auto split: bind_splits if_splits dest: inv_handle_command inv_shutdown
        intro: inv_frame [OF _ frame_env_step])
qed simp

lemma inv_finish_historical: "finish_historical now now' ins c = Some (x, c') \<Longrightarrow> P c \<Longrightarrow> P c'"
  by (auto simp: finish_historical_def split: bind_splits if_splits sink.splits
      dest: inv_shutdown inv_emit inv_finish_loop)

lemma inv_run_historical_cached:
  "run_historical_cached ops fetch waited now now' f t opts cache sched ins c = Some (x, c') \<Longrightarrow> P c \<Longrightarrow> P c'"
  using inv_frame [OF _ frame_plan]
  by (auto simp: run_historical_cached_def split: bind_splits prod.splits seg_outcome.splits
      dest!: inv_stream_segments inv_finish_historical) (metis snd_conv)+

end

section \<open>Properties of the whole controller\<close>

locale controller_invariant = segment_invariant P for P :: "'c controller \<Rightarrow> bool" +
  assumes inv_forward: "P c \<Longrightarrow> forward_with ev arr c = Some c' \<Longrightarrow> P c'"
begin

lemma inv_forward_all: "forward_all evs c = Some c' \<Longrightarrow> P c \<Longrightarrow> P c'"
  by (induction evs arbitrary: c) (auto simp: forward_def split: bind_splits intro: inv_forward)

lemma inv_flush: "flush_backfill_pending ring c = Some c' \<Longrightarrow> P c \<Longrightarrow> P c'"
  by (auto simp: flush_backfill_pending_def event_ring_into_parts_def split: bind_splits option.splits
      dest!: inv_forward_all intro: inv_emit_gap)

lemma inv_hist_loop: "hist_loop sched rx c mx = Some (e, c', mx') \<Longrightarrow> P c \<Longrightarrow> P c'"
  by (induction sched rx c mx rule: hist_loop.induct)
     (auto simp: forward_def split: bind_splits if_splits intro: inv_forward dest: inv_side_branch inv_forward)

lemma inv_run_historical_uncached:
  assumes "run_historical_uncached fetch now now' f t sched ins c = Some (x, c')" "P c"
  shows "P c'"
proof -
  have acct: "P (c\<lparr> ct_accounting := record_history_fetch (ct_accounting c) \<rparr>)"
    using assms(2) inv_frame frame_fields(2) by blast
  show ?thesis
    using assms(1) acct
    by (auto simp: run_historical_uncached_def Let_def split: bind_splits option.splits prod.splits loop_end.splits
        dest!: inv_hist_loop inv_finish_historical intro: inv_emit_provider_error)
qed

lemma inv_run_historical:
  "run_historical ops fetch waited now now' f t sched ins c = Some (x, c') \<Longrightarrow> P c \<Longrightarrow> P c'"
  by (auto simp: run_historical_def split: option.splits if_splits
      dest: inv_run_historical_cached inv_run_historical_uncached)

lemma inv_run_backfill:
  assumes "run_backfill ops fetch edge f sched c = Some (e, c')" "P c"
  shows "P c'"
proof (cases "f \<ge> edge")
  case True
  then show ?thesis using assms by (simp add: run_backfill_def)
next
  case False
  have st: "P (c\<lparr> ct_stats := set_backfilling True (ct_stats c) \<rparr>)"
    using assms(2) inv_frame frame_fields(1) by blast
  show ?thesis
    using assms(1) False st
    by (auto simp: run_backfill_def Let_def split: bind_splits option.splits seg_outcome.splits
        dest!: inv_stream_segments inv_flush intro: inv_frame [OF _ frame_fields(1)])
qed

lemma inv_arrival: "forward ev (note_provider_arrival ev c) = Some c' \<Longrightarrow> P c \<Longrightarrow> P c'"
  unfolding forward_def using inv_forward inv_frame [OF _ frame_note_provider_arrival] by blast

lemma inv_live_loop: "live_loop seed ins c = Some (x, c') \<Longrightarrow> P c \<Longrightarrow> P c'"
proof (induction ins arbitrary: seed c)
  case Nil
  then show ?case by (auto split: if_splits intro: inv_frame [OF _ frame_teardown])
next
  case (Cons inp ins)
  note tear = inv_frame [OF _ frame_teardown]
  show ?case
  proof (cases "live_should_teardown c")
    case True
    then show ?thesis using Cons.prems tear by auto
  next
    case False
    show ?thesis
    proof (cases inp)
      case (LiCmd now cmd)
      then obtain go c1 where "handle_command now cmd c = Some (go, c1)"
        and rest: "(if go then live_loop seed ins c1 else Some (True, teardown_upstream c1)) = Some (x, c')"
        using Cons.prems(1) False by (auto split: bind_splits)
      then have "P c1" using inv_handle_command Cons.prems(2) by blast
      then show ?thesis using rest Cons.IH [of seed c1] tear [of c1] by (auto split: if_splits)
    next
      case (LiRemove sid)
      then show ?thesis
        using Cons False tear [of c] inv_frame [OF _ frame_remove_subscriber] by (auto split: option.splits)
    next
      case (LiProvider ev)
      then show ?thesis
        using Cons False tear [of c] inv_arrival by (auto split: option.splits bind_splits)
    next
      case (LiSeed sd)
      then show ?thesis
        using Cons False inv_forward by (auto split: option.splits bind_splits if_splits)
    next
      case (LiEnv act)
      then show ?thesis using Cons False inv_frame [OF _ frame_env_step] by auto
    qed
  qed
qed

lemma inv_run_live:
  assumes "run_live ops fetch edge bf sched ins seed c = Some (x, c')" "P c"
  shows "P c'"
proof -
  have "P (case ct_fanout c of
            Some f \<Rightarrow> c\<lparr> ct_stats := set_subscribers (fanout_subscriber_count f) (ct_stats c) \<rparr> | None \<Rightarrow> c)"
    using assms(2) by (auto split: option.splits intro: inv_frame [OF _ frame_fields(1)])
  then show ?thesis
    using assms(1)
    by (auto simp: run_live_def Let_def split: bind_splits option.splits seg_outcome.splits
        dest!: inv_run_backfill inv_live_loop intro: inv_frame [OF _ frame_teardown])
qed

end

section \<open>What an emit and a forward do to the stream\<close>

lemma stamp_Some:
  "stamp ev c = Some (ev', c') \<longleftrightarrow>
     unat (ct_next_seq c) + 2 < 2 ^ 64 \<and> ev' = stamp_seq ev (ct_next_seq c)
     \<and> c' = c\<lparr> ct_next_seq := ct_next_seq c + 1 \<rparr>"
proof -
  have max: "ct_next_seq c + 1 = u64_max \<longleftrightarrow> unat (ct_next_seq c) + 1 = 2 ^ 64 - 1"
    if "unat (ct_next_seq c) + 1 < 2 ^ 64"
    using that by (simp add: word_unat_eq_iff unat_word_ariths)
  show ?thesis
    using max by (auto simp: stamp_def checked_add_u64_def)
qed

lemma stamp_None: "stamp ev c = None \<longleftrightarrow> 2 ^ 64 \<le> unat (ct_next_seq c) + 2"
  using stamp_Some [of ev c] by (metis not_None_eq not_le surj_pair)

lemma deliver_with_fields [simp]:
  "ct_trace (deliver_with ev arr c) = ct_trace c @ [ev]"
  "ct_next_seq (deliver_with ev arr c) = ct_next_seq c"
  "ct_tap_log (deliver_with ev arr c) = ct_tap_log c"
  "ct_scope (deliver_with ev arr c) = ct_scope c"
  "ct_persistence (deliver_with ev arr c) = ct_persistence c"
  "ct_instrument (deliver_with ev arr c) = ct_instrument c"
  "ct_provider (deliver_with ev arr c) = ct_provider c"
  "ct_cache (deliver_with ev arr c) = ct_cache c"
  "ct_kind (deliver_with ev arr c) = ct_kind c"
  "ct_adjustment (deliver_with ev arr c) = ct_adjustment c"
  by (simp_all add: deliver_with_def Let_def split: option.splits)

lemma tee_fields [simp]:
  "ct_trace (tee ev c) = ct_trace c" "ct_next_seq (tee ev c) = ct_next_seq c"
  "ct_scope (tee ev c) = ct_scope c" "ct_persistence (tee ev c) = ct_persistence c"
  "ct_instrument (tee ev c) = ct_instrument c" "ct_provider (tee ev c) = ct_provider c"
  "ct_cache (tee ev c) = ct_cache c" "ct_kind (tee ev c) = ct_kind c"
  "ct_adjustment (tee ev c) = ct_adjustment c"
  by (simp_all add: tee_def split: option.splits scope.splits)

text \<open>Whether the controller is configured to capture to the tap log.\<close>

definition teeing :: "'c controller \<Rightarrow> bool" where
  "teeing c \<longleftrightarrow> (\<exists>b. ct_scope c = LiveScope b) \<and> write_tap_log (ct_persistence c)"

lemma tee_log:
  "ct_tap_log (tee ev c) =
     (if is_data ev \<and> teeing c then map_option (\<lambda>log. log @ [ev]) (ct_tap_log c) else ct_tap_log c)"
  by (auto simp: tee_def teeing_def split: option.splits scope.splits)

lemma emit_Some:
  assumes "emit ev c = Some c'"
  shows "unat (ct_next_seq c) + 2 < 2 ^ 64" "ct_next_seq c' = ct_next_seq c + 1"
    "ct_trace c' = ct_trace c @ [stamp_seq ev (ct_next_seq c)]" "ct_tap_log c' = ct_tap_log c"
    "ct_scope c' = ct_scope c" "ct_persistence c' = ct_persistence c" "ct_cache c' = ct_cache c"
    "ct_instrument c' = ct_instrument c" "ct_provider c' = ct_provider c" "ct_kind c' = ct_kind c"
    "ct_adjustment c' = ct_adjustment c"
  using assms by (auto simp: emit_def deliver_def stamp_Some split: bind_splits)

lemma forward_Some:
  assumes "forward_with ev arr c = Some c'"
  shows "unat (ct_next_seq c) + 2 < 2 ^ 64" "ct_next_seq c' = ct_next_seq c + 1"
    "ct_trace c' = ct_trace c @ [stamp_seq ev (ct_next_seq c)]"
    "ct_tap_log c' = (if is_data ev \<and> teeing c
       then map_option (\<lambda>log. log @ [stamp_seq ev (ct_next_seq c)]) (ct_tap_log c) else ct_tap_log c)"
    "ct_scope c' = ct_scope c" "ct_persistence c' = ct_persistence c" "ct_cache c' = ct_cache c"
    "ct_instrument c' = ct_instrument c" "ct_provider c' = ct_provider c" "ct_kind c' = ct_kind c"
    "ct_adjustment c' = ct_adjustment c"
  using assms by (auto simp: forward_with_def stamp_Some tee_log teeing_def Let_def split: bind_splits)

section \<open>Interpretations\<close>

text \<open>The stream is stamped \<open>0, 1, 2, \<dots>\<close> and the counter is its length.\<close>

definition seq_inv :: "'c controller \<Rightarrow> bool" where
  "seq_inv c \<longleftrightarrow> map ev_seq (ct_trace c) = map of_nat [0 ..< length (ct_trace c)]
     \<and> unat (ct_next_seq c) = length (ct_trace c) \<and> length (ct_trace c) + 1 < 2 ^ 64"

lemma seq_inv_extend:
  assumes "seq_inv c" "unat (ct_next_seq c) + 2 < 2 ^ 64" "ct_next_seq c' = ct_next_seq c + 1"
    and "ct_trace c' = ct_trace c @ [stamp_seq ev (ct_next_seq c)]"
  shows "seq_inv c'"
proof -
  have "ct_next_seq c = of_nat (length (ct_trace c))"
    using assms(1) by (metis seq_inv_def of_nat_unat_u64)
  then show ?thesis using assms by (auto simp: seq_inv_def unat_word_ariths)
qed

interpretation seqs: controller_invariant seq_inv
proof
  fix c c' :: "'c controller" and ev arr
  show "seq_inv c \<Longrightarrow> emit ev c = Some c' \<Longrightarrow> seq_inv c'"
    using emit_Some(1-3) seq_inv_extend by blast
  show "seq_inv c \<Longrightarrow> \<not> is_data ev \<Longrightarrow> forward_with ev arr c = Some c' \<Longrightarrow> seq_inv c'"
    using forward_Some(1-3) seq_inv_extend by blast
  show "seq_inv c \<Longrightarrow> forward_with ev arr c = Some c' \<Longrightarrow> seq_inv c'"
    using forward_Some(1-3) seq_inv_extend by blast
  show "seq_inv c \<Longrightarrow> frame c c' \<Longrightarrow> seq_inv c'"
    by (simp add: seq_inv_def frame_def)
qed

text \<open>The tap log holds data events of the stream, verbatim and in stream order.\<close>

definition log_inv :: "market_event list \<Rightarrow> 'c controller \<Rightarrow> bool" where
  "log_inv log0 c \<longleftrightarrow> (\<forall>log. ct_tap_log c = Some log \<longrightarrow>
     (\<exists>new. log = log0 @ new \<and> subseq new (filter is_data (ct_trace c))))"

lemma subseq_snoc: "subseq xs ys \<Longrightarrow> subseq xs (ys @ zs)"
  by (rule subseq_order.trans) auto

lemma log_inv_grow:
  assumes "log_inv log0 c" "ct_tap_log c' = ct_tap_log c" "ct_trace c' = ct_trace c @ xs"
  shows "log_inv log0 c'"
  unfolding log_inv_def
proof (intro allI impI)
  fix log
  assume "ct_tap_log c' = Some log"
  then obtain new where "log = log0 @ new" "subseq new (filter is_data (ct_trace c))"
    using assms(1,2) by (auto simp: log_inv_def)
  then show "\<exists>new. log = log0 @ new \<and> subseq new (filter is_data (ct_trace c'))"
    using subseq_snoc by (auto simp: assms(3))
qed

lemma log_inv_forward:
  assumes "log_inv log0 c" and f: "forward_with ev arr c = Some c'"
  shows "log_inv log0 c'"
proof (cases "is_data ev \<and> teeing c")
  case True
  then show ?thesis
    using assms(1) by (auto simp: log_inv_def forward_Some(3,4) [OF f] list_emb_append_mono)
next
  case False
  then have "ct_tap_log c' = ct_tap_log c" using forward_Some(4) [OF f] by (simp only: if_False)
  then show ?thesis using log_inv_grow assms(1) forward_Some(3) [OF f] by blast
qed

interpretation logs: controller_invariant "log_inv log0"
proof
  fix c c' :: "'c controller" and ev arr
  show "log_inv log0 c \<Longrightarrow> emit ev c = Some c' \<Longrightarrow> log_inv log0 c'"
    by (rule log_inv_grow [OF _ emit_Some(4) emit_Some(3)])
  show "log_inv log0 c \<Longrightarrow> \<not> is_data ev \<Longrightarrow> forward_with ev arr c = Some c' \<Longrightarrow> log_inv log0 c'"
    using log_inv_forward by blast
  show "log_inv log0 c \<Longrightarrow> forward_with ev arr c = Some c' \<Longrightarrow> log_inv log0 c'"
    by (rule log_inv_forward)
  show "log_inv log0 c \<Longrightarrow> frame c c' \<Longrightarrow> log_inv log0 c'"
    by (simp add: log_inv_def frame_def)
qed

text \<open>Nothing a plan streams reaches the tap log.\<close>

interpretation untouched: segment_invariant "\<lambda>c. ct_tap_log c = log0"
proof
  fix c c' :: "'c controller" and ev arr
  show "ct_tap_log c = log0 \<Longrightarrow> emit ev c = Some c' \<Longrightarrow> ct_tap_log c' = log0"
    by (simp add: emit_Some(4))
  show "ct_tap_log c = log0 \<Longrightarrow> \<not> is_data ev \<Longrightarrow> forward_with ev arr c = Some c' \<Longrightarrow> ct_tap_log c' = log0"
    by (simp add: forward_Some(4))
  show "ct_tap_log c = log0 \<Longrightarrow> frame c c' \<Longrightarrow> ct_tap_log c' = log0"
    by (simp add: frame_def)
qed

text \<open>The stream only grows.\<close>

interpretation grows: controller_invariant "\<lambda>c. prefix tr (ct_trace c)"
proof
  fix c c' :: "'c controller" and ev arr
  show "prefix tr (ct_trace c) \<Longrightarrow> emit ev c = Some c' \<Longrightarrow> prefix tr (ct_trace c')"
    by (simp add: emit_Some(3))
  show "prefix tr (ct_trace c) \<Longrightarrow> \<not> is_data ev \<Longrightarrow> forward_with ev arr c = Some c' \<Longrightarrow> prefix tr (ct_trace c')"
    by (simp add: forward_Some(3))
  show "prefix tr (ct_trace c) \<Longrightarrow> forward_with ev arr c = Some c' \<Longrightarrow> prefix tr (ct_trace c')"
    by (simp add: forward_Some(3))
  show "prefix tr (ct_trace c) \<Longrightarrow> frame c c' \<Longrightarrow> prefix tr (ct_trace c')"
    by (simp add: frame_def)
qed

text \<open>
  A historical session's consumer: while attached, its channel holds the whole stream; after
  it dropped the stream, the resume ring was fed everything since.
\<close>

fun buffered :: "nat \<Rightarrow> market_event list \<Rightarrow> sink \<Rightarrow> bool" where
  "buffered cap tr (Attached ch) \<longleftrightarrow> ch_queue ch = tr"
| "buffered cap tr (Detached r) \<longleftrightarrow>
     (\<exists>pre suf. tr = pre @ suf \<and> r = fold event_ring_push suf (event_ring_new cap))"

definition sink_inv :: "'c controller \<Rightarrow> bool" where
  "sink_inv c \<longleftrightarrow> (ct_fanout c = None \<longrightarrow> buffered (ct_ring_capacity c) (ct_trace c) (ct_sink c))"

lemma buffered_ring_snoc:
  "buffered cap tr (Detached r) \<Longrightarrow> buffered cap (tr @ [ev]) (Detached (event_ring_push ev r))"
proof -
  assume "buffered cap tr (Detached r)"
  then obtain pre suf where "tr = pre @ suf" "r = fold event_ring_push suf (event_ring_new cap)" by auto
  then have "tr @ [ev] = pre @ (suf @ [ev])"
    "event_ring_push ev r = fold event_ring_push (suf @ [ev]) (event_ring_new cap)" by simp_all
  then show ?thesis unfolding buffered.simps by blast
qed

lemma buffered_deliver: "buffered cap tr s \<Longrightarrow> buffered cap (tr @ [ev]) (sink_deliver cap ev s)"
proof (cases s)
  case (Attached ch)
  have "buffered cap tr (Detached (event_ring_new cap))"
    unfolding buffered.simps by (rule exI [of _ tr], rule exI [of _ "[]"]) simp
  then show "buffered cap tr s \<Longrightarrow> ?thesis"
    using Attached buffered_ring_snoc by (auto simp: sink_deliver_def publish_def simp del: buffered.simps(2))
qed (auto simp: sink_deliver_def buffered_ring_snoc simp del: buffered.simps)

lemma sink_inv_deliver: "sink_inv c \<Longrightarrow> sink_inv (deliver_with ev arr c)"
  by (cases "ct_fanout c") (simp_all add: sink_inv_def deliver_with_def buffered_deliver Let_def)

lemma sink_inv_frame: "sink_inv c \<Longrightarrow> frame c c' \<Longrightarrow> sink_inv c'"
  by (cases "ct_sink c"; cases "ct_sink c'") (auto simp: sink_inv_def frame_def same_buffer_def)

lemma frame_stamp: "stamp ev c = Some (ev', c') \<Longrightarrow> sink_inv c \<Longrightarrow> sink_inv c'"
  by (simp add: stamp_Some sink_inv_def)

lemma sink_inv_tee: "sink_inv c \<Longrightarrow> sink_inv (tee ev c)"
  by (simp add: tee_def sink_inv_def split: option.splits scope.splits)

lemma sink_inv_flag: "sink_inv (c\<lparr> ct_data_forwarded := d \<rparr>) = sink_inv c"
  "sink_inv (c\<lparr> ct_accounting := a \<rparr>) = sink_inv c"
  by (simp_all add: sink_inv_def)

lemma sink_inv_forward:
  assumes "sink_inv c" "forward_with ev arr c = Some c'"
  shows "sink_inv c'"
proof -
  obtain ev1 c1 where st: "stamp ev c = Some (ev1, c1)"
    and c': "c' = (let c2 = (if is_data ev1 then c1\<lparr> ct_data_forwarded := True \<rparr> else c1);
                       c3 = c2\<lparr> ct_accounting :=
                         record_forwarded ev1 (ct_fanout c2 \<noteq> None \<and> arr = ArLive) (ct_accounting c2) \<rparr>
                   in deliver_with ev1 arr (tee ev1 c3))"
    using assms(2) by (auto simp: forward_with_def Let_def split: bind_splits)
  have "sink_inv c1" using frame_stamp [OF st] assms(1) .
  then show ?thesis
    unfolding c' Let_def by (intro sink_inv_deliver sink_inv_tee) (simp add: sink_inv_flag)
qed

interpretation sinks: controller_invariant sink_inv
proof
  fix c c' :: "'c controller" and ev arr
  show "sink_inv c \<Longrightarrow> emit ev c = Some c' \<Longrightarrow> sink_inv c'"
    by (auto simp: emit_def deliver_def split: bind_splits dest!: frame_stamp intro!: sink_inv_deliver)
  show "sink_inv c \<Longrightarrow> \<not> is_data ev \<Longrightarrow> forward_with ev arr c = Some c' \<Longrightarrow> sink_inv c'"
    using sink_inv_forward by blast
  show "sink_inv c \<Longrightarrow> forward_with ev arr c = Some c' \<Longrightarrow> sink_inv c'"
    by (rule sink_inv_forward)
  show "sink_inv c \<Longrightarrow> frame c c' \<Longrightarrow> sink_inv c'"
    by (rule sink_inv_frame)
qed

text \<open>A session without a fan-out keeps none, and its ring capacity is fixed.\<close>

lemma plain_fields [simp]:
  "ct_fanout (deliver_with ev arr c) = None \<longleftrightarrow> ct_fanout c = None"
  "ct_ring_capacity (deliver_with ev arr c) = ct_ring_capacity c"
  "ct_fanout (tee ev c) = ct_fanout c" "ct_ring_capacity (tee ev c) = ct_ring_capacity c"
  by (simp_all add: deliver_with_def tee_def Let_def split: option.splits scope.splits)

lemma emit_plain:
  assumes "emit ev c = Some c'"
  shows "ct_fanout c' = None \<longleftrightarrow> ct_fanout c = None" "ct_ring_capacity c' = ct_ring_capacity c"
  using assms by (auto simp: emit_def deliver_def stamp_Some split: bind_splits)

lemma forward_plain:
  assumes "forward_with ev arr c = Some c'"
  shows "ct_fanout c' = None \<longleftrightarrow> ct_fanout c = None" "ct_ring_capacity c' = ct_ring_capacity c"
  using assms by (auto simp: forward_with_def stamp_Some Let_def split: bind_splits if_splits)

interpretation plain: controller_invariant "\<lambda>c. ct_fanout c = None \<and> ct_ring_capacity c = cap"
proof
  fix c c' :: "'c controller" and ev arr
  let ?P = "\<lambda>c. ct_fanout c = None \<and> ct_ring_capacity c = cap"
  show "?P c \<Longrightarrow> emit ev c = Some c' \<Longrightarrow> ?P c'" by (simp add: emit_plain)
  show "?P c \<Longrightarrow> \<not> is_data ev \<Longrightarrow> forward_with ev arr c = Some c' \<Longrightarrow> ?P c'" by (simp add: forward_plain)
  show "?P c \<Longrightarrow> forward_with ev arr c = Some c' \<Longrightarrow> ?P c'" by (simp add: forward_plain)
  show "?P c \<Longrightarrow> frame c c' \<Longrightarrow> ?P c'" by (simp add: frame_def)
qed

end
