(* ===== verification/Controller_Total.thy ===== *)
theory Controller_Total
  imports Controller_Inv
begin

text \<open>
  The controller's one panic, the exhausted sequence counter, is out of reach while the
  counter has room. \<open>room n c\<close> says that \<open>n\<close> more events can be stamped; each entry of a
  schedule costs at most one and each segment at most two more, so a run whose bound is
  below the counter's range returns.
\<close>

text \<open>A step advances the counter by at most one, and panics only when none is left.\<close>

definition room :: "nat \<Rightarrow> 'c controller \<Rightarrow> bool" where
  "room n c \<longleftrightarrow> unat (ct_next_seq c) + n + 1 < 2 ^ 64"

lemma room_mono: "room n c \<Longrightarrow> m \<le> n \<Longrightarrow> room m c"
  by (simp add: room_def)

lemma room_frame: "frame c c' \<Longrightarrow> room n c' = room n c"
  by (simp add: room_def frame_def)

lemma room_next:
  assumes "room (Suc n) c" "ct_next_seq c' = ct_next_seq c + 1"
  shows "room n c'"
  using assms by (auto simp: room_def unat_word_ariths)

lemma forward_room:
  assumes "room (Suc n) c"
  obtains c' where "forward_with ev arr c = Some c'" "room n c'"
proof -
  from assms have "\<exists>r. stamp ev c = Some r"
    using stamp_None [of ev c] by (auto simp: room_def)
  then obtain c' where f: "forward_with ev arr c = Some c'"
    by (auto simp: forward_with_def Let_def split: bind_splits)
  then show ?thesis using that room_next [OF assms] forward_Some(2) by blast
qed

lemma emit_room:
  assumes "room (Suc n) c"
  obtains c' where "emit ev c = Some c'" "room n c'"
proof -
  from assms have "\<exists>r. stamp ev c = Some r"
    using stamp_None [of ev c] by (auto simp: room_def)
  then obtain c' where f: "emit ev c = Some c'" by (auto simp: emit_def split: bind_splits)
  then show ?thesis using that room_next [OF assms] emit_Some(2) by blast
qed

lemma command_room:
  assumes "room (Suc n) c"
  obtains go c' where "handle_command now cmd c = Some (go, c')" "room n c'"
proof -
  have le: "room n c" by (rule room_mono [OF assms]) simp
  obtain d where "emit (closing_control now) c = Some d" "room n d" by (rule emit_room [OF assms])
  then show ?thesis
    using le room_frame [OF frame_add_subscriber [of c]] room_frame [OF frame_apply_persistence [of c]]
    by (intro that [of "fst (the (handle_command now cmd c))" "snd (the (handle_command now cmd c))"])
       (auto simp: handle_command_def shutdown_def split: option.splits command.splits)
qed

lemma live_loop_total: "room (length ins) c \<Longrightarrow> \<exists>x c'. live_loop seed ins c = Some (x, c')"
proof (induction ins arbitrary: seed c)
  case (Cons inp ins)
  then have rm: "room (Suc (length ins)) c" by simp
  have le: "room (length ins) c" by (rule room_mono [OF rm]) simp
  show ?case
  proof (cases inp)
    case (LiCmd now cmd)
    obtain go c1 where "handle_command now cmd c = Some (go, c1)" "room (length ins) c1"
      by (rule command_room [OF rm])
    then show ?thesis using LiCmd Cons.IH [of c1 seed] by auto
  next
    case (LiProvider ev)
    have "room (Suc (length ins)) (note_provider_arrival (the ev) c)"
      using rm room_frame [OF frame_note_provider_arrival [of c]] by blast
    then obtain c1 where "forward_with (the ev) ArLive (note_provider_arrival (the ev) c) = Some c1"
      "room (length ins) c1" by (rule forward_room)
    then show ?thesis using LiProvider Cons.IH [of c1 seed] by (auto simp: forward_def split: option.splits)
  next
    case (LiSeed sd)
    obtain c1 where "forward_with (the sd) ArSeed c = Some c1" "room (length ins) c1"
      by (rule forward_room [OF rm])
    then show ?thesis using LiSeed Cons.IH [of c1 False] Cons.IH [OF le] by (auto split: option.splits)
  next
    case (LiRemove sid)
    have "room (length ins) (remove_subscriber (the sid) c)"
      using le room_frame [OF frame_remove_subscriber [of c]] by blast
    then show ?thesis using LiRemove Cons.IH [of "remove_subscriber (the sid) c" seed] by (auto split: option.splits)
  next
    case (LiEnv act)
    have "room (length ins) (env_step act c)" using le room_frame [OF frame_env_step [of c]] by blast
    then show ?thesis using LiEnv Cons.IH [of "env_step act c" seed] by auto
  qed
qed auto

section \<open>Segment streaming returns\<close>

lemma command_room':
  assumes "room (Suc n) c"
  shows "\<exists>go c'. handle_command now cmd c = Some (go, c') \<and> room n c'"
  using command_room [OF assms] by blast

lemma side_branch_room:
  assumes "room (Suc n) c"
  shows "\<exists>go lv' c'. side_branch ch lv c = Some (go, lv', c') \<and> room n c'"
proof (cases ch)
  case (ChCmd now cmd)
  then show ?thesis using command_room' [OF assms, of now cmd] by (auto simp: side_branch_def)
next
  case (ChRemoval now r)
  have rm: "room (Suc n) (snd (backfill_removal r c))"
    using assms room_frame [OF frame_backfill_removal [of c]] by blast
  obtain d where "emit (closing_control now) (snd (backfill_removal r c)) = Some d" "room n d"
    by (rule emit_room [OF rm])
  then show ?thesis
    using ChRemoval room_mono [OF rm, of n] room_mono [OF assms, of n]
    by (auto simp: side_branch_def shutdown_def split: prod.splits)
qed (use room_mono [OF assms, of n] room_frame [OF frame_note_provider_arrival [of c]]
       room_frame [OF frame_env_step [of c]] in \<open>auto simp: side_branch_def split: option.splits\<close>)

lemma covered_loop_room:
  "room (length sched + n) c \<Longrightarrow>
   \<exists>e sched' lv' c'. covered_loop sched stream lv c = Some (e, sched', lv', c') \<and> room (length sched' + n) c'"
proof (induction sched arbitrary: stream lv c)
  case (Cons ch sched)
  then have rm: "room (Suc (length sched + n)) c" by simp
  show ?case
  proof (cases "ch = ChNext")
    case True
    obtain d where "emit (hd stream) c = Some d" "room (length sched + n) d" by (rule emit_room [OF rm])
    then show ?thesis using True Cons.IH [of d "tl stream" lv] room_mono [OF rm] by (cases stream) auto
  next
    case False
    obtain go lv1 c1 where "side_branch ch lv c = Some (go, lv1, c1)" "room (length sched + n) c1"
      using side_branch_room [OF rm] by blast
    then show ?thesis using False Cons.IH [of c1 stream lv1] by (cases ch) auto
  qed
qed simp

lemma gap_loop_room:
  "room (length sched + n) c \<Longrightarrow>
   \<exists>e sched' lv' c' b m. gap_loop st sched rx lv c batch mx = Some (e, sched', lv', c', b, m)
     \<and> room (length sched' + n) c'"
proof (induction sched arbitrary: rx lv c batch mx)
  case (Cons ch sched)
  then have rm: "room (Suc (length sched + n)) c" by simp
  show ?case
  proof (cases "ch = ChNext")
    case True
    obtain d where "emit (hd rx) c = Some d" "room (length sched + n) d" by (rule emit_room [OF rm])
    then show ?thesis
      using True Cons.IH [of d "tl rx" lv] room_mono [OF rm] by (cases rx) auto
  next
    case False
    obtain go lv1 c1 where "side_branch ch lv c = Some (go, lv1, c1)" "room (length sched + n) c1"
      using side_branch_room [OF rm] by blast
    then show ?thesis using False Cons.IH [of c1 rx lv1] by (cases ch) auto
  qed
qed simp

lemma covered_segment_room:
  assumes "room (length sched + Suc n) c"
  shows "\<exists>e mr sched' lv' c'. covered_segment ops f t sched lv c = Some (e, mr, sched', lv', c')
    \<and> room (length sched' + n) c'"
proof -
  have rm: "room (length sched + n) c" by (rule room_mono [OF assms]) simp
  obtain d where d: "emit_gap f f t c = Some d" "room (length sched + n) d"
    unfolding emit_gap_def forward_def by (rule forward_room) (use assms in simp_all)
  let ?open = "\<lambda>cache. co_open ops cache (segment_key f t c)
      \<lparr> rq_instruments = [ct_instrument c], rq_kinds = [ct_kind c], rq_from = f, rq_to = t \<rparr>"
  consider "ct_cache c = None" | k e where "ct_cache c = Some k" "?open k = Inl e"
    | k evs where "ct_cache c = Some k" "?open k = Inr evs"
    by (metis not_None_eq sum.exhaust)
  then show ?thesis
  proof cases
    case (3 k evs)
    obtain e s l c' where "covered_loop sched evs lv c = Some (e, s, l, c')" "room (length s + n) c'"
      using covered_loop_room [OF rm] by blast
    then show ?thesis using 3 by (auto simp: covered_segment_def)
  qed (use d in \<open>auto simp: covered_segment_def\<close>)
qed

lemma gap_segment_room:
  assumes "room (length sched + Suc (Suc n)) c"
  shows "\<exists>e mr sched' lv' c'. gap_segment ops fetch opts edge f t sched lv c = Some (e, mr, sched', lv', c')
    \<and> room (length sched' + n) c'"
proof -
  obtain rx join where rj: "fetch \<lparr> hr_instrument = ct_instrument c, hr_kind = ct_kind c, hr_from = f,
      hr_to = t, hr_adjustment = ct_adjustment c \<rparr> = (rx, join)" by fastforce
  let ?st = "write_cache opts \<and> ct_cache c \<noteq> None"
  let ?c1 = "c\<lparr> ct_accounting := record_history_fetch (ct_accounting c) \<rparr>"
  have "room (length sched + Suc (Suc n)) ?c1" using assms room_frame [OF frame_fields(2) [of c]] by blast
  then obtain e sd l d batch mx where gl: "gap_loop ?st sched rx lv ?c1 [] None = Some (e, sd, l, d, batch, mx)"
    and rm: "room (length sd + Suc (Suc n)) d"
    using gap_loop_room by blast
  let ?to = "confirmed_prefix_end mx f t"
  let ?d = "cache_write ops opts f ?to batch d"
  have rw: "room k (cache_write ops opts f x batch d)" if "k \<le> length sd + Suc (Suc n)" for k x
    using room_frame [OF frame_cache_write [of d]] room_mono [OF rm that] by blast
  have gap: "\<exists>c3. (if ?to < x then emit_gap ?to ?to x ?d else Some ?d) = Some c3 \<and> room (Suc (length sd + n)) c3" for x
  proof -
    have "room (Suc (Suc (length sd + n))) ?d" by (rule rw) simp
    then obtain c3 where "forward_with (gap_control ?to ?to x ?d) ArLive ?d = Some c3" "room (Suc (length sd + n)) c3"
      by (rule forward_room)
    then show ?thesis using rw [of "Suc (length sd + n)" ?to] by (simp add: emit_gap_def forward_def)
  qed
  have err: "\<exists>c4. emit_provider_error src m c3 = Some c4 \<and> room (length sd + n) c4"
    if "room (Suc (length sd + n)) c3" for c3 :: "'a controller" and src m
  proof -
    have "room (Suc (length sd + n)) (c3\<lparr> ct_accounting := record_error m (ct_accounting c3) \<rparr>)"
      using that room_frame [OF frame_fields(2) [of c3]] by blast
    then show ?thesis
      using forward_room [of "length sd + n"] unfolding emit_provider_error_def forward_def by blast
  qed
  show ?thesis
  proof (cases "e = LoopBreak")
    case False
    then show ?thesis using rj gl room_mono [OF rm] by (auto simp: gap_segment_def)
  next
    case True
    show ?thesis
    proof (cases "fetch_error join")
      case None
      then show ?thesis using True rj gl rw by (auto simp: gap_segment_def Let_def)
    next
      case (Some m)
      obtain c3 where "(if ?to < (case edge of Some b \<Rightarrow> b | None \<Rightarrow> t)
          then emit_gap ?to ?to (case edge of Some b \<Rightarrow> b | None \<Rightarrow> t) ?d else Some ?d) = Some c3"
        "room (Suc (length sd + n)) c3"
        using gap by blast
      moreover obtain c4 where "emit_provider_error ?to m c3 = Some c4" "room (length sd + n) c4"
        using err calculation(2) by blast
      ultimately show ?thesis using True Some rj gl by (auto simp: gap_segment_def Let_def)
    qed
  qed
qed

lemma stream_segments_room:
  "room (length sched + 2 * length segs + n) c \<Longrightarrow>
   \<exists>e sched' lv' c'. stream_segments ops fetch opts edge segs sched lv c = Some (e, sched', lv', c')
     \<and> room (length sched' + n) c'"
proof (induction segs arbitrary: sched lv c)
  case (Cons seg segs)
  let ?n = "2 * length segs + n"
  have rm: "room (length sched + Suc (Suc ?n)) c" using Cons.prems by (simp add: add.assoc)
  have "room (length sched + Suc ?n) c" by (rule room_mono [OF rm]) simp
  then obtain e mr s1 l1 c1 where seg: "(case seg of Covered f t \<Rightarrow> covered_segment ops f t sched lv c
        | GapSeg f t \<Rightarrow> gap_segment ops fetch opts edge f t sched lv c) = Some (e, mr, s1, l1, c1)"
    and r1: "room (length s1 + ?n) c1"
    using covered_segment_room [of sched ?n c ops "seg_from seg" "seg_to seg" lv]
      gap_segment_room [OF rm, of ops fetch opts edge "seg_from seg" "seg_to seg" lv] that
    by (cases seg) auto
  have "room (length s1 + 2 * length segs + n) c1" using r1 by (simp add: add.assoc)
  from Cons.IH [OF this, of l1] seg r1 room_mono [OF r1, of "length s1 + n"] show ?case by auto
qed simp

section \<open>Historical runs return\<close>

lemma shutdown_room: "room (Suc n) c \<Longrightarrow> \<exists>c'. shutdown now c = Some c' \<and> room n c'"
  using emit_room unfolding shutdown_def by blast

lemma finish_loop_room: "room (length ins) c \<Longrightarrow> \<exists>x c'. finish_loop ins c = Some (x, c')"
proof (induction ins arbitrary: c)
  case (Cons i ins)
  then have rm: "room (Suc (length ins)) c" by simp
  show ?case
  proof (cases i)
    case (FinCmd now cmd)
    obtain go c1 where "handle_command now cmd c = Some (go, c1)" "room (length ins) c1"
      using command_room' [OF rm] by blast
    then show ?thesis using FinCmd Cons.IH [of c1] by auto
  next
    case (FinConsumerGone now)
    then show ?thesis using shutdown_room [OF rm, of now] by auto
  next
    case (FinEnv act)
    have "room (length ins) (env_step act c)"
      using room_mono [OF rm] room_frame [OF frame_env_step [of c]] by auto
    then show ?thesis using FinEnv Cons.IH by simp
  qed
qed auto

lemma finish_historical_room:
  assumes "room (length ins + 2) c"
  shows "\<exists>x c'. finish_historical now now' ins c = Some (x, c')"
proof -
  have rm: "room (Suc (Suc (length ins))) c" using assms by simp
  obtain c1 where c1: "emit (closing_control now) c = Some c1" "room (Suc (length ins)) c1" by (rule emit_room [OF rm])
  have "\<exists>c'. shutdown now' c1 = Some c'" using shutdown_room [OF c1(2)] by blast
  moreover have "\<exists>x c'. finish_loop ins c1 = Some (x, c')"
    by (rule finish_loop_room [OF room_mono [OF c1(2)]]) simp
  ultimately show ?thesis using c1(1) by (auto simp: finish_historical_def shutdown_def split: sink.splits)
qed

lemma hist_loop_room:
  "room (length sched + n) c \<Longrightarrow> \<exists>e c' m. hist_loop sched rx c mx = Some (e, c', m) \<and> room n c'"
proof (induction sched arbitrary: rx c mx)
  case (Cons ch sched)
  then have rm: "room (Suc (length sched + n)) c" by simp
  show ?case
  proof (cases "ch = ChNext")
    case True
    obtain d where "forward_with (hd rx) ArLive c = Some d" "room (length sched + n) d" by (rule forward_room [OF rm])
    then show ?thesis
      using True Cons.IH [of d "tl rx"] room_mono [OF rm] by (cases rx) (auto simp: forward_def)
  next
    case False
    obtain go lv1 c1 where sb: "side_branch ch no_live_side c = Some (go, lv1, c1)" and r1: "room (length sched + n) c1"
      using side_branch_room [OF rm] by blast
    have "room n c1" by (rule room_mono [OF r1]) simp
    then show ?thesis using False sb Cons.IH [OF r1, of rx] by (cases ch) auto
  qed
qed auto

lemma run_historical_uncached_room:
  assumes "room (length sched + length ins + 3) c"
  shows "\<exists>x c'. run_historical_uncached fetch now now' f t sched ins c = Some (x, c')"
proof -
  obtain rx join where rj: "fetch \<lparr> hr_instrument = ct_instrument c, hr_kind = ct_kind c, hr_from = f,
      hr_to = t, hr_adjustment = ct_adjustment c \<rparr> = (rx, join)" by fastforce
  let ?c1 = "c\<lparr> ct_accounting := record_history_fetch (ct_accounting c) \<rparr>"
  have "room (length sched + (length ins + 3)) ?c1" using assms by (simp add: room_def add.assoc)
  then obtain e d mx where h: "hist_loop sched rx ?c1 None = Some (e, d, mx)" and rm: "room (length ins + 3) d"
    using hist_loop_room by blast
  have err: "\<exists>d'. emit_provider_error src m d = Some d' \<and> room (length ins + 2) d'" for src m
  proof -
    have "room (Suc (length ins + 2)) (d\<lparr> ct_accounting := record_error m (ct_accounting d) \<rparr>)"
      using rm by (simp add: room_def)
    then show ?thesis using forward_room unfolding emit_provider_error_def forward_def by blast
  qed
  obtain d' where d': "(case fetch_error join of None \<Rightarrow> Some d
      | Some m \<Rightarrow> emit_provider_error (case mx of Some x \<Rightarrow> x | None \<Rightarrow> f) m d) = Some d'" "room (length ins + 2) d'"
    using err room_mono [OF rm, of "length ins + 2"] by (cases "fetch_error join") auto
  obtain x c' where "finish_historical now now' ins d' = Some (x, c')"
    using finish_historical_room [OF d'(2)] by blast
  then show ?thesis using rj h d'(1) by (cases e) (auto simp: run_historical_uncached_def)
qed

lemma run_historical_cached_room:
  assumes "\<And>gs. gs \<in> {fst (plan_historical ops waited f t opts cache c)} \<Longrightarrow>
             room (length sched + 2 * length (tile f t gs) + length ins + 2) c"
  shows "\<exists>x c'. run_historical_cached ops fetch waited now now' f t opts cache sched ins c = Some (x, c')"
proof -
  obtain gs c1 where p: "plan_historical ops waited f t opts cache c = (gs, c1)" by fastforce
  have "room (length sched + 2 * length (tile f t gs) + (length ins + 2)) c1"
    using assms [of gs] p room_frame [OF frame_plan [of c]] by (metis add.assoc fst_conv insertI1 snd_conv)
  then obtain e s l d where st: "stream_segments ops fetch opts None (tile f t gs) sched no_live_side c1 = Some (e, s, l, d)"
    and rm: "room (length s + (length ins + 2)) d"
    using stream_segments_room by blast
  have "room (length ins + 2) d" by (rule room_mono [OF rm]) simp
  then obtain x c' where "finish_historical now now' ins d = Some (x, c')" using finish_historical_room by blast
  then show ?thesis using p st by (cases e) (auto simp: run_historical_cached_def)
qed

text \<open>The segments a historical run will stream; the uncached path streams one fetch.\<close>

definition planned_segments ::
  "'c cache_ops \<Rightarrow> ('c \<Rightarrow> 'c) \<Rightarrow> timestamp \<Rightarrow> timestamp \<Rightarrow> 'c controller \<Rightarrow> segment list" where
  "planned_segments ops waited f t c =
     (case ct_cache c of
        None \<Rightarrow> []
      | Some cache \<Rightarrow> tile f t (fst (plan_historical ops waited f t (ct_persistence c) cache c)))"

lemma run_historical_room:
  assumes "room (length sched + 2 * length (planned_segments ops waited f t c) + length ins + 3) c"
  shows "\<exists>x c'. run_historical ops fetch waited now now' f t sched ins c = Some (x, c')"
proof -
  have "\<exists>x c'. run_historical_uncached fetch now now' f t sched ins c = Some (x, c')"
    by (rule run_historical_uncached_room [OF room_mono [OF assms]]) simp
  moreover have "\<exists>x c'. run_historical_cached ops fetch waited now now' f t (ct_persistence c) cache sched ins c = Some (x, c')"
    if "ct_cache c = Some cache" for cache
    by (rule run_historical_cached_room, rule room_mono [OF assms]) (simp add: planned_segments_def that)
  ultimately show ?thesis by (auto simp: run_historical_def split: option.splits)
qed

end
