(* ===== verification/Controller_Spec.thy ===== *)
theory Controller_Spec
  imports Controller_Total
begin

text \<open>
  What the controller's output is. \<open>segment_script\<close> and \<open>plan_script\<close> are the reference:
  the events a plan produces and what becomes of the cache, with no schedule in sight.
  \<open>stream_segments\<close> refines them for every interleaving. The live loop's tap-log capture is
  exact, the latest-value seed is delivered only ahead of live data, and a run whose
  counter has room returns.
\<close>

section \<open>Side branches leave the stream alone\<close>

definition quiet_step :: "'c controller \<Rightarrow> 'c controller \<Rightarrow> bool" where
  "quiet_step c c' \<longleftrightarrow> frame c c' \<and> ct_cache c' = ct_cache c"

lemma quiet_refl [simp]: "quiet_step c c"
  by (simp add: quiet_step_def frames)

lemma cache_kept [simp]:
  "ct_cache (snd (apply_persistence opts c)) = ct_cache c"
  "ct_cache (add_subscriber sid ch c) = ct_cache c"
  "ct_cache (remove_subscriber sid c) = ct_cache c"
  "ct_cache (note_provider_arrival ev c) = ct_cache c"
  "ct_cache (env_step act c) = ct_cache c"
  by (auto simp: apply_persistence_def add_subscriber_def remove_subscriber_def note_provider_arrival_def
      env_step_def on_referrer_def Let_def
      split: option.splits market_event.splits prod.splits env_act.splits sink.splits)

lemma quiet_steps:
  "quiet_step c (snd (apply_persistence opts c))" "quiet_step c (add_subscriber sid ch c)"
  "quiet_step c (remove_subscriber sid c)" "quiet_step c (note_provider_arrival ev c)"
  "quiet_step c (env_step act c)"
  by (simp_all add: quiet_step_def frames)

lemma handle_command_go:
  "handle_command now cmd c = Some (True, c') \<Longrightarrow> quiet_step c c'"
  using quiet_steps by (auto simp: handle_command_def split: option.splits command.splits bind_splits)

lemma backfill_removal_quiet: "quiet_step c (snd (backfill_removal r c))"
  by (cases r) (simp_all add: backfill_removal_def Let_def quiet_steps)

lemma side_branch_go:
  assumes "side_branch ch lv c = Some (True, lv', c')"
  shows "quiet_step c c'"
proof (cases ch)
  case (ChCmd now cmd)
  then show ?thesis using assms handle_command_go by (auto simp: side_branch_def split: bind_splits)
next
  case (ChRemoval now r)
  then show ?thesis
    using assms backfill_removal_quiet [of c r]
    by (auto simp: side_branch_def split: bind_splits if_splits prod.splits)
next
  case (ChLive ev)
  then show ?thesis
    using assms quiet_steps(4) by (auto simp: side_branch_def split: if_splits option.splits)
next
  case (ChEnv act)
  then show ?thesis using assms quiet_steps(5) by (auto simp: side_branch_def)
next
  case ChNext
  then show ?thesis using assms by (simp add: side_branch_def)
qed

section \<open>The reference: what a plan produces\<close>

text \<open>The identity a controller stamps into requests and controls; no operation changes it.\<close>

definition same_id :: "'c controller \<Rightarrow> 'c controller \<Rightarrow> bool" where
  "same_id c c' \<longleftrightarrow> ct_instrument c' = ct_instrument c \<and> ct_kind c' = ct_kind c \<and>
     ct_provider c' = ct_provider c \<and> ct_adjustment c' = ct_adjustment c"

lemma same_id_cong:
  assumes "same_id c c'"
  shows "gap_control src f t c' = gap_control src f t c" "error_control src m c' = error_control src m c"
    "segment_key f t c' = segment_key f t c"
  using assms by (simp_all add: same_id_def gap_control_def error_control_def segment_key_def)

definition request_of :: "timestamp \<Rightarrow> timestamp \<Rightarrow> 'c controller \<Rightarrow> history_request" where
  "request_of f t c =
     \<lparr> hr_instrument = ct_instrument c, hr_kind = ct_kind c, hr_from = f, hr_to = t,
       hr_adjustment = ct_adjustment c \<rparr>"

definition max_ts :: "market_event list \<Rightarrow> timestamp option" where
  "max_ts evs = foldl (\<lambda>mx ev. opt_max mx (data_source_ts ev)) None evs"

definition written ::
  "'c cache_ops \<Rightarrow> persistence_options \<Rightarrow> cache_key \<Rightarrow> market_event list \<Rightarrow> 'c option \<Rightarrow> 'c option" where
  "written ops opts key evs cache =
     (if write_cache opts then map_option (\<lambda>k. snd (co_store ops key evs k)) cache else cache)"

text \<open>One segment: the events it produces, the cache after it, and whether the plan goes on.\<close>

definition segment_script ::
  "'c cache_ops \<Rightarrow> fetcher \<Rightarrow> persistence_options \<Rightarrow> timestamp option \<Rightarrow> 'c controller \<Rightarrow> segment \<Rightarrow>
   'c option \<Rightarrow> market_event list \<times> 'c option \<times> bool" where
  "segment_script ops fetch opts edge c seg cache =
     (case seg of
        Covered f t \<Rightarrow>
          (case cache of
             None \<Rightarrow> ([gap_control f f t c], cache, True)
           | Some k \<Rightarrow>
               (case co_open ops k (segment_key f t c)
                       \<lparr> rq_instruments = [ct_instrument c], rq_kinds = [ct_kind c], rq_from = f, rq_to = t \<rparr> of
                  Inl _ \<Rightarrow> ([gap_control f f t c], cache, True)
                | Inr stream \<Rightarrow> (stream, cache, True)))
      | GapSeg f t \<Rightarrow>
          (let (rx, join) = fetch (request_of f t c); confirmed = confirmed_prefix_end (max_ts rx) f t in
           case fetch_error join of
             None \<Rightarrow>
               (rx, written ops opts (segment_key f (if edge = Some t then confirmed else t) c) rx cache, True)
           | Some m \<Rightarrow>
               (let gap_to = (case edge of Some b \<Rightarrow> b | None \<Rightarrow> t) in
                (rx @ (if confirmed < gap_to then [gap_control confirmed confirmed gap_to c] else [])
                    @ [error_control confirmed m c],
                 written ops opts (segment_key f confirmed c) rx cache, False))))"

fun plan_script ::
  "'c cache_ops \<Rightarrow> fetcher \<Rightarrow> persistence_options \<Rightarrow> timestamp option \<Rightarrow> 'c controller \<Rightarrow> segment list \<Rightarrow>
   'c option \<Rightarrow> market_event list \<times> 'c option" where
  "plan_script ops fetch opts edge c [] cache = ([], cache)"
| "plan_script ops fetch opts edge c (seg # segs) cache =
     (case segment_script ops fetch opts edge c seg cache of
        (evs, cache', True) \<Rightarrow>
          (case plan_script ops fetch opts edge c segs cache' of (evs', cache'') \<Rightarrow> (evs @ evs', cache''))
      | (evs, cache', False) \<Rightarrow> (evs, cache'))"

section \<open>The loops produce their events under any schedule\<close>

text \<open>\<open>produced c c' evs\<close>: from \<open>c\<close> to \<open>c'\<close> the stream grew by \<open>evs\<close>, up to stamping.\<close>

definition produced :: "'c controller \<Rightarrow> 'c controller \<Rightarrow> market_event list \<Rightarrow> bool" where
  "produced c c' evs \<longleftrightarrow>
     map unstamped (ct_trace c') = map unstamped (ct_trace c) @ map unstamped evs \<and> same_id c c'"

lemma produced_refl: "produced c c []"
  by (simp add: produced_def same_id_def)

lemma produced_trans: "produced a b xs \<Longrightarrow> produced b c ys \<Longrightarrow> produced a c (xs @ ys)"
  by (simp add: produced_def same_id_def)

lemma produced_frame: "frame c c' \<Longrightarrow> produced c c' []"
  by (simp add: produced_def frame_def same_id_def)

lemma produced_emit: "emit ev c = Some c' \<Longrightarrow> produced c c' [ev] \<and> ct_cache c' = ct_cache c"
  by (simp add: produced_def same_id_def emit_Some)

lemma produced_forward: "forward_with ev arr c = Some c' \<Longrightarrow> produced c c' [ev] \<and> ct_cache c' = ct_cache c"
  by (simp add: produced_def same_id_def forward_Some)

lemma produced_quiet: "quiet_step c c' \<Longrightarrow> produced c c' [] \<and> ct_cache c' = ct_cache c"
  using produced_frame by (auto simp: quiet_step_def)

lemma covered_loop_produces:
  "covered_loop sched stream lv c = Some (LoopBreak, sched', lv', c') \<Longrightarrow>
   produced c c' stream \<and> ct_cache c' = ct_cache c"
proof (induction sched arbitrary: stream lv c)
  case (Cons ch sched)
  show ?case
  proof (cases "ch = ChNext")
    case True
    show ?thesis
    proof (cases stream)
      case Nil
      then show ?thesis using Cons.prems True by (simp add: produced_refl)
    next
      case (Cons ev rest)
      then obtain c1 where e: "emit ev c = Some c1"
        and l: "covered_loop sched rest lv c1 = Some (LoopBreak, sched', lv', c')"
        using Cons.prems True by (auto split: bind_splits)
      show ?thesis
        using produced_emit [OF e] Cons.IH [OF l] produced_trans [of c c1 "[ev]" c' rest] Cons by simp
    qed
  next
    case False
    then obtain lv1 c1 where b: "side_branch ch lv c = Some (True, lv1, c1)"
      and l: "covered_loop sched stream lv1 c1 = Some (LoopBreak, sched', lv', c')"
      using Cons.prems by (cases ch) (auto split: bind_splits if_splits)
    show ?thesis
      using produced_quiet [OF side_branch_go [OF b]] Cons.IH [OF l] produced_trans [of c c1 "[]" c' stream]
      by simp
  qed
qed simp

lemma gap_loop_produces:
  "gap_loop st sched rx lv c batch mx = Some (LoopBreak, sched', lv', c', batch', mx') \<Longrightarrow>
   produced c c' rx \<and> ct_cache c' = ct_cache c \<and> batch' = batch @ (if st then rx else []) \<and>
   mx' = foldl (\<lambda>m ev. opt_max m (data_source_ts ev)) mx rx"
proof (induction sched arbitrary: rx lv c batch mx)
  case (Cons ch sched)
  show ?case
  proof (cases "ch = ChNext")
    case True
    show ?thesis
    proof (cases rx)
      case Nil
      then show ?thesis using Cons.prems True by (simp add: produced_refl)
    next
      case (Cons ev rest)
      then obtain c1 where e: "emit ev c = Some c1"
        and l: "gap_loop st sched rest lv c1 (if st then batch @ [ev] else batch)
                  (opt_max mx (data_source_ts ev)) = Some (LoopBreak, sched', lv', c', batch', mx')"
        using Cons.prems True by (auto split: bind_splits)
      show ?thesis
        using produced_emit [OF e] Cons.IH [OF l] produced_trans [of c c1 "[ev]" c' rest] Cons by simp
    qed
  next
    case False
    then obtain lv1 c1 where b: "side_branch ch lv c = Some (True, lv1, c1)"
      and l: "gap_loop st sched rx lv1 c1 batch mx = Some (LoopBreak, sched', lv', c', batch', mx')"
      using Cons.prems by (cases ch) (auto split: bind_splits if_splits)
    show ?thesis
      using produced_quiet [OF side_branch_go [OF b]] Cons.IH [OF l] produced_trans [of c c1 "[]" c' rx]
      by simp
  qed
qed simp

section \<open>Segments and plans refine their scripts\<close>

lemma script_same_id:
  assumes "same_id c c'"
  shows "segment_script ops fetch opts edge c' seg cache = segment_script ops fetch opts edge c seg cache"
proof -
  have req: "request_of f t c' = request_of f t c" for f t
    using assms by (simp add: same_id_def request_of_def)
  have ids: "ct_instrument c' = ct_instrument c" "ct_kind c' = ct_kind c"
    using assms by (simp_all add: same_id_def)
  show ?thesis unfolding segment_script_def same_id_cong [OF assms] req ids by (rule refl)
qed

lemma plan_same_id:
  "same_id c c' \<Longrightarrow> plan_script ops fetch opts edge c' segs cache = plan_script ops fetch opts edge c segs cache"
  by (induction segs arbitrary: cache) (simp_all add: script_same_id split: bool.split)

lemma produced_gap: "emit_gap src f t c = Some c' \<Longrightarrow> produced c c' [gap_control src f t c] \<and> ct_cache c' = ct_cache c"
  unfolding emit_gap_def forward_def by (rule produced_forward)

lemma produced_error:
  assumes "emit_provider_error src m c = Some c'"
  shows "produced c c' [error_control src m c] \<and> ct_cache c' = ct_cache c"
proof -
  let ?c = "c\<lparr> ct_accounting := record_error m (ct_accounting c) \<rparr>"
  have "produced c ?c []" by (rule produced_frame [OF frame_fields(2)])
  moreover have "produced ?c c' [error_control src m c] \<and> ct_cache c' = ct_cache ?c"
    using assms unfolding emit_provider_error_def forward_def by (rule produced_forward)
  ultimately show ?thesis using produced_trans [of c ?c "[]" c'] by simp
qed

lemma produced_same_id: "produced c c' evs \<Longrightarrow> same_id c c'"
  by (simp add: produced_def)

lemma cache_write_cache:
  "ct_cache (cache_write ops opts f t batch c) = written ops opts (segment_key f t c) batch (ct_cache c)"
  by (simp add: cache_write_def written_def split: option.splits)

lemma covered_segment_refines:
  assumes "covered_segment ops f t sched lv c = Some (SegDone, mr, sched', lv', c')"
  shows "\<exists>evs. segment_script ops fetch opts edge c (Covered f t) (ct_cache c) = (evs, ct_cache c', mr)
           \<and> produced c c' evs"
proof -
  have outcome: "loop_outcome e = SegDone \<longleftrightarrow> e = LoopBreak" for e
    by (simp add: loop_outcome_def split: loop_end.splits)
  show ?thesis
    using assms
    by (auto simp: covered_segment_def segment_script_def outcome Let_def
        split: option.splits sum.splits bind_splits dest!: produced_gap covered_loop_produces)
qed

text \<open>What a gap segment does once its fetch loop has ended.\<close>

lemma gap_segment_unfold:
  assumes "gap_segment ops fetch opts edge f t sched lv c0 = Some (SegDone, mr, sched', lv', c')"
  obtains rx join c batch where "fetch (request_of f t c0) = (rx, join)" "produced c0 c rx"
    "ct_cache c = ct_cache c0" "batch = (if write_cache opts \<and> ct_cache c0 \<noteq> None then rx else [])"
    "(case fetch_error join of
        None \<Rightarrow> mr \<and> c' = cache_write ops opts f
                  (if edge = Some t then confirmed_prefix_end (max_ts rx) f t else t) batch c
      | Some message \<Rightarrow>
          \<not> mr \<and> (let confirmed_to = confirmed_prefix_end (max_ts rx) f t;
                     gap_to = (case edge of Some b \<Rightarrow> b | None \<Rightarrow> t);
                     c2 = cache_write ops opts f confirmed_to batch c
                 in \<exists>c3. (if confirmed_to < gap_to then emit_gap confirmed_to confirmed_to gap_to c2
                          else Some c2) = Some c3
                    \<and> emit_provider_error confirmed_to message c3 = Some c'))"
proof -
  obtain rx join where rj: "fetch (request_of f t c0) = (rx, join)" by fastforce
  let ?st = "write_cache opts \<and> ct_cache c0 \<noteq> None"
  let ?c1 = "c0\<lparr> ct_accounting := record_history_fetch (ct_accounting c0) \<rparr>"
  obtain e sd l c batch mx where gl: "gap_loop ?st sched rx lv ?c1 [] None = Some (e, sd, l, c, batch, mx)"
    using assms rj by (auto simp: gap_segment_def request_of_def Let_def split: bind_splits)
  have e: "e = LoopBreak"
    using assms rj gl
    by (auto simp: gap_segment_def request_of_def Let_def loop_outcome_def split: if_splits loop_end.splits)
  note gp = gap_loop_produces [OF gl [unfolded e]]
  have "produced c0 c rx"
    using produced_trans [of c0 ?c1 "[]" c rx] produced_frame [OF frame_fields(2) [of c0]] gp by simp
  moreover have batch: "batch = (if ?st then rx else [])" and mx: "mx = max_ts rx"
    and cache: "ct_cache c = ct_cache c0"
    using gp by (simp_all add: max_ts_def)
  moreover have "(case fetch_error join of
        None \<Rightarrow> mr \<and> c' = cache_write ops opts f
                  (if edge = Some t then confirmed_prefix_end (max_ts rx) f t else t) batch c
      | Some message \<Rightarrow>
          \<not> mr \<and> (let confirmed_to = confirmed_prefix_end (max_ts rx) f t;
                     gap_to = (case edge of Some b \<Rightarrow> b | None \<Rightarrow> t);
                     c2 = cache_write ops opts f confirmed_to batch c
                 in \<exists>c3. (if confirmed_to < gap_to then emit_gap confirmed_to confirmed_to gap_to c2
                          else Some c2) = Some c3
                    \<and> emit_provider_error confirmed_to message c3 = Some c'))"
    using assms rj gl e mx
    by (auto simp: gap_segment_def request_of_def Let_def split: option.splits bind_splits)
  ultimately show ?thesis by (intro that [OF rj])
qed

lemma written_batch:
  "written ops opts key (if write_cache opts \<and> cache \<noteq> None then rx else []) cache = written ops opts key rx cache"
  by (cases cache) (simp_all add: written_def)

lemma gap_segment_refines:
  assumes "gap_segment ops fetch opts edge f t sched lv c = Some (SegDone, mr, sched', lv', c')"
  shows "\<exists>evs. segment_script ops fetch opts edge c (GapSeg f t) (ct_cache c) = (evs, ct_cache c', mr)
           \<and> produced c c' evs"
proof (cases rule: gap_segment_unfold [OF assms, case_names run])
  case (run rx join c1 batch)
  note wr = cache_write_cache [of ops opts _ _ batch c1] same_id_cong(3) [OF produced_same_id [OF run(2)]]
    written_batch [of ops opts _ "ct_cache c" rx]
  show ?thesis
  proof (cases "fetch_error join")
    case None
    let ?to = "if edge = Some t then confirmed_prefix_end (max_ts rx) f t else t"
    have c': "c' = cache_write ops opts f ?to batch c1" and mr: "mr" using run(5) None by auto
    have "produced c c' rx"
      using produced_trans [OF run(2) produced_frame [OF frame_cache_write]] by (simp add: c')
    then show ?thesis
      using mr None run(1,3,4) wr by (simp add: segment_script_def c')
  next
    case (Some m)
    define to where "to = confirmed_prefix_end (max_ts rx) f t"
    define gap_to where "gap_to = (case edge of Some b \<Rightarrow> b | None \<Rightarrow> t)"
    define c2 where "c2 = cache_write ops opts f to batch c1"
    obtain c3 where c3: "(if to < gap_to then emit_gap to to gap_to c2 else Some c2) = Some c3"
      and er: "emit_provider_error to m c3 = Some c'" and mr: "\<not> mr"
      using run(5) unfolding Some option.case Let_def to_def [symmetric] gap_to_def [symmetric] c2_def [symmetric]
      by blast
    have p2: "produced c c2 rx"
      using produced_trans [OF run(2) produced_frame [OF frame_cache_write]] by (simp add: c2_def)
    let ?gap = "if to < gap_to then [gap_control to to gap_to c] else []"
    have p3: "produced c c3 (rx @ ?gap) \<and> ct_cache c3 = ct_cache c2"
      using c3 produced_gap [of to to gap_to c2 c3] produced_trans [OF p2]
        same_id_cong(1) [OF produced_same_id [OF p2]] p2
      by (auto split: if_splits)
    have p4: "produced c c' (rx @ ?gap @ [error_control to m c]) \<and> ct_cache c' = ct_cache c3"
      using produced_error [OF er] p3 produced_trans [of c c3 "rx @ ?gap" c']
        same_id_cong(2) [OF produced_same_id [of c c3]] by auto
    have "segment_script ops fetch opts edge c (GapSeg f t) (ct_cache c) =
        (rx @ ?gap @ [error_control to m c], ct_cache c', False)"
      using Some run(1,3,4) wr p3 p4
      by (simp add: segment_script_def to_def [symmetric] gap_to_def [symmetric] c2_def Let_def)
    then show ?thesis using mr p4 by auto
  qed
qed

lemma stream_segments_refines:
  assumes "stream_segments ops fetch opts edge segs sched lv c = Some (SegDone, sched', lv', c')"
  shows "\<exists>evs. plan_script ops fetch opts edge c segs (ct_cache c) = (evs, ct_cache c') \<and> produced c c' evs"
  using assms
proof (induction segs arbitrary: sched lv c)
  case Nil
  then show ?case by (simp add: produced_refl)
next
  case (Cons seg segs)
  obtain e mr s1 l1 c1 where
    seg: "(case seg of Covered f t \<Rightarrow> covered_segment ops f t sched lv c
          | GapSeg f t \<Rightarrow> gap_segment ops fetch opts edge f t sched lv c) = Some (e, mr, s1, l1, c1)"
    and rest: "(if e = SegDone \<and> mr then stream_segments ops fetch opts edge segs s1 l1 c1
               else Some (e, s1, l1, c1)) = Some (SegDone, sched', lv', c')"
    using Cons.prems by (auto split: bind_splits)
  have e: "e = SegDone" using rest by (auto split: if_splits)
  obtain evs where evs: "segment_script ops fetch opts edge c seg (ct_cache c) = (evs, ct_cache c1, mr)"
    and pr: "produced c c1 evs"
  proof (cases seg)
    case (Covered f t)
    then have "covered_segment ops f t sched lv c = Some (SegDone, mr, s1, l1, c1)" using seg e by simp
    from covered_segment_refines [OF this, of fetch opts edge] show ?thesis using that Covered by blast
  next
    case (GapSeg f t)
    then have "gap_segment ops fetch opts edge f t sched lv c = Some (SegDone, mr, s1, l1, c1)" using seg e by simp
    from gap_segment_refines [OF this] show ?thesis using that GapSeg by blast
  qed
  show ?case
  proof (cases mr)
    case False
    then have "c' = c1" using rest by simp
    then show ?thesis using evs pr False by auto
  next
    case True
    obtain evs' where "plan_script ops fetch opts edge c1 segs (ct_cache c1) = (evs', ct_cache c')"
      "produced c1 c' evs'"
      using Cons.IH [of s1 l1 c1] rest e True by auto
    then show ?thesis
      using evs pr True plan_same_id [OF produced_same_id [OF pr]] produced_trans [OF pr]
      by (intro exI [of _ "evs @ evs'"]) auto
  qed
qed

section \<open>The live loop\<close>

text \<open>No command of a run changes the persistence options.\<close>

definition no_reconfig :: "live_in list \<Rightarrow> bool" where
  "no_reconfig ins \<longleftrightarrow> (\<forall>inp \<in> set ins. case inp of LiCmd _ (Some (SetPersistence _)) \<Rightarrow> False | _ \<Rightarrow> True)"

text \<open>\<open>captured c c'\<close>: since \<open>c\<close> the tap log grew by exactly the data events of the stream.\<close>

definition captured :: "'c controller \<Rightarrow> 'c controller \<Rightarrow> bool" where
  "captured c c' \<longleftrightarrow> (\<exists>tr. ct_trace c' = ct_trace c @ tr \<and>
     ct_tap_log c' = map_option (\<lambda>log. log @ filter is_data tr) (ct_tap_log c))"

lemma captured_frame: "frame c c' \<Longrightarrow> captured c c'"
  by (simp add: captured_def frame_def option.map_id0 [unfolded id_def])

lemma captured_trans:
  assumes "captured a b" "captured b c"
  shows "captured a c"
proof -
  from assms obtain u v where "ct_trace b = ct_trace a @ u" "ct_trace c = ct_trace b @ v"
    "ct_tap_log b = map_option (\<lambda>log. log @ filter is_data u) (ct_tap_log a)"
    "ct_tap_log c = map_option (\<lambda>log. log @ filter is_data v) (ct_tap_log b)"
    by (auto simp: captured_def)
  then show ?thesis unfolding captured_def by (intro exI [of _ "u @ v"]) (simp add: option.map_comp o_def)
qed

lemma captured_forward: "forward_with ev arr c = Some c' \<Longrightarrow> teeing c \<Longrightarrow> captured c c'"
  by (auto simp: captured_def forward_Some(3,4) option.map_id0 [unfolded id_def])

lemma captured_emit: "emit ev c = Some c' \<Longrightarrow> \<not> is_data ev \<Longrightarrow> captured c c'"
  by (simp add: captured_def emit_Some(3,4) option.map_id0 [unfolded id_def])

lemma teeing_cong: "ct_scope c' = ct_scope c \<Longrightarrow> ct_persistence c' = ct_persistence c \<Longrightarrow> teeing c' = teeing c"
  by (simp add: teeing_def)

lemma persistence_kept [simp]:
  "ct_persistence (add_subscriber sid ch c) = ct_persistence c"
  "ct_persistence (remove_subscriber sid c) = ct_persistence c"
  "ct_persistence (note_provider_arrival ev c) = ct_persistence c"
  "ct_persistence (env_step act c) = ct_persistence c"
  by (auto simp: add_subscriber_def remove_subscriber_def note_provider_arrival_def env_step_def
      on_referrer_def Let_def
      split: option.splits market_event.splits prod.splits env_act.splits sink.splits)

lemma scope_kept: "frame c c' \<Longrightarrow> ct_scope c' = ct_scope c"
  by (simp add: frame_def)

lemma captured_command:
  assumes "handle_command now cmd c = Some (go, c')" "\<forall>opts. cmd \<noteq> Some (SetPersistence opts)"
  shows "captured c c'" "teeing c' = teeing c"
proof -
  have "captured c c' \<and> teeing c' = teeing c"
    using assms captured_frame [OF frame_add_subscriber [of c]] captured_frame [OF frame_refl [of c]]
      captured_emit [of "closing_control now" c] emit_Some(5,6) [of "closing_control now" c]
      scope_kept [OF frame_add_subscriber [of c]]
    by (auto simp: handle_command_def shutdown_def closing_control_def teeing_def
        split: option.splits command.splits bind_splits)
  then show "captured c c'" "teeing c' = teeing c" by auto
qed

lemma live_loop_captures:
  "live_loop seed ins c = Some (x, c') \<Longrightarrow> no_reconfig ins \<Longrightarrow> teeing c \<Longrightarrow> captured c c'"
proof (induction ins arbitrary: seed c)
  case Nil
  then show ?case by (auto split: if_splits intro: captured_frame frames)
next
  case (Cons inp ins)
  have nr: "no_reconfig ins" using Cons.prems(2) by (simp add: no_reconfig_def)
  have tear: "captured d (teardown_upstream d)" for d :: "'a controller"
    by (rule captured_frame [OF frame_teardown])
  have step: "captured c c'" if "live_loop sd ins d = Some (x, c')" "captured c d" "teeing d" for sd d
    using captured_trans that Cons.IH [OF that(1) nr] by blast
  have fw: "captured c d \<and> teeing d" if "forward_with ev arr b = Some d" "captured c b" "teeing b" for ev arr b d
    using captured_trans captured_forward [OF that(1,3)] teeing_cong forward_Some(5,6) [OF that(1)] that by blast
  show ?case
  proof (cases "live_should_teardown c")
    case True
    then show ?thesis using Cons.prems(1) tear by auto
  next
    case False
    show ?thesis
    proof (cases inp)
      case (LiCmd now cmd)
      then obtain go c1 where h: "handle_command now cmd c = Some (go, c1)"
        and rest: "(if go then live_loop seed ins c1 else Some (True, teardown_upstream c1)) = Some (x, c')"
        using Cons.prems(1) False by (auto split: bind_splits)
      have "\<forall>opts. cmd \<noteq> Some (SetPersistence opts)"
        using Cons.prems(2) LiCmd by (auto simp: no_reconfig_def)
      note cc = captured_command [OF h this]
      show ?thesis
        using rest step [of seed c1] cc captured_trans [OF cc(1) tear] Cons.prems(3) by (auto split: if_splits)
    next
      case (LiRemove sid)
      then show ?thesis
        using Cons.prems False tear step [of seed "remove_subscriber (the sid) c"]
          captured_frame [OF frame_remove_subscriber [of c]]
          teeing_cong [OF scope_kept [OF frame_remove_subscriber [of c]]]
        by (auto split: option.splits)
    next
      case (LiProvider ev)
      then show ?thesis
        using Cons.prems False tear step fw [of "the ev" ArLive "note_provider_arrival (the ev) c"]
          captured_frame [OF frame_note_provider_arrival [of c]]
          teeing_cong [OF scope_kept [OF frame_note_provider_arrival [of c]]]
        by (auto simp: forward_def split: option.splits bind_splits)
    next
      case (LiSeed sd)
      then show ?thesis
        using Cons.prems False step fw [of _ ArSeed c] captured_frame [OF frame_refl [of c]]
        by (auto split: option.splits bind_splits if_splits)
    next
      case (LiEnv act)
      then show ?thesis
        using Cons.prems False step [of seed "env_step act c"] captured_frame [OF frame_env_step [of c]]
          teeing_cong [OF scope_kept [OF frame_env_step [of c]]] by auto
    qed
  qed
qed

text \<open>The latest-value branch is inert once it fired or live data went ahead of it.\<close>

definition is_seed :: "live_in \<Rightarrow> bool" where
  "is_seed inp = (case inp of LiSeed _ \<Rightarrow> True | _ \<Rightarrow> False)"

lemma live_loop_disarmed: "live_loop False ins c = live_loop False (filter (\<lambda>i. \<not> is_seed i) ins) c"
proof (induction ins arbitrary: c)
  case (Cons inp ins)
  have torn: "live_loop False ins' c = Some (True, teardown_upstream c)" if "live_should_teardown c" for ins'
    using that by (cases ins') auto
  show ?case
  proof (cases "live_should_teardown c")
    case True
    then show ?thesis using torn by simp
  next
    case False
    then show ?thesis
      using Cons.IH
      by (cases inp) (auto simp: is_seed_def split: option.splits intro!: arg_cong2 [of _ _ _ _ Option.bind])
  qed
qed simp

lemma data_forwarded_kept:
  "ct_data_forwarded (deliver_with ev arr c) = ct_data_forwarded c"
  "ct_data_forwarded (tee ev c) = ct_data_forwarded c"
  "ct_data_forwarded (add_subscriber sid ch c) = ct_data_forwarded c"
  "ct_data_forwarded (remove_subscriber sid c) = ct_data_forwarded c"
  "ct_data_forwarded (note_provider_arrival ev c) = ct_data_forwarded c"
  "ct_data_forwarded (env_step act c) = ct_data_forwarded c"
  "ct_data_forwarded (snd (apply_persistence opts c)) = ct_data_forwarded c"
  by (auto simp: deliver_with_def tee_def add_subscriber_def remove_subscriber_def note_provider_arrival_def
      env_step_def on_referrer_def apply_persistence_def Let_def
      split: option.splits market_event.splits prod.splits env_act.splits sink.splits scope.splits)

lemma forward_data_forwarded:
  "forward_with ev arr c = Some c' \<Longrightarrow> ct_data_forwarded c' \<longleftrightarrow> ct_data_forwarded c \<or> is_data ev"
  by (auto simp: forward_with_def stamp_Some Let_def data_forwarded_kept split: bind_splits if_splits)

lemma command_data_forwarded:
  "handle_command now cmd c = Some (go, c') \<Longrightarrow> ct_data_forwarded c' = ct_data_forwarded c"
  by (auto simp: handle_command_def shutdown_def emit_def deliver_def stamp_Some data_forwarded_kept
      split: option.splits command.splits bind_splits)

lemma live_loop_data_first: "ct_data_forwarded c \<Longrightarrow> live_loop True ins c = live_loop False ins c"
proof (induction ins arbitrary: c)
  case (Cons inp ins)
  show ?case
  proof (cases inp)
    case (LiCmd now cmd)
    then show ?thesis
      using Cons.prems command_data_forwarded [of now cmd c]
      by (cases "handle_command now cmd c") (auto simp: Cons.IH)
  next
    case (LiProvider ev)
    then show ?thesis
      using Cons.prems forward_data_forwarded [of "the ev" ArLive "note_provider_arrival (the ev) c"]
      by (cases "forward (the ev) (note_provider_arrival (the ev) c)")
         (auto simp: forward_def data_forwarded_kept Cons.IH split: option.splits)
  qed (use Cons.prems in \<open>auto simp: data_forwarded_kept Cons.IH split: option.splits\<close>)
qed simp

section \<open>Correctness of the controller\<close>

text \<open>A live controller with a tap log and no cache, and a historical one.\<close>

definition demo_live :: "unit controller" where
  "demo_live = new_controller demo_instrument KTrade (LiveScope None) Raw
     (with_tap_log True options_none) ''alpaca'' (Some []) None (Attached (chan_new 8)) 8
     (Some (fanout_add 1 (chan_new 8) fanout_new)) accounting_default"

definition demo_historical :: "unit controller" where
  "demo_historical = new_controller demo_instrument KTrade (Historical 0 10) Raw options_none ''alpaca''
     None None (Attached (chan_new 8)) 8 None accounting_default"

definition demo_ops :: "unit cache_ops" where
  "demo_ops = \<lparr> co_gaps = (\<lambda>_ key. Inr [gap_span_of (k_from key) (k_to key)]),
                co_store = (\<lambda>_ _ k. (Inr (), k)), co_open = (\<lambda>_ _ _. Inr []) \<rparr>"

definition demo_fetch :: fetcher where
  "demo_fetch rq = ([demo_trade (hr_from rq) 0], FetchOk)"

lemma new_controller_inv [simp]:
  "seq_inv (new_controller i k sc adj opts prov log cache snk cap fo acct)"
  "log_inv (case log of Some l \<Rightarrow> l | None \<Rightarrow> []) (new_controller i k sc adj opts prov log cache snk cap fo acct)"
  by (auto simp: seq_inv_def log_inv_def new_controller_def)

lemma demo_room: "room 100 demo_live" "room 100 demo_historical"
  by (simp_all add: room_def demo_live_def demo_historical_def new_controller_def)

text \<open>C1: A live session's stream, backfill, seam flush, seed and live loop together, is
  stamped \<open>0, 1, 2, \<dots>\<close> without a hole or a repetition, under every interleaving.\<close>

theorem live_stream_contiguous:
  assumes "run_live ops fetch edge backfill sched ins seed
             (new_controller i k sc adj opts prov log cache snk cap fo acct) = Some (ended, c')"
  shows "map ev_seq (ct_trace c') = map of_nat [0 ..< length (ct_trace c')]
    \<and> distinct (map ev_seq (ct_trace c'))"
proof -
  have inv: "seq_inv c'" using seqs.inv_run_live [OF assms] by simp
  have "distinct (map (of_nat :: nat \<Rightarrow> u64) [0 ..< n])" if "n < 2 ^ 64" for n
    using that by (auto simp: distinct_map inj_on_def of_nat_inverse dest: arg_cong [where f = unat])
  then show ?thesis using inv by (simp add: seq_inv_def)
qed

theorem live_stream_contiguous_witness:
  "\<exists>ended c'. run_live demo_ops demo_fetch 5 None [] [LiProvider (Some (demo_trade 3 0)), LiCmd 9 (Some Close)]
       True demo_live = Some (ended, c') \<and> map ev_seq (ct_trace c') = map of_nat [0 ..< length (ct_trace c')]"
proof -
  obtain ended c' where r: "run_live demo_ops demo_fetch 5 None []
      [LiProvider (Some (demo_trade 3 0)), LiCmd 9 (Some Close)] True demo_live = Some (ended, c')"
    using live_loop_total [of "[LiProvider (Some (demo_trade 3 0)), LiCmd 9 (Some Close)]"
        "demo_live\<lparr> ct_stats := set_subscribers 1 (ct_stats demo_live) \<rparr>" True] demo_room(1)
    by (auto simp: run_live_def room_def demo_live_def new_controller_def fanout_subscriber_count_def
        fanout_add_def fanout_new_def Let_def)
  then show ?thesis using live_stream_contiguous [OF r [unfolded demo_live_def]] by blast
qed

text \<open>A historical session's stream is contiguous in the same way, and its consumer misses
  nothing silently: while it holds the stream its channel has received exactly the stamped
  events, and once it let go the resume ring has been fed everything since.\<close>

lemma historical_stream_delivered:
  assumes "run_historical ops fetch waited now now' f t sched ins
             (new_controller i k sc adj opts prov log cache (Attached (chan_new n)) cap None acct) = Some (ended, c')"
  shows "map ev_seq (ct_trace c') = map of_nat [0 ..< length (ct_trace c')]
    \<and> (case ct_sink c' of
         Attached ch \<Rightarrow> ch_queue ch = ct_trace c'
       | Detached ring \<Rightarrow> \<exists>pre suf. ct_trace c' = pre @ suf \<and> ring = fold event_ring_push suf (event_ring_new cap))"
proof -
  let ?c = "new_controller i k sc adj opts prov log cache (Attached (chan_new n)) cap None acct"
  have "sink_inv ?c" by (simp add: sink_inv_def new_controller_def chan_new_def)
  then have "sink_inv c'" using sinks.inv_run_historical [OF assms] by simp
  moreover have "ct_fanout c' = None \<and> ct_ring_capacity c' = cap"
    using plain.inv_run_historical [OF assms] by (simp add: new_controller_def)
  moreover have "seq_inv c'" using seqs.inv_run_historical [OF assms] by simp
  ultimately show ?thesis by (auto simp: sink_inv_def seq_inv_def split: sink.splits)
qed

lemma demo_historical_run:
  "\<exists>ended c'. run_historical demo_ops demo_fetch id 1 2 0 10 [ChNext, ChNext] [] demo_historical = Some (ended, c')"
  by (rule run_historical_room, rule room_mono [OF demo_room(2)])
     (simp add: planned_segments_def demo_historical_def new_controller_def)

lemma historical_stream_delivered_witness:
  "\<exists>ended c'. run_historical demo_ops demo_fetch id 1 2 0 10 [ChNext, ChNext] [] demo_historical = Some (ended, c')
     \<and> map ev_seq (ct_trace c') = map of_nat [0 ..< length (ct_trace c')]"
proof -
  obtain ended c' where r: "run_historical demo_ops demo_fetch id 1 2 0 10 [ChNext, ChNext] [] demo_historical
      = Some (ended, c')" using demo_historical_run by blast
  then show ?thesis using historical_stream_delivered [OF r [unfolded demo_historical_def]] by blast
qed

text \<open>C3: Refinement. Whenever \<open>stream_segments\<close> finishes a plan, under any interleaving with
  commands, removals, live arrivals and consumer actions, what it added to the stream is, up
  to stamping, exactly what the plan's script prescribes (replayed segments, fetched events,
  the gap control for an unconfirmed tail, the provider error that ends the plan), and the
  cache is left exactly as the script's writes leave it.\<close>

theorem stream_segments_refines_plan:
  assumes "stream_segments ops fetch opts edge segs sched lv c = Some (SegDone, sched', lv', c')"
  shows "\<exists>evs. plan_script ops fetch opts edge c segs (ct_cache c) = (evs, ct_cache c')
    \<and> map unstamped (ct_trace c') = map unstamped (ct_trace c) @ map unstamped evs"
  using stream_segments_refines [OF assms] by (auto simp: produced_def)

lemma demo_segments_run:
  "\<exists>sched' lv' c'. stream_segments demo_ops demo_fetch options_none None [GapSeg 0 10] [ChNext, ChNext]
     no_live_side demo_historical = Some (SegDone, sched', lv', c')"
proof -
  let ?c = "demo_historical\<lparr> ct_accounting := record_history_fetch (ct_accounting demo_historical) \<rparr>"
  have "room (Suc 0) ?c" using demo_room(2) by (simp add: room_def)
  then obtain d where "emit (demo_trade 0 0) ?c = Some d" by (rule emit_room)
  then show ?thesis
    by (simp add: gap_segment_def demo_fetch_def fetch_error_def options_none_def)
qed

theorem stream_segments_refines_plan_witness:
  "\<exists>c'. map unstamped (ct_trace c') = [demo_trade 0 0] \<and>
     (\<exists>sched' lv'. stream_segments demo_ops demo_fetch options_none None [GapSeg 0 10] [ChNext, ChNext]
        no_live_side demo_historical = Some (SegDone, sched', lv', c'))"
proof -
  obtain sched' lv' c' where r: "stream_segments demo_ops demo_fetch options_none None [GapSeg 0 10]
      [ChNext, ChNext] no_live_side demo_historical = Some (SegDone, sched', lv', c')"
    using demo_segments_run by blast
  have "plan_script demo_ops demo_fetch options_none None demo_historical [GapSeg 0 10] k = ([demo_trade 0 0], k)" for k
    by (simp add: segment_script_def demo_fetch_def request_of_def fetch_error_def written_def options_none_def)
  moreover have "ct_trace demo_historical = []" by (simp add: demo_historical_def new_controller_def)
  ultimately have "map unstamped (ct_trace c') = [demo_trade 0 0]"
    using stream_segments_refines_plan [OF r] by auto
  then show ?thesis using r by (intro exI [of _ c'] conjI exI)
qed

text \<open>Nothing a plan streams reaches the tap log: replayed and fetched history, gap
  controls and errors are delivered without being captured.\<close>

lemma history_never_captured:
  assumes "stream_segments ops fetch opts edge segs sched lv c = Some (e, sched', lv', c')"
  shows "ct_tap_log c' = ct_tap_log c"
  by (rule untouched.inv_stream_segments [OF assms]) simp

lemma history_never_captured_witness:
  "\<exists>e s l c'. stream_segments demo_ops demo_fetch options_none None [GapSeg 0 10] [ChNext, ChNext]
     no_live_side demo_historical = Some (e, s, l, c') \<and> ct_tap_log c' = None"
  using demo_segments_run history_never_captured [of demo_ops demo_fetch options_none None "[GapSeg 0 10]"
      "[ChNext, ChNext]" no_live_side demo_historical]
  by (fastforce simp: demo_historical_def new_controller_def)

text \<open>A live session's tap log holds, after what it held before, only data events of the
  stream, verbatim and in stream order.\<close>

lemma tap_log_verbatim:
  assumes "run_live ops fetch edge backfill sched ins seed
             (new_controller i k sc adj opts prov (Some log0) cache snk cap fo acct) = Some (ended, c')"
    and "ct_tap_log c' = Some log"
  shows "\<exists>new. log = log0 @ new \<and> subseq new (filter is_data (ct_trace c'))"
proof -
  have "log_inv log0 (new_controller i k sc adj opts prov (Some log0) cache snk cap fo acct)"
    using new_controller_inv(2) [where log = "Some log0"] by simp
  then have "log_inv log0 c'" by (rule logs.inv_run_live [OF assms(1)])
  then show ?thesis using assms(2) by (simp add: log_inv_def)
qed

text \<open>C17: In the live loop the capture is complete: with capture on and not reconfigured, the
  log grows by exactly the data events the loop appends to the stream, seed included.\<close>

theorem tap_log_complete:
  assumes "live_loop seed ins c = Some (ended, c')" "no_reconfig ins" "teeing c" "ct_tap_log c = Some log"
  shows "\<exists>tr. ct_trace c' = ct_trace c @ tr \<and> ct_tap_log c' = Some (log @ filter is_data tr)"
  using live_loop_captures [OF assms(1-3)] assms(4) by (auto simp: captured_def)

definition demo_ins :: "live_in list" where
  "demo_ins = [LiSeed (Some (demo_trade 1 0)), LiProvider (Some (demo_trade 3 0)), LiCmd 9 (Some Close)]"

lemma demo_live_run: "\<exists>ended c'. live_loop True demo_ins demo_live = Some (ended, c')"
  by (rule live_loop_total) (simp add: demo_ins_def room_mono [OF demo_room(1)])

lemma demo_live_log: "teeing demo_live" "ct_tap_log demo_live = Some []" "no_reconfig demo_ins"
  by (simp_all add: teeing_def demo_live_def new_controller_def with_tap_log_def no_reconfig_def demo_ins_def)

theorem tap_log_complete_witness:
  "\<exists>ended c' tr. live_loop True demo_ins demo_live = Some (ended, c')
     \<and> ct_tap_log c' = Some (filter is_data tr) \<and> ct_trace c' = ct_trace demo_live @ tr"
  using demo_live_run tap_log_complete [OF _ demo_live_log(3,1,2)] by fastforce

lemma tap_log_verbatim_witness:
  "\<exists>ended c' log. run_live demo_ops demo_fetch 5 None [] demo_ins True demo_live = Some (ended, c')
     \<and> ct_tap_log c' = Some log \<and> subseq log (filter is_data (ct_trace c'))"
proof -
  let ?c = "demo_live\<lparr> ct_stats := set_subscribers 1 (ct_stats demo_live) \<rparr>"
  obtain ended c' where l: "live_loop True demo_ins ?c = Some (ended, c')"
    using live_loop_total [of demo_ins ?c True] demo_room(1) by (auto simp: room_def demo_ins_def)
  have r: "run_live demo_ops demo_fetch 5 None [] demo_ins True demo_live = Some (ended, c')"
    using l by (simp add: run_live_def demo_live_def new_controller_def fanout_subscriber_count_def
        fanout_add_def fanout_new_def)
  have "captured ?c c'"
    by (rule live_loop_captures [OF l demo_live_log(3)]) (use demo_live_log(1) in \<open>simp add: teeing_def\<close>)
  then obtain log where "ct_tap_log c' = Some log" using demo_live_log(2) by (auto simp: captured_def)
  then show ?thesis using r tap_log_verbatim [OF r [unfolded demo_live_def], of log] by auto
qed

text \<open>The latest-value seed never overtakes live data: once a data event went out, an armed
  seed branch is equivalent to a disarmed one, and a disarmed one to no seed at all.\<close>

lemma seed_never_after_data:
  assumes "ct_data_forwarded c"
  shows "live_loop seed ins c = live_loop False (filter (\<lambda>i. \<not> is_seed i) ins) c"
proof -
  have "live_loop seed ins c = live_loop False ins c"
    by (cases seed) (simp_all add: live_loop_data_first [OF assms])
  also have "\<dots> = live_loop False (filter (\<lambda>i. \<not> is_seed i) ins) c" by (rule live_loop_disarmed)
  finally show ?thesis .
qed

lemma seed_never_after_data_witness:
  "live_loop True demo_ins (demo_live\<lparr> ct_data_forwarded := True \<rparr>)
     = live_loop False [LiProvider (Some (demo_trade 3 0)), LiCmd 9 (Some Close)]
         (demo_live\<lparr> ct_data_forwarded := True \<rparr>)"
  using seed_never_after_data [of "demo_live\<lparr> ct_data_forwarded := True \<rparr>" True demo_ins]
  by (simp add: demo_ins_def is_seed_def)

text \<open>A live loop whose counter can stamp one event per input returns: the counter's
  panic is the only way out, and it needs an exhausted counter.\<close>

lemma live_loop_returns:
  assumes "unat (ct_next_seq c) + length ins + 1 < 2 ^ 64"
  shows "\<exists>ended c'. live_loop seed ins c = Some (ended, c')"
  by (rule live_loop_total) (use assms in \<open>simp add: room_def\<close>)



text \<open>The highest sequence number ever stamped is two below the maximum: the counter
  panics before handing out the last value below the synthetic marker.\<close>

lemma stamp_limit:
  "case stamp ev c of
     None \<Rightarrow> ct_next_seq c \<in> {SYNTHETIC, SYNTHETIC - 1}
   | Some (ev', c') \<Rightarrow> ev' = stamp_seq ev (ct_next_seq c) \<and> unat (ev_seq ev') + 2 < 2 ^ 64
       \<and> ct_next_seq c' = ct_next_seq c + 1"
proof (cases "stamp ev c")
  case None
  then have "unat (ct_next_seq c) \<in> {2 ^ 64 - 2, 2 ^ 64 - 1}"
    using stamp_None [of ev c] by (auto simp: le_less_Suc_eq not_le) (use unsigned_less [where 'a = nat, of "ct_next_seq c"] in simp)
  then have "ct_next_seq c \<in> {of_nat (2 ^ 64 - 2), of_nat (2 ^ 64 - 1)}"
    unfolding insert_iff empty_iff by (metis of_nat_unat_u64)
  moreover have "of_nat (2 ^ 64 - 2) = SYNTHETIC - 1" "of_nat (2 ^ 64 - 1) = SYNTHETIC"
    by (simp_all add: SYNTHETIC_def u64_max_def)
  ultimately show ?thesis using None by auto
next
  case (Some r)
  then show ?thesis using stamp_Some [of ev c "fst r" "snd r"] by (cases r) simp
qed

text \<open>A historical session that reached its end with the consumer attached and is then
  closed by command delivers \<open>SessionClosing\<close> twice.\<close>

lemma closing_delivered_twice:
  assumes "ct_stream_taken c" "ct_fanout c = None" "ct_sink c = Attached ch" "\<not> ch_closed ch"
    and "unat (ct_next_seq c) + 3 < 2 ^ 64"
  shows "\<exists>c'. finish_historical now now' [FinCmd now2 (Some Close)] c = Some (True, c') \<and>
    map unstamped (ct_trace c') = map unstamped (ct_trace c) @ [closing_control now, closing_control now2]"
proof -
  have rm: "room (Suc (Suc 0)) c" using assms(5) by (simp add: room_def)
  obtain c1 where c1: "emit (closing_control now) c = Some c1" "room (Suc 0) c1" by (rule emit_room [OF rm])
  obtain c2 where c2: "emit (closing_control now2) c1 = Some c2" "room 0 c2" by (rule emit_room [OF c1(2)])
  have "\<exists>ch1. ct_sink c1 = Attached ch1 \<and> \<not> ch_closed ch1"
    using c1(1) assms(2-4) by (auto simp: emit_def deliver_def deliver_with_def stamp_Some sink_deliver_def
        publish_def split: bind_splits)
  then have "finish_historical now now' [FinCmd now2 (Some Close)] c = Some (True, c2)"
    using assms(1) c1(1) c2(1) by (auto simp: finish_historical_def handle_command_def shutdown_def)
  moreover have "unstamped (closing_control t) = closing_control t" for t
    by (simp add: closing_control_def unstamped_def)
  ultimately show ?thesis using emit_Some(3) [OF c1(1)] emit_Some(3) [OF c2(1)] by simp
qed

lemma closing_delivered_twice_witness:
  "\<exists>c'. finish_historical 1 2 [FinCmd 3 (Some Close)] (demo_historical\<lparr> ct_stream_taken := True \<rparr>) = Some (True, c')
     \<and> map unstamped (ct_trace c') = [closing_control 1, closing_control 3]"
  using closing_delivered_twice [of "demo_historical\<lparr> ct_stream_taken := True \<rparr>" "chan_new 8" 1 2 3]
  by (simp add: demo_historical_def new_controller_def chan_new_def)

end
