(* ===== verification/Read_Through.thy ===== *)
theory Read_Through
  imports Turso_Cache Controller_Spec
begin

text \<open>
  The session controller over the Turso cache. \<open>historical_cache\<close> is the part of the
  \<^verbatim>\<open>HistoricalCache\<close> contract the read-through relies on, stated over the operations the
  controller calls; its lemmas follow a plan through the cache it writes. The Turso model is
  interpreted as such a cache, which gives the end-to-end properties: a window that was
  streamed once is answered from the cache from then on.
\<close>

section \<open>The cache contract\<close>

lemma covered_gap_pieces:
  "covered (map span_seg (map (\<lambda>s. gap_span_of (seg_from s) (seg_to s)) (filter is_gap segs))) =
     \<Union> (piece ` {s \<in> set segs. is_gap s})"
  by (induction segs) (auto simp: span_seg_def piece_def seg_set_def)

locale historical_cache =
  fixes ops :: "'c cache_ops"
    and ok :: "'c \<Rightarrow> bool"
    and cov :: "'c \<Rightarrow> cache_key \<Rightarrow> int set"
    and ser :: "cache_key \<Rightarrow> 'k"
    and storable :: "cache_key \<Rightarrow> market_event list \<Rightarrow> bool"
  assumes gaps_exact: "ok k \<Longrightarrow> k_from key < k_to key \<Longrightarrow>
      \<exists>gs. co_gaps ops k key = Inr gs \<and> proper_gaps (k_from key) (k_to key) gs
        \<and> covered (map span_seg gs) = {k_from key ..< k_to key} - cov k key"
    and store_ok: "ok k \<Longrightarrow> ok (snd (co_store ops key evs k))"
    and store_cov: "ok k \<Longrightarrow> storable key evs \<Longrightarrow>
      cov (snd (co_store ops key evs k)) key' =
        (if ser key' = ser key then cov k key' \<union> {k_from key ..< k_to key} else cov k key')"
    and ser_window: "ser (key\<lparr> k_from := a, k_to := b \<rparr>) = ser key"
    and cov_series: "ser key = ser key' \<Longrightarrow> cov k key = cov k key'"
begin

lemma ser_segment: "ser (segment_key a b c) = ser (segment_key a' b' c)"
proof -
  have "ser (segment_key a b c) = ser ((segment_key a' b' c)\<lparr> k_from := a, k_to := b \<rparr>)"
    by (simp add: segment_key_def)
  also have "\<dots> = ser (segment_key a' b' c)" by (rule ser_window)
  finally show ?thesis .
qed

lemma cov_segment: "cov k (segment_key a b c) = cov k (segment_key a' b' c)"
  by (rule cov_series [OF ser_segment])

lemma planned_gaps_exact:
  assumes "ok k" "k_from key < k_to key"
  shows "proper_gaps (k_from key) (k_to key) (planned_gaps ops key k)
    \<and> covered (map span_seg (planned_gaps ops key k)) = {k_from key ..< k_to key} - cov k key"
proof -
  obtain gs where "co_gaps ops k key = Inr gs" "proper_gaps (k_from key) (k_to key) gs"
    "covered (map span_seg gs) = {k_from key ..< k_to key} - cov k key"
    using gaps_exact [OF assms] by blast
  moreover from this(1) have "planned_gaps ops key k = gs" by (simp add: planned_gaps_def)
  ultimately show ?thesis by simp
qed

text \<open>A clean plan adds exactly the windows it fetched to what the series covers.\<close>

lemma plan_adds_gaps:
  assumes "write_cache opts" "\<And>a b. snd (fetch (request_of a b c)) = FetchOk"
    and "\<And>a b. storable (segment_key a b c) (fst (fetch (request_of a b c)))"
    and "ok k" "plan_script ops fetch opts None c segs (Some k) = (evs, cache')"
  shows "\<exists>k'. cache' = Some k' \<and> ok k'
    \<and> cov k' (segment_key f t c) = cov k (segment_key f t c) \<union> \<Union> (piece ` {s \<in> set segs. is_gap s})"
  using assms(4,5)
proof (induction segs arbitrary: k evs)
  case (Cons seg segs)
  show ?case
  proof (cases seg)
    case (Covered a b)
    then obtain evs' where "plan_script ops fetch opts None c segs (Some k) = (evs', cache')"
      using Cons.prems(2) by (auto simp: segment_script_def split: sum.splits prod.splits)
    from Cons.IH [OF Cons.prems(1) this] show ?thesis using Covered by (auto simp: is_gap_def)
  next
    case (GapSeg a b)
    let ?key = "segment_key a b c"
    let ?k = "snd (co_store ops ?key (fst (fetch (request_of a b c))) k)"
    have ok: "ok ?k" by (rule store_ok [OF Cons.prems(1)])
    have cov: "cov ?k (segment_key f t c) = cov k (segment_key f t c) \<union> {a ..< b}"
      using store_cov [OF Cons.prems(1) assms(3), of a b "segment_key f t c"] ser_segment [of f t c a b]
      by (simp add: segment_key_def)
    obtain evs' where "plan_script ops fetch opts None c segs (Some ?k) = (evs', cache')"
      using Cons.prems(2) GapSeg assms(1) assms(2) [of a b]
      by (auto simp: segment_script_def written_def fetch_error_def split: prod.splits)
    moreover have "{s \<in> set (seg # segs). is_gap s} = insert seg {s \<in> set segs. is_gap s}" using GapSeg by auto
    ultimately show ?thesis using Cons.IH [OF ok] GapSeg cov by (simp add: Un_assoc)
  qed
qed auto

lemma refetch_free:
  assumes "write_cache opts" "\<And>a b. snd (fetch (request_of a b c)) = FetchOk"
    and "\<And>a b. storable (segment_key a b c) (fst (fetch (request_of a b c)))"
    and "ok k" "f < t"
    and "plan_script ops fetch opts None c (tile f t (planned_gaps ops (segment_key f t c) k)) (Some k) = (evs, cache')"
  shows "\<exists>k'. cache' = Some k' \<and> ok k'
    \<and> (\<forall>a b. f \<le> a \<and> a < b \<and> b \<le> t \<longrightarrow> tile a b (planned_gaps ops (segment_key a b c) k') = [Covered a b])"
proof -
  let ?gs = "planned_gaps ops (segment_key f t c) k"
  have gs: "proper_gaps f t ?gs" and cov: "covered (map span_seg ?gs) = {f ..< t} - cov k (segment_key f t c)"
    using planned_gaps_exact [OF assms(4), of "segment_key f t c"] assms(5) by (simp_all add: segment_key_def)
  have "map (\<lambda>s. gap_span_of (seg_from s) (seg_to s)) (filter is_gap (tile f t ?gs)) = ?gs"
    unfolding tile_def by (rule tile_loop_gap_pieces [OF gs])
  then have "covered (map span_seg ?gs) = \<Union> (piece ` {s \<in> set (tile f t ?gs). is_gap s})"
    using covered_gap_pieces [of "tile f t ?gs"] by simp
  then have "{f ..< t} \<subseteq> cov k (segment_key f t c) \<union> \<Union> (piece ` {s \<in> set (tile f t ?gs). is_gap s})"
    using cov by blast
  then obtain k' where k': "cache' = Some k'" "ok k'" "{f ..< t} \<subseteq> cov k' (segment_key f t c)"
    using plan_adds_gaps [OF assms(1-4,6), of f t] by metis
  have "tile a b (planned_gaps ops (segment_key a b c) k') = [Covered a b]" if "f \<le> a" "a < b" "b \<le> t" for a b
  proof -
    let ?hs = "planned_gaps ops (segment_key a b c) k'"
    have "covered (map span_seg ?hs) = {a ..< b} - cov k' (segment_key f t c)" and hs: "proper_gaps a b ?hs"
      using planned_gaps_exact [OF k'(2), of "segment_key a b c"] that cov_segment [of k' a b c f t]
      by (simp_all add: segment_key_def)
    then have "covered (map span_seg ?hs) = {}" using k'(3) that by auto
    then have "?hs = []" using hs by (cases ?hs) (auto simp: span_seg_def)
    then show ?thesis using that by (simp add: tile_def)
  qed
  then show ?thesis using k' by blast
qed

end

section \<open>The Turso cache honours the contract\<close>

definition turso_ops :: "string \<Rightarrow> turso_db cache_ops" where
  "turso_ops bad = \<lparr> co_gaps = gaps, co_store = store None bad, co_open = replay_open bad \<rparr>"

lemma store_succeeds:
  assumes "db_ok db" "\<forall>ev \<in> set evs. of_kind key ev"
  shows "\<exists>db'. store_in_tx bad key evs db = Inr db'"
proof -
  let ?rows = "fold (\<lambda>ev. AList.update (row_of key (event_ts ev)) (row_of_event ev)) evs (delete_range key (db_rows db))"
  have "coverage_ok (db_coverage (db\<lparr> db_rows := ?rows \<rparr>))" using assms(1) by (simp add: db_ok_def)
  then obtain d where "load_coverage (db\<lparr> db_rows := ?rows \<rparr>) key = Inr d" using load_coverage_ok by blast
  then show ?thesis
    by (simp add: store_in_tx_def insert_events_of_kind [OF assms(2)] write_coverage_def Let_def)
qed

lemma store_covers:
  assumes "db_ok db" "\<forall>ev \<in> set evs. of_kind key ev"
  shows "covered_at (snd (store None bad key evs db)) key' =
    (if series key' = series key then covered_at db key' \<union> {k_from key ..< k_to key} else covered_at db key')"
proof -
  obtain db' where db': "store_in_tx bad key evs db = Inr db'" using store_succeeds [OF assms] by blast
  have "covered_at db key' = covered_at db key" if "series key' = series key"
    using that by (simp add: covered_at_def doc_at_def load_coverage_def coverage_key_of_def)
  then show ?thesis
    using store_in_tx_covered [OF assms(1) db', of key'] by (auto simp: store_def db' coverage_key_iff)
qed

lemma turso_gaps_exact:
  assumes "db_ok db" "k_from key < k_to key"
  shows "\<exists>gs. gaps db key = Inr gs \<and> proper_gaps (k_from key) (k_to key) gs
    \<and> covered (map span_seg gs) = {k_from key ..< k_to key} - covered_at db key"
proof -
  let ?gs = "series_gaps (db, key) (k_from key) (k_to key)"
  have gs: "gaps db key = Inr ?gs" by (simp add: series_gaps_def gaps_doc_at [OF assms(1)])
  have proper: "proper_gaps (k_from key) (k_to key) ?gs"
    using turso.gaps_proper [of "(db, key)"] assms by simp
  have "{k_from key ..< k_to key} - covered_at db key \<subseteq> covered (map span_seg ?gs)"
    using turso.gaps_complete [of "(db, key)"] assms by simp
  moreover have "covered (map span_seg ?gs) \<inter> covered_at db key = {}"
    using turso.gaps_exact [of "(db, key)"] assms by simp
  moreover have "covered (map span_seg ?gs) \<subseteq> {k_from key ..< k_to key}"
    using proper by (fastforce simp: proper_gaps_def covered_iff)
  ultimately show ?thesis using gs proper by blast
qed

interpretation turso_cache: historical_cache "turso_ops bad" db_ok covered_at series
  "\<lambda>key evs. \<forall>ev \<in> set evs. of_kind key ev"
proof
  fix k :: turso_db and key key' :: cache_key and evs
  assume ok: "db_ok k"
  show "db_ok (snd (co_store (turso_ops bad) key evs k))"
    using store_ok [OF ok] by (simp add: turso_ops_def)
  show "k_from key < k_to key \<Longrightarrow> \<exists>gs. co_gaps (turso_ops bad) k key = Inr gs
      \<and> proper_gaps (k_from key) (k_to key) gs
      \<and> covered (map span_seg gs) = {k_from key ..< k_to key} - covered_at k key"
    using turso_gaps_exact [OF ok, of key] by (simp add: turso_ops_def)
  show "\<forall>ev \<in> set evs. of_kind key ev \<Longrightarrow> covered_at (snd (co_store (turso_ops bad) key evs k)) key' =
      (if series key' = series key then covered_at k key' \<union> {k_from key ..< k_to key} else covered_at k key')"
    using store_covers [OF ok] by (simp add: turso_ops_def)
next
  fix key key' :: cache_key and a b :: timestamp and k :: turso_db
  show "series (key\<lparr> k_from := a, k_to := b \<rparr>) = series key"
    by (simp add: series_def effective_adjustment_def split: event_kind.split)
  show "series key = series key' \<Longrightarrow> covered_at k key = covered_at k key'"
    by (simp add: covered_at_def doc_at_def load_coverage_def coverage_key_of_def)
qed

section \<open>End to end\<close>

lemma read_through_again:
  assumes "db_ok db" "f < t" "ct_cache c = Some db" "write_cache opts"
    and "stream_segments (turso_ops bad) fetch opts None (tile f t (planned_gaps (turso_ops bad) (segment_key f t c) db))
           sched lv c = Some (SegDone, sched', lv', c')"
    and "\<forall>a b. snd (fetch (request_of a b c)) = FetchOk
           \<and> (\<forall>ev \<in> set (fst (fetch (request_of a b c))). of_kind (segment_key a b c) ev)"
  shows "\<exists>db'. ct_cache c' = Some db' \<and> db_ok db'
    \<and> (\<forall>a b. f \<le> a \<and> a < b \<and> b \<le> t
         \<longrightarrow> tile a b (planned_gaps (turso_ops bad) (segment_key a b c) db') = [Covered a b])"
proof -
  obtain evs where "plan_script (turso_ops bad) fetch opts None c
      (tile f t (planned_gaps (turso_ops bad) (segment_key f t c) db)) (Some db) = (evs, ct_cache c')"
    using stream_segments_refines [OF assms(5)] assms(3) by auto
  then show ?thesis using turso_cache.refetch_free [OF assms(4) _ _ assms(1,2)] assms(6) by metis
qed



section \<open>A concrete read-through\<close>

definition demo_cached :: "turso_db controller" where
  "demo_cached = new_controller demo_instrument KTrade (Historical 0 10) Raw options_cached ''alpaca''
     None (Some turso_empty) (Attached (chan_new 8)) 8 None accounting_default"

lemma demo_cached_facts:
  "segment_key a b demo_cached = demo_key a b" "ct_cache demo_cached = Some turso_empty"
  "ct_trace demo_cached = []" "gaps turso_empty (demo_key 0 10) = Inr [gap_span_of 0 10]"
  "demo_fetch (request_of a b demo_cached) = ([demo_trade a 0], FetchOk)"
  "of_kind (demo_key a b) (demo_trade x y)" "write_cache options_cached" "room 100 demo_cached"
  by (simp_all add: segment_key_def demo_cached_def new_controller_def demo_key_def gaps_def load_coverage_def
      turso_empty_def doc_or_default_def doc_spans_def gaps_within_def gaps_tail_def coverage_default_def to_span_def demo_fetch_def
      request_of_def of_kind_def demo_trade_def options_cached_def room_def)

lemma demo_first_run:
  obtains c' where "stream_segments (turso_ops []) demo_fetch options_cached None [GapSeg 0 10] [ChNext, ChNext]
     no_live_side demo_cached = Some (SegDone, [], no_live_side, c')"
proof -
  let ?c = "demo_cached\<lparr> ct_accounting := record_history_fetch (ct_accounting demo_cached) \<rparr>"
  have "room (Suc 0) ?c" using demo_cached_facts(8) by (simp add: room_def)
  then obtain d where "emit (demo_trade 0 0) ?c = Some d" by (rule emit_room)
  then show ?thesis
    using demo_cached_facts(2,5,7)
    by (intro that) (simp add: gap_segment_def request_of_def fetch_error_def Let_def)
qed


lemma demo_stored:
  obtains db' where "store_in_tx [] (demo_key 0 10) [demo_trade 0 0] turso_empty = Inr db'"
  using store_succeeds [OF turso_empty_ok, of "[demo_trade 0 0]" "demo_key 0 10" "[]"] demo_cached_facts(6) by auto

lemma demo_batch: "batch_rows 0 10 [demo_trade 0 0] = [demo_trade 0 0]"
  by (simp add: batch_rows_def newest_at_def event_ts_def demo_trade_def data_source_ts_def)

lemma demo_second_run:
  assumes "store_in_tx [] (demo_key 0 10) [demo_trade 0 0] turso_empty = Inr db'"
  obtains d' where "stream_segments (turso_ops []) demo_fetch options_cached None [Covered 0 10] [ChNext, ChNext]
     no_live_side (demo_cached\<lparr> ct_cache := Some db' \<rparr>) = Some (SegDone, [], no_live_side, d')"
proof -
  let ?d = "demo_cached\<lparr> ct_cache := Some db' \<rparr>"
  have key: "segment_key 0 10 ?d = demo_key 0 10" using demo_cached_facts(1) [of 0 10] by (simp add: segment_key_def)
  have "replay_open [] db' (demo_key 0 10) \<lparr> rq_instruments = [ct_instrument ?d], rq_kinds = [ct_kind ?d], rq_from = 0, rq_to = 10 \<rparr>
      = Inr [as_replayed (demo_key 0 10) (demo_trade 0 0)]"
    using replay_after_store [OF turso_empty_ok assms] demo_cached_facts(6)
    by (simp add: demo_key_def demo_cached_def new_controller_def demo_batch)
  moreover have "room (Suc 0) ?d" using demo_cached_facts(8) by (simp add: room_def)
  then obtain d' where "emit (as_replayed (demo_key 0 10) (demo_trade 0 0)) ?d = Some d'" by (rule emit_room)
  ultimately show ?thesis
    using key by (intro that [of d']) (simp add: covered_segment_def turso_ops_def loop_outcome_def)
qed


end
