(* ===== verification/Decimal.thy ===== *)
theory Decimal
  imports DM_Prelude
begin

text \<open>
  Decimal text as the standard library prints and parses it: \<^verbatim>\<open>to_string\<close>, zero-padded
  \<^verbatim>\<open>{:06}\<close>, \<^verbatim>\<open>parse::<u64>\<close> and \<^verbatim>\<open>strip_prefix\<close>, over byte strings.
\<close>

section \<open>Digits\<close>

definition digit_char :: "nat \<Rightarrow> char" where
  "digit_char d = char_of (48 + d)"

definition is_ascii_digit :: "char \<Rightarrow> bool" where
  "is_ascii_digit c \<longleftrightarrow> 48 \<le> (of_char c :: nat) \<and> (of_char c :: nat) \<le> 57"

definition digit_value :: "char \<Rightarrow> nat" where
  "digit_value c = of_char c - 48"

lemma digit_value_char [simp]: "d < 10 \<Longrightarrow> digit_value (digit_char d) = d"
  by (simp add: digit_value_def digit_char_def)

lemma is_ascii_digit_char [simp]: "d < 10 \<Longrightarrow> is_ascii_digit (digit_char d)"
  by (simp add: is_ascii_digit_def digit_char_def)

lemma digit_char_ne [simp]: "d < 10 \<Longrightarrow> digit_char d \<noteq> CHR '':''" "d < 10 \<Longrightarrow> digit_char d \<noteq> CHR ''+''"
  by (auto simp: is_ascii_digit_def dest: is_ascii_digit_char)

section \<open>Printing and reading\<close>

fun show_nat :: "nat \<Rightarrow> string" where
  "show_nat n = (if n < 10 then [digit_char n] else show_nat (n div 10) @ [digit_char (n mod 10)])"

definition pad_zeros :: "nat \<Rightarrow> string \<Rightarrow> string" where
  "pad_zeros width s = replicate (width - length s) CHR ''0'' @ s"

definition read_digits :: "string \<Rightarrow> nat" where
  "read_digits s = foldl (\<lambda>n c. 10 * n + digit_value c) 0 s"

definition all_digits :: "string \<Rightarrow> bool" where
  "all_digits s \<longleftrightarrow> s \<noteq> [] \<and> list_all is_ascii_digit s"

text \<open>\<^verbatim>\<open>str::parse::<u64>\<close>: an optional plus sign, then digits whose value fits.\<close>

definition parse_u64 :: "string \<Rightarrow> u64 option" where
  "parse_u64 s =
     (let ds = (case s of c # cs \<Rightarrow> if c = CHR ''+'' then cs else s | [] \<Rightarrow> []) in
      if all_digits ds \<and> read_digits ds < 2 ^ 64 then Some (of_nat (read_digits ds)) else None)"

definition strip_prefix :: "string \<Rightarrow> string \<Rightarrow> string option" where
  "strip_prefix p s = (if take (length p) s = p then Some (drop (length p) s) else None)"

declare show_nat.simps [simp del]

lemma read_digits_snoc [simp]: "read_digits (s @ [c]) = 10 * read_digits s + digit_value c"
  by (simp add: read_digits_def)

lemma read_digits_Nil [simp]: "read_digits [] = 0"
  by (simp add: read_digits_def)

lemma show_nat_digits: "all_digits (show_nat n)"
proof (induction n rule: less_induct)
  case (less n)
  then show ?case
    using less [of "n div 10"] by (subst show_nat.simps) (auto simp: all_digits_def)
qed

lemma read_show_nat [simp]: "read_digits (show_nat n) = n"
proof (induction n rule: less_induct)
  case (less n)
  show ?case
  proof (cases "n < 10")
    case True
    then show ?thesis using read_digits_snoc [of "[]" "digit_char n"] by (simp add: show_nat.simps)
  next
    case False
    then show ?thesis using less [of "n div 10"] by (subst show_nat.simps) simp
  qed
qed

lemma show_nat_inj: "show_nat m = show_nat n \<Longrightarrow> m = n"
  by (metis read_show_nat)

lemma read_zeros [simp]: "read_digits (replicate k CHR ''0'' @ s) = read_digits s"
proof -
  have "foldl (\<lambda>n c. 10 * n + digit_value c) 0 (replicate k CHR ''0'') = 0"
    by (induction k) (simp_all add: digit_value_def)
  then show ?thesis by (simp add: read_digits_def)
qed

lemma read_pad_zeros [simp]: "read_digits (pad_zeros w s) = read_digits s"
  by (simp add: pad_zeros_def)

lemma pad_zeros_digits: "all_digits s \<Longrightarrow> all_digits (pad_zeros w s)"
  by (auto simp: all_digits_def pad_zeros_def list_all_iff is_ascii_digit_def)

lemma parse_digits:
  assumes "all_digits s" "read_digits s < 2 ^ 64"
  shows "parse_u64 s = Some (of_nat (read_digits s))"
proof -
  have "(case s of c # cs \<Rightarrow> if c = CHR ''+'' then cs else s | [] \<Rightarrow> []) = s"
    using assms(1) by (auto simp: all_digits_def is_ascii_digit_def split: list.splits)
  then show ?thesis using assms by (simp add: parse_u64_def)
qed

lemma strip_prefix_append [simp]: "strip_prefix p (p @ s) = Some s"
  by (simp add: strip_prefix_def)

section \<open>Splitting\<close>

text \<open>\<^verbatim>\<open>str::split\<close> on one character: always at least one part.\<close>

fun split_on :: "char \<Rightarrow> string \<Rightarrow> string list" where
  "split_on sep [] = [[]]"
| "split_on sep (c # s) =
     (if c = sep then [] # split_on sep s
      else case split_on sep s of p # ps \<Rightarrow> (c # p) # ps | [] \<Rightarrow> [[c]])"

text \<open>\<^verbatim>\<open>str::split_once\<close> on one character and \<^verbatim>\<open>str::strip_suffix\<close>.\<close>

fun split_once :: "char \<Rightarrow> string \<Rightarrow> (string \<times> string) option" where
  "split_once sep [] = None"
| "split_once sep (c # s) =
     (if c = sep then Some ([], s) else map_option (\<lambda>(p, q). (c # p, q)) (split_once sep s))"

definition strip_suffix :: "string \<Rightarrow> string \<Rightarrow> string option" where
  "strip_suffix p s = map_option rev (strip_prefix (rev p) (rev s))"

lemma split_on_none: "sep \<notin> set s \<Longrightarrow> split_on sep s = [s]"
  by (induction s) auto

lemma split_on_append: "sep \<notin> set p \<Longrightarrow> split_on sep (p @ sep # s) = p # split_on sep s"
  by (induction p) auto

lemma split_once_append [simp]: "sep \<notin> set p \<Longrightarrow> split_once sep (p @ sep # s) = Some (p, s)"
  by (induction p) auto

lemma split_once_none [simp]: "sep \<notin> set s \<Longrightarrow> split_once sep s = None"
  by (induction s) auto

lemma strip_suffix_append [simp]: "strip_suffix p (s @ p) = Some s"
  by (simp add: strip_suffix_def)

lemma digits_not_in: "all_digits s \<Longrightarrow> \<not> is_ascii_digit c \<Longrightarrow> c \<notin> set s"
  by (auto simp: all_digits_def list_all_iff)

section \<open>Length-prefixed strings\<close>

text \<open>One component written as \<open>length:bytes\<close>.\<close>

definition netstring :: "string \<Rightarrow> string" where
  "netstring s = show_nat (length s) @ CHR '':'' # s"

lemma netstring_split:
  assumes "netstring s @ xs = netstring t @ ys"
  shows "s = t \<and> xs = ys"
proof -
  have colon: "CHR '':'' \<notin> set (show_nat n)" for n
    using show_nat_digits [of n] by (auto simp: all_digits_def list_all_iff is_ascii_digit_def)
  have tw: "takeWhile (\<lambda>c. c \<noteq> CHR '':'') (show_nat n) = show_nat n" for n
    using colon [of n] by (auto simp: takeWhile_eq_all_conv)
  have eq: "show_nat (length s) @ CHR '':'' # s @ xs = show_nat (length t) @ CHR '':'' # t @ ys"
    using assms by (simp add: netstring_def)
  then have "takeWhile (\<lambda>c. c \<noteq> CHR '':'') (show_nat (length s) @ CHR '':'' # s @ xs)
      = takeWhile (\<lambda>c. c \<noteq> CHR '':'') (show_nat (length t) @ CHR '':'' # t @ ys)" by simp
  then have "show_nat (length s) = show_nat (length t)"
    by (simp add: takeWhile_tail tw)
  then have "length s = length t" by (rule show_nat_inj)
  then show ?thesis using eq by simp
qed

lemma concat_netstrings_inj:
  "length ss = length ts \<Longrightarrow> concat (map netstring ss) = concat (map netstring ts) \<Longrightarrow> ss = ts"
proof (induction ss ts rule: list_induct2)
  case (Cons s ss t ts)
  then show ?case using netstring_split [of s "concat (map netstring ss)" t] by simp
qed simp

end
