(* ===== verification/Tap_Log.thy ===== *)
theory Tap_Log
  imports Decimal Turso_Cache "HOL-Library.Multiset" "HOL-Library.Sublist"
begin

text \<open>
  The Turso tap log (\<^verbatim>\<open>storage/turso_tap_log.rs\<close>): the writer task with its transaction, the
  shard registry, reopening after a crash, and replay. The database is its \<open>meta\<close> row, the
  \<open>streams\<close> table and the shard tables; the writer sees the working copy and only a commit
  or a statement outside a transaction reaches the disk. Every statement may fail: the
  failures are a list of outcomes, one per statement, success once it is used up.
\<close>

section \<open>Vocabulary\<close>

definition TAP_SCHEMA_VERSION :: i64 where "TAP_SCHEMA_VERSION = 20"

fun kind_tag :: "event_kind \<Rightarrow> string" where
  "kind_tag KTrade = ''trade''"
| "kind_tag KQuote = ''quote''"
| "kind_tag (KBar OneSecond) = ''bar_1s''"
| "kind_tag (KBar OneMinute) = ''bar_1m''"
| "kind_tag (KBar FiveMinute) = ''bar_5m''"
| "kind_tag (KBar FifteenMinute) = ''bar_15m''"
| "kind_tag (KBar OneHour) = ''bar_1h''"
| "kind_tag (KBar OneDay) = ''bar_1d''"

definition kind_from_tag :: "string \<Rightarrow> event_kind option" where
  "kind_from_tag tag =
     (if tag = ''trade'' then Some KTrade
      else if tag = ''quote'' then Some KQuote
      else if tag = ''bar_1s'' then Some (KBar OneSecond)
      else if tag = ''bar_1m'' then Some (KBar OneMinute)
      else if tag = ''bar_5m'' then Some (KBar FiveMinute)
      else if tag = ''bar_15m'' then Some (KBar FifteenMinute)
      else if tag = ''bar_1h'' then Some (KBar OneHour)
      else if tag = ''bar_1d'' then Some (KBar OneDay)
      else None)"

definition registry_id :: "instrument \<Rightarrow> event_kind \<Rightarrow> string" where
  "registry_id i k =
     concat (map netstring [i_provider i, asset_class_tag (i_asset_class i), i_symbol i, kind_tag k])"

definition is_valid_shard_name :: "string \<Rightarrow> bool" where
  "is_valid_shard_name name =
     (case strip_prefix ''tap_'' name of None \<Rightarrow> False | Some d \<Rightarrow> all_digits d)"

definition shard_name :: "u64 \<Rightarrow> string" where
  "shard_name n = ''tap_'' @ pad_zeros 6 (show_nat (unat n))"

text \<open>The stream an event belongs to; controls belong to none and are not tapped.\<close>

fun stream_of :: "market_event \<Rightarrow> (instrument \<times> event_kind) option" where
  "stream_of (Trade t) = Some (t_instrument t, KTrade)"
| "stream_of (Quote q) = Some (q_instrument q, KQuote)"
| "stream_of (Bar b) = Some (b_instrument b, KBar (b_interval b))"
| "stream_of (Control _) = None"

section \<open>The database\<close>

record tap_row =
  tp_seq :: i64
  tp_source_ts :: i64
  tp_columns :: row

record stream_row =
  sr_provider :: string
  sr_asset_class :: string
  sr_symbol :: string
  sr_kind_tag :: string
  sr_shard_table :: string

record tap_db =
  td_meta :: "(i64 \<times> i64) option"
  td_streams :: "(string \<times> stream_row) list"
  td_tables :: "(string \<times> (i64 \<times> tap_row) list) list"

definition tap_empty :: tap_db where
  "tap_empty = \<lparr> td_meta = None, td_streams = [], td_tables = [] \<rparr>"

definition set_meta :: "u64 \<Rightarrow> u64 \<Rightarrow> tap_db \<Rightarrow> tap_db res" where
  "set_meta shard ord db = Inr (db\<lparr> td_meta := Some (cast_signed shard, cast_signed ord) \<rparr>)"

definition create_table :: "string \<Rightarrow> tap_db \<Rightarrow> tap_db res" where
  "create_table name db =
     Inr (if name \<in> fst ` set (td_tables db) then db else db\<lparr> td_tables := td_tables db @ [(name, [])] \<rparr>)"

definition stream_row_of :: "instrument \<Rightarrow> event_kind \<Rightarrow> string \<Rightarrow> stream_row" where
  "stream_row_of i k shard =
     \<lparr> sr_provider = i_provider i, sr_asset_class = asset_class_tag (i_asset_class i),
       sr_symbol = i_symbol i, sr_kind_tag = kind_tag k, sr_shard_table = shard \<rparr>"

definition register_stream :: "instrument \<Rightarrow> event_kind \<Rightarrow> string \<Rightarrow> tap_db \<Rightarrow> tap_db res" where
  "register_stream i k shard db =
     Inr (db\<lparr> td_streams := AList.update (registry_id i k) (stream_row_of i k shard) (td_streams db) \<rparr>)"

text \<open>The INSERT into a shard: a missing table and a used primary key are errors.\<close>

definition insert_row :: "string \<Rightarrow> i64 \<Rightarrow> tap_row \<Rightarrow> tap_db \<Rightarrow> tap_db res" where
  "insert_row shard ord r db =
     (case map_of (td_tables db) shard of
        None \<Rightarrow> Inl (Storage (''turso: no such table: '' @ shard))
      | Some rows \<Rightarrow>
          if ord \<in> fst ` set rows then Inl (Storage (''turso: UNIQUE constraint failed: '' @ shard))
          else Inr (db\<lparr> td_tables := AList.update shard (rows @ [(ord, r)]) (td_tables db) \<rparr>))"

fun tap_row_of :: "market_event \<Rightarrow> tap_row" where
  "tap_row_of (Trade t) = \<lparr> tp_seq = cast_signed (t_seq t), tp_source_ts = t_source_ts t,
     tp_columns = TradeRow (t_rx_ts t) (t_price t) (cast_signed (t_size t)) \<rparr>"
| "tap_row_of (Quote q) = \<lparr> tp_seq = cast_signed (q_seq q), tp_source_ts = q_source_ts q,
     tp_columns = QuoteRow (q_rx_ts q) (q_bid q) (cast_signed (q_bid_size q)) (q_ask q) (cast_signed (q_ask_size q)) \<rparr>"
| "tap_row_of (Bar b) = \<lparr> tp_seq = cast_signed (b_seq b), tp_source_ts = b_source_ts b,
     tp_columns = BarRow (b_rx_ts b) (b_open b) (b_high b) (b_low b) (b_close b) (cast_signed (b_volume b)) \<rparr>"
| "tap_row_of (Control c) = \<lparr> tp_seq = cast_signed (c_seq c), tp_source_ts = 0, tp_columns = TradeRow 0 0 0 \<rparr>"

section \<open>The writer\<close>

record tap_writer =
  tw_disk :: tap_db
  tw_work :: tap_db
  tw_next_shard :: u64
  tw_next_ord :: u64
  tw_shards :: "((instrument \<times> event_kind) \<times> string) list"
  tw_tx_open :: bool
  tw_last_error :: "error option"
  tw_faults :: "error option list"

text \<open>
  One statement through \<^verbatim>\<open>execute_retry\<close>. Outside a transaction it commits by itself.
\<close>

definition exec :: "(tap_db \<Rightarrow> tap_db res) \<Rightarrow> tap_writer \<Rightarrow> unit res \<times> tap_writer" where
  "exec stmt w0 =
     (let w = w0\<lparr> tw_faults := tl (tw_faults w0) \<rparr>;
          fault = (case tw_faults w0 of f # _ \<Rightarrow> f | [] \<Rightarrow> None)
      in case fault of
           Some e \<Rightarrow> (Inl e, w)
         | None \<Rightarrow>
             (case stmt (tw_work w) of
                Inl e \<Rightarrow> (Inl e, w)
              | Inr db \<Rightarrow> (Inr (), w\<lparr> tw_work := db, tw_disk := (if tw_tx_open w then tw_disk w else db) \<rparr>)))"

definition begin_if_needed :: "tap_writer \<Rightarrow> unit res \<times> tap_writer" where
  "begin_if_needed w =
     (if tw_tx_open w then (Inr (), w)
      else case exec Inr w of
        (Inl e, w') \<Rightarrow> (Inl e, w')
      | (Inr _, w') \<Rightarrow> (Inr (), w'\<lparr> tw_tx_open := True \<rparr>))"

text \<open>
  Persist the counters and COMMIT; on failure ROLLBACK, which always leaves the connection
  outside a transaction with the committed contents.
\<close>

definition commit_if_open :: "tap_writer \<Rightarrow> unit res \<times> tap_writer" where
  "commit_if_open w =
     (if \<not> tw_tx_open w then (Inr (), w)
      else let rollback = (\<lambda>v. v\<lparr> tw_work := tw_disk v, tw_tx_open := False \<rparr>) in
        case exec (set_meta (tw_next_shard w) (tw_next_ord w)) w of
          (Inl e, w1) \<Rightarrow> (Inl e, rollback w1)
        | (Inr _, w1) \<Rightarrow>
            (case exec Inr w1 of
               (Inl e, w2) \<Rightarrow> (Inl e, rollback w2)
             | (Inr _, w2) \<Rightarrow> (Inr (), w2\<lparr> tw_disk := tw_work w2, tw_tx_open := False \<rparr>)))"

definition ensure_shard :: "instrument \<Rightarrow> event_kind \<Rightarrow> tap_writer \<Rightarrow> unit res \<times> tap_writer" where
  "ensure_shard i k w =
     (if map_of (tw_shards w) (i, k) \<noteq> None then (Inr (), w)
      else if asset_class_tag (i_asset_class i) = ''unknown'' then
        (Inl (Storage (''tap log: asset class of '' @ instrument_display i @
           '' has no stable on-disk encoding; refusing to tap it. Add the variant to asset_class_tag/asset_class_from_tag in lockstep.'')), w)
      else case commit_if_open w of
        (Inl e, w1) \<Rightarrow> (Inl e, w1)
      | (Inr _, w1) \<Rightarrow>
          (let name = shard_name (tw_next_shard w1);
               w2 = w1\<lparr> tw_next_shard := tw_next_shard w1 + 1 \<rparr>
           in case exec (create_table name) w2 of
                (Inl e, w3) \<Rightarrow> (Inl e, w3)
              | (Inr _, w3) \<Rightarrow>
                  (case exec (register_stream i k name) w3 of
                     (Inl e, w4) \<Rightarrow> (Inl e, w4)
                   | (Inr _, w4) \<Rightarrow> (Inr (), w4\<lparr> tw_shards := AList.update (i, k) name (tw_shards w4) \<rparr>))))"

text \<open>\<^verbatim>\<open>write_event\<close>, once the stream has its shard: take the next ordinal and insert.\<close>

definition append_event :: "market_event \<Rightarrow> instrument \<Rightarrow> event_kind \<Rightarrow> tap_writer \<Rightarrow> unit res \<times> tap_writer" where
  "append_event ev i k w =
     (let ord = cast_signed (tw_next_ord w);
          w2 = w\<lparr> tw_next_ord := saturating_add_u64 (tw_next_ord w) 1 \<rparr>
      in case begin_if_needed w2 of
           (Inl e, w3) \<Rightarrow> (Inl e, w3)
         | (Inr _, w3) \<Rightarrow>
             (case map_of (tw_shards w3) (i, k) of
                None \<Rightarrow> (Inl (Storage (''tap log: shard for '' @ instrument_display i @
                           '' vanished after ensure_shard'')), w3)
              | Some shard \<Rightarrow> exec (insert_row shard ord (tap_row_of ev)) w3))"

definition write_event :: "market_event \<Rightarrow> tap_writer \<Rightarrow> unit res \<times> tap_writer" where
  "write_event ev w =
     (case stream_of ev of
        None \<Rightarrow> (Inr (), w)
      | Some (i, k) \<Rightarrow>
          (case ensure_shard i k w of
             (Inl e, w1) \<Rightarrow> (Inl e, w1)
           | (Inr _, w1) \<Rightarrow> append_event ev i k w1))"

definition handle_event :: "market_event \<Rightarrow> tap_writer \<Rightarrow> tap_writer" where
  "handle_event ev w =
     (case write_event ev w of
        (Inr _, w') \<Rightarrow> w'
      | (Inl e, w') \<Rightarrow> w'\<lparr> tw_last_error := Some e \<rparr>)"

definition handle_flush :: "tap_writer \<Rightarrow> unit res \<times> tap_writer" where
  "handle_flush w =
     (case commit_if_open w of (commit_res, w') \<Rightarrow>
        (case (tw_last_error w', commit_res) of
           (_, Inl commit) \<Rightarrow> Inl commit
         | (Some write, Inr _) \<Rightarrow> Inl write
         | (None, Inr _) \<Rightarrow> Inr (),
         w'\<lparr> tw_last_error := None \<rparr>))"

text \<open>The queue ran empty: commit what is open, remembering a failure for the next flush.\<close>

definition commit_point :: "tap_writer \<Rightarrow> tap_writer" where
  "commit_point w =
     (case commit_if_open w of
        (Inr _, w') \<Rightarrow> w'
      | (Inl e, w') \<Rightarrow> w'\<lparr> tw_last_error := Some e \<rparr>)"

datatype tap_act = TapEvent market_event | TapFlush | TapDrained

text \<open>The writer's loop over the commands it takes and the points where the queue is empty.\<close>

definition writer_act :: "tap_act \<Rightarrow> tap_writer \<Rightarrow> tap_writer" where
  "writer_act act w =
     (case act of
        TapEvent ev \<Rightarrow> handle_event ev w
      | TapFlush \<Rightarrow> snd (handle_flush w)
      | TapDrained \<Rightarrow> commit_point w)"

definition writer_run :: "tap_act list \<Rightarrow> tap_writer \<Rightarrow> tap_writer" where
  "writer_run acts w = fold writer_act acts w"

section \<open>Opening\<close>

definition load_shard :: "string \<times> stream_row \<Rightarrow> ((instrument \<times> event_kind) \<times> string) option" where
  "load_shard entry =
     (case entry of (_, r) \<Rightarrow>
        (case (asset_class_from_tag (sr_asset_class r), kind_from_tag (sr_kind_tag r)) of
           (Some a, Some k) \<Rightarrow>
             if is_valid_shard_name (sr_shard_table r)
             then Some ((instrument_new (sr_provider r) a (sr_symbol r), k), sr_shard_table r)
             else None
         | _ \<Rightarrow> None))"

definition recompute_next_shard :: "tap_db \<Rightarrow> u64 \<Rightarrow> u64" where
  "recompute_next_shard db persisted =
     foldl (\<lambda>floor (name, _).
        case Option.bind (strip_prefix ''tap_'' name) parse_u64 of
          None \<Rightarrow> floor
        | Some n \<Rightarrow> max floor (saturating_add_u64 n 1)) persisted (td_tables db)"

definition tap_open :: "error option list \<Rightarrow> tap_db \<Rightarrow> tap_writer" where
  "tap_open faults db =
     (let (shard, ord) = (case td_meta db of None \<Rightarrow> (0, 0) | Some (s, n) \<Rightarrow> (cast_unsigned s, cast_unsigned n)) in
      \<lparr> tw_disk = db, tw_work = db, tw_next_shard = recompute_next_shard db shard, tw_next_ord = ord,
        tw_shards = fold (\<lambda>(sk, name). AList.update sk name) (List.map_filter load_shard (td_streams db)) [],
        tw_tx_open = False, tw_last_error = None, tw_faults = faults \<rparr>)"

section \<open>Replay\<close>

definition decode_tap_row :: "instrument \<Rightarrow> event_kind \<Rightarrow> tap_row \<Rightarrow> market_event option" where
  "decode_tap_row i k r =
     (case (k, tp_columns r) of
        (KTrade, TradeRow rx pr sz) \<Rightarrow>
          Some (Trade \<lparr> t_instrument = i, t_source_ts = tp_source_ts r, t_rx_ts = rx,
                        t_seq = cast_unsigned (tp_seq r), t_price = pr, t_size = cast_unsigned sz \<rparr>)
      | (KQuote, QuoteRow rx bid bsz ask asz) \<Rightarrow>
          Some (Quote \<lparr> q_instrument = i, q_source_ts = tp_source_ts r, q_rx_ts = rx,
                        q_seq = cast_unsigned (tp_seq r), q_bid = bid, q_bid_size = cast_unsigned bsz,
                        q_ask = ask, q_ask_size = cast_unsigned asz \<rparr>)
      | (KBar iv, BarRow rx op hi lo cl vol) \<Rightarrow>
          Some (Bar \<lparr> b_instrument = i, b_interval = iv, b_source_ts = tp_source_ts r, b_rx_ts = rx,
                      b_seq = cast_unsigned (tp_seq r), b_open = op, b_high = hi, b_low = lo, b_close = cl,
                      b_volume = cast_unsigned vol \<rparr>)
      | _ \<Rightarrow> None)"

fun decode_tap_rows :: "string \<Rightarrow> instrument \<Rightarrow> event_kind \<Rightarrow> (i64 \<times> tap_row) list \<Rightarrow> (u64 \<times> market_event) list res" where
  "decode_tap_rows bad i k [] = Inr []"
| "decode_tap_rows bad i k ((ord, r) # rest) =
     (case decode_tap_row i k r of
        None \<Rightarrow> Inl (Storage bad)
      | Some ev \<Rightarrow> map_sum id (Cons (cast_unsigned ord, ev)) (decode_tap_rows bad i k rest))"

definition select_shard :: "tap_db \<Rightarrow> string \<Rightarrow> i64 \<Rightarrow> i64 \<Rightarrow> (i64 \<times> tap_row) list res" where
  "select_shard db shard from to =
     (case map_of (td_tables db) shard of
        None \<Rightarrow> Inl (Storage (''turso: no such table: '' @ shard))
      | Some rows \<Rightarrow> Inr (sort_key fst (filter (\<lambda>(_, r). from \<le> tp_source_ts r \<and> tp_source_ts r < to) rows)))"

fun collect_shards ::
  "string \<Rightarrow> tap_db \<Rightarrow> i64 \<Rightarrow> i64 \<Rightarrow> ((instrument \<times> event_kind) \<times> string) list \<Rightarrow> (u64 \<times> market_event) list res" where
  "collect_shards bad db from to [] = Inr []"
| "collect_shards bad db from to (((i, k), shard) # regs) =
     (case select_shard db shard from to of
        Inl e \<Rightarrow> Inl e
      | Inr rows \<Rightarrow>
          (case decode_tap_rows bad i k rows of
             Inl e \<Rightarrow> Inl e
           | Inr evs \<Rightarrow> map_sum id (append evs) (collect_shards bad db from to regs)))"

definition requested :: "replay_request \<Rightarrow> instrument \<times> event_kind \<Rightarrow> bool" where
  "requested rq sk \<longleftrightarrow>
     (rq_instruments rq = [] \<or> fst sk \<in> set (rq_instruments rq)) \<and> (rq_kinds rq = [] \<or> snd sk \<in> set (rq_kinds rq))"

definition tap_replay :: "string \<Rightarrow> tap_db \<Rightarrow> replay_request \<Rightarrow> market_event list res" where
  "tap_replay bad db rq =
     (if rq_from rq \<ge> rq_to rq then Inr []
      else map_sum id (\<lambda>all. map snd (sort_key fst all))
        (collect_shards bad db (rq_from rq) (rq_to rq)
           (filter (requested rq \<circ> fst) (List.map_filter load_shard (td_streams db)))))"

section \<open>Names\<close>

lemma kind_tag_roundtrip [simp]: "kind_from_tag (kind_tag k) = Some k"
proof (cases k)
  case (KBar b)
  then show ?thesis by (cases b) (simp_all add: kind_from_tag_def)
qed (simp_all add: kind_from_tag_def)

lemma kind_tag_inj: "kind_tag k = kind_tag k' \<Longrightarrow> k = k'"
  by (metis kind_tag_roundtrip option.inject)

lemma asset_class_tag_inj: "asset_class_tag a = asset_class_tag b \<Longrightarrow> a = b"
  by (metis asset_class_tag_roundtrip option.inject)

lemma registry_id_eq: "registry_id i k = registry_id i' k' \<longleftrightarrow> i = i' \<and> k = k'"
proof
  assume "registry_id i k = registry_id i' k'"
  then have "[i_provider i, asset_class_tag (i_asset_class i), i_symbol i, kind_tag k] =
      [i_provider i', asset_class_tag (i_asset_class i'), i_symbol i', kind_tag k']"
    unfolding registry_id_def by (intro concat_netstrings_inj) simp_all
  then show "i = i' \<and> k = k'" by (auto intro: instrument.equality asset_class_tag_inj kind_tag_inj)
qed simp

lemma shard_number [simp]: "Option.bind (strip_prefix ''tap_'' (shard_name n)) parse_u64 = Some n"
proof -
  let ?d = "pad_zeros 6 (show_nat (unat n))"
  have "all_digits ?d" by (intro pad_zeros_digits show_nat_digits)
  moreover have "read_digits ?d < 2 ^ 64" using unsigned_less [of n] by simp
  ultimately have "parse_u64 ?d = Some n" by (simp add: parse_digits)
  then show ?thesis using strip_prefix_append [of "''tap_''" ?d] by (simp add: shard_name_def)
qed

lemma shard_name_inj: "shard_name m = shard_name n \<Longrightarrow> m = n"
  by (metis shard_number option.inject)

lemma shard_name_valid [simp]: "is_valid_shard_name (shard_name n)"
proof -
  have "strip_prefix ''tap_'' (shard_name n) = Some (pad_zeros 6 (show_nat (unat n)))"
    unfolding shard_name_def by (rule strip_prefix_append)
  then show ?thesis by (simp add: is_valid_shard_name_def pad_zeros_digits show_nat_digits)
qed

section \<open>A log cut into shards\<close>

type_synonym tap_log = "(u64 \<times> market_event) list"

type_synonym tap_regs = "((instrument \<times> event_kind) \<times> string) list"

definition shard_rows :: "instrument \<times> event_kind \<Rightarrow> tap_log \<Rightarrow> (i64 \<times> tap_row) list" where
  "shard_rows sk L = map (\<lambda>(o', ev). (cast_signed o', tap_row_of ev)) (filter (\<lambda>(_, ev). stream_of ev = Some sk) L)"

definition reg_row :: "(instrument \<times> event_kind) \<times> string \<Rightarrow> string \<times> stream_row" where
  "reg_row reg = (case reg of ((i, k), shard) \<Rightarrow> (registry_id i k, stream_row_of i k shard))"

text \<open>
  \<open>sharded L regs db\<close>: the database holds the log \<open>L\<close>, in append order, cut into one table
  per registered stream.
\<close>

definition sharded :: "tap_log \<Rightarrow> tap_regs \<Rightarrow> tap_db \<Rightarrow> bool" where
  "sharded L regs db \<longleftrightarrow>
     td_streams db = map reg_row regs \<and> distinct (map fst regs) \<and> distinct (map snd regs)
     \<and> (\<forall>(sk, shard) \<in> set regs. is_valid_shard_name shard \<and> map_of (td_tables db) shard = Some (shard_rows sk L))
     \<and> sorted_wrt (<) (map fst L)
     \<and> (\<forall>(_, ev) \<in> set L. \<exists>sk \<in> fst ` set regs. stream_of ev = Some sk)"

lemma sharded_stream:
  "sharded L regs db \<Longrightarrow> (o', ev) \<in> set L \<Longrightarrow> \<exists>sk. stream_of ev = Some sk \<and> sk \<in> fst ` set regs"
  unfolding sharded_def by blast

definition wanted :: "replay_request \<Rightarrow> market_event \<Rightarrow> bool" where
  "wanted rq ev \<longleftrightarrow>
     (case stream_of ev of None \<Rightarrow> False
      | Some sk \<Rightarrow> requested rq sk \<and> rq_from rq \<le> event_ts ev \<and> event_ts ev < rq_to rq)"

lemma load_reg_row [simp]: "is_valid_shard_name (snd reg) \<Longrightarrow> load_shard (reg_row reg) = Some reg"
  by (cases reg) (auto simp: load_shard_def reg_row_def stream_row_of_def instrument_new_def)

lemma decode_tap_row_of: "stream_of ev = Some (i, k) \<Longrightarrow> decode_tap_row i k (tap_row_of ev) = Some ev"
  by (cases ev) (auto simp: decode_tap_row_def)

lemma source_ts_tap_row: "stream_of ev = Some sk \<Longrightarrow> tp_source_ts (tap_row_of ev) = event_ts ev"
  by (cases ev) (auto simp: event_ts_def data_source_ts_def)

text \<open>Loading the registry gives back the shards that were written.\<close>

lemma load_sharded:
  assumes "sharded L regs db"
  shows "List.map_filter load_shard (td_streams db) = regs"
proof -
  have "\<forall>reg \<in> set rs. is_valid_shard_name (snd reg) \<Longrightarrow> List.map_filter load_shard (map reg_row rs) = rs" for rs
    by (induction rs) auto
  moreover have "\<forall>reg \<in> set regs. is_valid_shard_name (snd reg)" using assms by (auto simp: sharded_def)
  ultimately show ?thesis using assms by (simp add: sharded_def)
qed

text \<open>One shard, read in any order.\<close>

lemma decode_rows_mset:
  assumes "mset ys = mset (map (\<lambda>(o', ev). (cast_signed o', tap_row_of ev)) xs)"
    and "\<forall>(_, ev) \<in> set xs. stream_of ev = Some (i, k)"
  shows "\<exists>evs. decode_tap_rows bad i k ys = Inr evs \<and> mset evs = mset xs"
proof -
  let ?h = "\<lambda>(o', r). (cast_unsigned o', the (decode_tap_row i k r))"
  have "\<forall>y \<in> set ys. decode_tap_row i k (snd y) \<noteq> None"
    using mset_eq_setD [OF assms(1)] assms(2) by (auto simp: decode_tap_row_of)
  then have decoded: "decode_tap_rows bad i k ys = Inr (map ?h ys)" by (induction ys) auto
  have "mset (map ?h ys) = image_mset ?h (mset (map (\<lambda>(o', ev). (cast_signed o', tap_row_of ev)) xs))"
    by (simp only: mset_map assms(1))
  also have "\<dots> = mset (map (\<lambda>x. ?h (case x of (o', ev) \<Rightarrow> (cast_signed o', tap_row_of ev))) xs)"
    by (simp add: image_mset.compositionality comp_def)
  also have "\<dots> = mset xs"
    using assms(2) by (intro arg_cong [of _ _ mset] map_idI) (auto simp: decode_tap_row_of)
  finally show ?thesis using decoded by blast
qed

definition in_window :: "i64 \<Rightarrow> i64 \<Rightarrow> market_event \<Rightarrow> bool" where
  "in_window f t ev \<longleftrightarrow> f \<le> event_ts ev \<and> event_ts ev < t"

lemma collect_one:
  assumes "sharded L regs db" "((i, k), shard) \<in> set regs"
  shows "\<exists>rows evs. select_shard db shard f t = Inr rows \<and> decode_tap_rows bad i k rows = Inr evs
    \<and> mset evs = mset (filter (\<lambda>(_, ev). stream_of ev = Some (i, k) \<and> in_window f t ev) L)"
proof -
  let ?xs = "filter (\<lambda>(_, ev). stream_of ev = Some (i, k) \<and> in_window f t ev) L"
  let ?enc = "\<lambda>(o', ev). (cast_signed o', tap_row_of ev)"
  have tbl: "map_of (td_tables db) shard = Some (shard_rows (i, k) L)" using assms by (auto simp: sharded_def)
  have "filter (\<lambda>(_, r). f \<le> tp_source_ts r \<and> tp_source_ts r < t) (shard_rows (i, k) L) = map ?enc ?xs"
    by (induction L) (auto simp: shard_rows_def source_ts_tap_row in_window_def)
  then have "select_shard db shard f t = Inr (sort_key fst (map ?enc ?xs))"
    by (simp add: select_shard_def tbl)
  moreover have "\<exists>evs. decode_tap_rows bad i k (sort_key fst (map ?enc ?xs)) = Inr evs \<and> mset evs = mset ?xs"
    by (rule decode_rows_mset) auto
  ultimately show ?thesis by blast
qed

lemma filter_disjoint_mset:
  "(\<And>x. x \<in> set xs \<Longrightarrow> \<not> (P x \<and> Q x)) \<Longrightarrow>
   mset (filter P xs) + mset (filter Q xs) = mset (filter (\<lambda>x. P x \<or> Q x) xs)"
  by (induction xs) auto

lemma collect_sharded:
  assumes "sharded L regs db" "set rs \<subseteq> set regs" "distinct (map fst rs)"
  shows "\<exists>evs. collect_shards bad db f t rs = Inr evs
    \<and> mset evs = mset (filter (\<lambda>(_, ev). (\<exists>sk \<in> fst ` set rs. stream_of ev = Some sk) \<and> in_window f t ev) L)"
  using assms(2,3)
proof (induction rs)
  case (Cons reg rs)
  obtain i k shard where reg: "reg = ((i, k), shard)" by (metis surj_pair)
  obtain rows evs where one: "select_shard db shard f t = Inr rows" "decode_tap_rows bad i k rows = Inr evs"
    "mset evs = mset (filter (\<lambda>(_, ev). stream_of ev = Some (i, k) \<and> in_window f t ev) L)"
    using collect_one [OF assms(1), of i k shard f t bad] Cons.prems(1) reg by auto
  obtain rest where rest: "collect_shards bad db f t rs = Inr rest"
    "mset rest = mset (filter (\<lambda>(_, ev). (\<exists>sk \<in> fst ` set rs. stream_of ev = Some sk) \<and> in_window f t ev) L)"
    using Cons by auto
  have "collect_shards bad db f t (reg # rs) = Inr (evs @ rest)" using one rest reg by simp
  moreover have "mset (evs @ rest) =
      mset (filter (\<lambda>(_, ev). (\<exists>sk \<in> fst ` set (reg # rs). stream_of ev = Some sk) \<and> in_window f t ev) L)"
  proof -
    let ?P = "\<lambda>x. stream_of (snd x) = Some (i, k) \<and> in_window f t (snd x)"
    let ?Q = "\<lambda>x. (\<exists>sk \<in> fst ` set rs. stream_of (snd x) = Some sk) \<and> in_window f t (snd x)"
    have "(i, k) \<notin> fst ` set rs" using Cons.prems(2) reg by simp
    then have "\<not> (?P x \<and> ?Q x)" for x by auto
    then have "mset (filter ?P L) + mset (filter ?Q L) = mset (filter (\<lambda>x. ?P x \<or> ?Q x) L)"
      by (intro filter_disjoint_mset) blast
    then have "mset (evs @ rest) = mset (filter (\<lambda>x. ?P x \<or> ?Q x) L)"
      using one(3) rest(2) by (simp only: mset_append split_def)
    also have "filter (\<lambda>x. ?P x \<or> ?Q x) L =
        filter (\<lambda>(_, ev). (\<exists>sk \<in> fst ` set (reg # rs). stream_of ev = Some sk) \<and> in_window f t ev) L"
      by (rule filter_cong [OF refl]) (simp add: reg split_def conj_disj_distribR)
    finally show ?thesis .
  qed
  ultimately show ?case by blast
qed simp

text \<open>Replay of a sharded log: the wanted events, in append order.\<close>

lemma replay_sharded:
  assumes "sharded L regs db"
  shows "tap_replay bad db rq = Inr (filter (wanted rq) (map snd L))"
proof (cases "rq_from rq < rq_to rq")
  case True
  let ?rs = "filter (requested rq \<circ> fst) regs"
  let ?M = "filter (\<lambda>(_, ev). wanted rq ev) L"
  have "distinct (map fst ?rs)" using assms by (auto simp: sharded_def distinct_map_filter)
  then obtain evs where evs: "collect_shards bad db (rq_from rq) (rq_to rq) ?rs = Inr evs"
    "mset evs = mset (filter (\<lambda>(_, ev). (\<exists>sk \<in> fst ` set ?rs. stream_of ev = Some sk) \<and> in_window (rq_from rq) (rq_to rq) ev) L)"
    using collect_sharded [OF assms, of ?rs bad "rq_from rq" "rq_to rq"] by auto
  have "filter (\<lambda>(_, ev). (\<exists>sk \<in> fst ` set ?rs. stream_of ev = Some sk) \<and> in_window (rq_from rq) (rq_to rq) ev) L = ?M"
  proof (rule filter_cong [OF refl])
    fix x
    assume "x \<in> set L"
    then obtain sk where "stream_of (snd x) = Some sk" "sk \<in> fst ` set regs"
      using sharded_stream [OF assms, of "fst x" "snd x"] by auto
    then show "(case x of (_, ev) \<Rightarrow> (\<exists>sk \<in> fst ` set ?rs. stream_of ev = Some sk) \<and> in_window (rq_from rq) (rq_to rq) ev)
        = (case x of (_, ev) \<Rightarrow> wanted rq ev)"
      by (cases x) (auto simp: wanted_def in_window_def)
  qed
  then have mset: "mset evs = mset ?M" using evs by simp
  have sorted: "sorted_wrt (<) (map fst ?M)"
    using assms by (auto simp: sharded_def sorted_wrt_map intro: sorted_wrt_filter)
  then have "inj_on fst (set ?M)" by (metis distinct_map strict_sorted_iff)
  then have "inj_on fst (set evs)" using mset by (metis mset_eq_setD)
  then have "sort_key fst evs = ?M"
    using mset sorted by (intro sort_key_inj_key_eq) (simp_all add: strict_sorted_iff)
  moreover have "map snd ?M = filter (wanted rq) (map snd L)" by (simp add: filter_map comp_def split_def)
  ultimately show ?thesis
    using True evs(1) by (simp add: tap_replay_def load_sharded [OF assms])
next
  case False
  then have "\<not> wanted rq ev" for ev by (auto simp: wanted_def split: option.splits)
  then show ?thesis using False by (simp add: tap_replay_def)
qed

section \<open>The writer keeps the log sharded\<close>

definition ords_below :: "nat \<Rightarrow> tap_log \<Rightarrow> bool" where
  "ords_below n L \<longleftrightarrow> (\<forall>x \<in> set L. unat (fst x) < n)"

definition names_below :: "nat \<Rightarrow> tap_db \<Rightarrow> bool" where
  "names_below n db \<longleftrightarrow> (\<forall>name \<in> fst ` set (td_tables db). \<exists>m. name = shard_name m \<and> unat m < n)"

definition meta_ok :: "nat \<Rightarrow> tap_log \<Rightarrow> tap_db \<Rightarrow> bool" where
  "meta_ok B D db \<longleftrightarrow>
     (case td_meta db of
        None \<Rightarrow> D = []
      | Some (s, m) \<Rightarrow> ords_below (unat (cast_unsigned m)) D
          \<and> unat (cast_unsigned s) \<le> B \<and> unat (cast_unsigned m) \<le> B)"

text \<open>
  \<open>B\<close> bounds both counters; \<open>L\<close> is the log the writer sees, \<open>D\<close> the one on disk.
\<close>

definition writer_inv :: "tap_regs \<Rightarrow> nat \<Rightarrow> tap_writer \<Rightarrow> tap_log \<Rightarrow> tap_log \<Rightarrow> bool" where
  "writer_inv regs B w L D \<longleftrightarrow>
     sharded L regs (tw_work w) \<and> sharded D regs (tw_disk w) \<and> map_of (tw_shards w) = map_of regs
     \<and> (\<exists>P. L = D @ P) \<and> (\<not> tw_tx_open w \<longrightarrow> tw_work w = tw_disk w \<and> L = D)
     \<and> ords_below (unat (tw_next_ord w)) L \<and> meta_ok B D (tw_disk w)
     \<and> names_below (unat (tw_next_shard w)) (tw_work w) \<and> names_below (unat (tw_next_shard w)) (tw_disk w)
     \<and> unat (tw_next_shard w) \<le> B \<and> unat (tw_next_ord w) \<le> B"

lemma writer_inv_fields [simp]:
  "writer_inv regs B (w\<lparr> tw_faults := fs \<rparr>) L D = writer_inv regs B w L D"
  "writer_inv regs B (w\<lparr> tw_last_error := e \<rparr>) L D = writer_inv regs B w L D"
  by (simp_all add: writer_inv_def)

lemma exec_cases:
  assumes "exec stmt w = (r, w')"
  obtains (Failed) e where "r = Inl e" "w' = w\<lparr> tw_faults := tl (tw_faults w) \<rparr>" "stmt (tw_work w) = Inl e \<or> tw_faults w \<noteq> []"
  | (Done) db where "r = Inr ()" "stmt (tw_work w) = Inr db"
      "w' = w\<lparr> tw_faults := tl (tw_faults w), tw_work := db, tw_disk := (if tw_tx_open w then tw_disk w else db) \<rparr>"
  using assms that
  by (cases "tw_faults w"; cases "hd (tw_faults w)"; cases "stmt (tw_work w)") (auto simp: exec_def Let_def)

lemma update_absent: "k \<notin> fst ` set xs \<Longrightarrow> AList.update k v xs = xs @ [(k, v)]"
  by (induction xs) auto

lemma sharded_tables:
  "sharded L regs db \<Longrightarrow> (sk, shard) \<in> set regs \<Longrightarrow> map_of (td_tables db) shard = Some (shard_rows sk L)"
  unfolding sharded_def by blast

lemma distinct_snd_unique:
  assumes "distinct (map snd xs)" "(a, s) \<in> set xs" "(b, s) \<in> set xs"
  shows "a = b"
proof -
  have "(a, s) = (b, s)" using assms by (intro inj_onD [of snd "set xs"]) (simp_all add: distinct_map)
  then show ?thesis by simp
qed

lemma sharded_meta [simp]: "sharded L regs (db\<lparr> td_meta := m \<rparr>) = sharded L regs db"
  by (simp add: sharded_def)

lemma insert_sharded:
  assumes "sharded L regs db" "stream_of ev = Some sk" "(sk, shard) \<in> set regs" "ords_below (unat o') L"
  shows "\<exists>db'. insert_row shard (cast_signed o') (tap_row_of ev) db = Inr db' \<and> sharded (L @ [(o', ev)]) regs db'
    \<and> fst ` set (td_tables db') = fst ` set (td_tables db) \<and> td_meta db' = td_meta db"
proof -
  let ?rows = "shard_rows sk L"
  let ?db = "db\<lparr> td_tables := AList.update shard (?rows @ [(cast_signed o', tap_row_of ev)]) (td_tables db) \<rparr>"
  have tbl: "map_of (td_tables db) shard = Some ?rows" by (rule sharded_tables [OF assms(1,3)])
  have "cast_signed o' \<notin> fst ` set ?rows"
  proof
    assume "cast_signed o' \<in> fst ` set ?rows"
    then obtain p ev' where "(p, ev') \<in> set L" "cast_signed p = cast_signed o'" by (auto simp: shard_rows_def)
    then show False using assms(4) cast_signed_inj by (fastforce simp: ords_below_def)
  qed
  then have ins: "insert_row shard (cast_signed o') (tap_row_of ev) db = Inr ?db" by (simp add: insert_row_def tbl)
  have names: "fst ` set (td_tables ?db) = fst ` set (td_tables db)"
    using map_of_SomeD [OF tbl] by (force simp: dom_update)
  have rows: "map_of (td_tables ?db) sh = Some (shard_rows sk' (L @ [(o', ev)]))" if "(sk', sh) \<in> set regs" for sk' sh
  proof (cases "sk' = sk")
    case True
    then have "sh = shard" using that assms(1,3) by (auto simp: sharded_def dest: eq_key_imp_eq_value)
    then show ?thesis using True assms(2) by (simp add: update_conv' shard_rows_def)
  next
    case False
    then have "sh \<noteq> shard"
      using that assms(1,3) distinct_snd_unique unfolding sharded_def by metis
    then show ?thesis using False that assms(1,2) by (simp add: update_conv' shard_rows_def sharded_tables)
  qed
  have "sorted_wrt (<) (map fst (L @ [(o', ev)]))"
    using assms(1,4) by (auto simp: sharded_def sorted_wrt_append ords_below_def word_less_nat_alt)
  moreover have "\<exists>sk \<in> fst ` set regs. stream_of e = Some sk" if "(p, e) \<in> set (L @ [(o', ev)])" for p e
    using that sharded_stream [OF assms(1)] assms(2,3) by force
  ultimately have "sharded (L @ [(o', ev)]) regs ?db"
    using assms(1) rows by (auto simp: sharded_def)
  then show ?thesis using ins names by auto
qed

lemma register_sharded:
  assumes "sharded L regs db" "(i, k) \<notin> fst ` set regs" "names_below (unat n) db"
  shows "sharded L (regs @ [((i, k), shard_name n)])
    (db\<lparr> td_tables := td_tables db @ [(shard_name n, [])],
        td_streams := AList.update (registry_id i k) (stream_row_of i k (shard_name n)) (td_streams db) \<rparr>)"
proof -
  have fresh: "shard_name n \<notin> fst ` set (td_tables db)"
  proof
    assume "shard_name n \<in> fst ` set (td_tables db)"
    then obtain m where "shard_name n = shard_name m" "unat m < unat n" using assms(3) unfolding names_below_def by blast
    then show False using shard_name_inj by blast
  qed
  then have no_table: "map_of (td_tables db) (shard_name n) = None" by (simp add: map_of_eq_None_iff)
  then have "shard_name n \<notin> snd ` set regs" using sharded_tables [OF assms(1)] by force
  moreover have "shard_rows (i, k) L = []"
    using sharded_stream [OF assms(1)] assms(2) by (force simp: shard_rows_def filter_empty_conv)
  moreover have "registry_id i k \<notin> fst ` set (td_streams db)"
    using assms(1,2) by (force simp: sharded_def reg_row_def registry_id_eq)
  ultimately show ?thesis
    using assms(1,2) no_table
    by (auto simp: sharded_def update_absent reg_row_def map_add_def split: option.splits prod.splits)
qed

lemma names_below_mono: "names_below m db \<Longrightarrow> m \<le> n \<Longrightarrow> names_below n db"
  unfolding names_below_def by (meson less_le_trans)

lemma meta_ok_mono: "meta_ok A D db \<Longrightarrow> A \<le> B \<Longrightarrow> meta_ok B D db"
  by (auto simp: meta_ok_def split: option.splits)

lemma writer_inv_mono: "writer_inv regs A w L D \<Longrightarrow> A \<le> B \<Longrightarrow> writer_inv regs B w L D"
  by (auto simp: writer_inv_def intro: meta_ok_mono order_trans)

lemma ords_below_prefix: "ords_below n (D @ P) \<Longrightarrow> ords_below n D"
  by (simp add: ords_below_def)

text \<open>Commit: the log the writer sees becomes durable, or the disk's is seen again.\<close>

lemma commit_keeps:
  assumes inv: "writer_inv regs B w L D" and res: "commit_if_open w = (r, w')"
  shows "\<not> tw_tx_open w' \<and> tw_last_error w' = tw_last_error w
    \<and> tw_next_shard w' = tw_next_shard w \<and> tw_next_ord w' = tw_next_ord w \<and> tw_shards w' = tw_shards w
    \<and> (case r of Inr _ \<Rightarrow> writer_inv regs B w' L L | Inl _ \<Rightarrow> writer_inv regs B w' D D)"
proof (cases "tw_tx_open w")
  case False
  then show ?thesis using inv res by (auto simp: commit_if_open_def writer_inv_def)
next
  case True
  let ?undo = "\<lambda>v. v\<lparr> tw_work := tw_disk v, tw_tx_open := False \<rparr>"
  have ob: "ords_below (unat (tw_next_ord w)) D" using inv ords_below_prefix by (auto simp: writer_inv_def)
  have undo: "writer_inv regs B (?undo v) D D"
    if "tw_disk v = tw_disk w" "tw_next_shard v = tw_next_shard w" "tw_next_ord v = tw_next_ord w" "tw_shards v = tw_shards w" for v
    using that inv ob by (auto simp: writer_inv_def)
  obtain r1 w1 where e1: "exec (set_meta (tw_next_shard w) (tw_next_ord w)) w = (r1, w1)" by fastforce
  from e1 show ?thesis
  proof (cases rule: exec_cases)
    case (Failed e)
    then show ?thesis using True res e1 undo [of w1] by (auto simp: commit_if_open_def)
  next
    case (Done db)
    then have db: "db = (tw_work w)\<lparr> td_meta := Some (cast_signed (tw_next_shard w), cast_signed (tw_next_ord w)) \<rparr>"
      by (simp add: set_meta_def)
    obtain r2 w2 where e2: "exec Inr w1 = (r2, w2)" by fastforce
    from e2 show ?thesis
    proof (cases rule: exec_cases)
      case (Failed e)
      then show ?thesis using True res e1 e2 Done undo [of w2] by (auto simp: commit_if_open_def)
    next
      case Done2: (Done db2)
      have w': "r = Inr ()" "w' = w2\<lparr> tw_disk := tw_work w2, tw_tx_open := False \<rparr>"
        using True res e1 e2 Done(1) Done2(1) by (simp_all add: commit_if_open_def)
      have "tw_work w2 = db" "tw_next_shard w2 = tw_next_shard w" "tw_next_ord w2 = tw_next_ord w"
        "tw_shards w2 = tw_shards w" "tw_last_error w2 = tw_last_error w" "tw_tx_open w2"
        using Done Done2 True by simp_all
      then show ?thesis
        using w' inv by (simp add: writer_inv_def db meta_ok_def names_below_def)
    qed
  qed
qed

text \<open>
  Allocating a shard: the open batch is committed first; the new, empty table changes
  neither log.
\<close>

lemma create_keeps:
  assumes inv: "writer_inv regs B w L L" and closed: "\<not> tw_tx_open w" and room: "Suc B < 2 ^ 64"
    and new: "(i, k) \<notin> fst ` set regs"
    and w2: "w2 = w\<lparr> tw_next_shard := tw_next_shard w + 1 \<rparr>"
    and c: "exec (create_table (shard_name (tw_next_shard w))) w2 = (r3, w3)"
    and s: "r3 = Inr () \<Longrightarrow> exec (register_stream i k (shard_name (tw_next_shard w))) w3 = (r4, w4)"
  shows "writer_inv regs (Suc B) w3 L L \<and> (r3 = Inr () \<longrightarrow>
     (case r4 of Inl _ \<Rightarrow> writer_inv regs (Suc B) w4 L L
      | Inr _ \<Rightarrow> writer_inv (regs @ [((i, k), shard_name (tw_next_shard w))]) (Suc B)
          (w4\<lparr> tw_shards := AList.update (i, k) (shard_name (tw_next_shard w)) (tw_shards w4) \<rparr>) L L))"
proof -
  let ?n = "tw_next_shard w" and ?db = "tw_work w"
  let ?db3 = "?db\<lparr> td_tables := td_tables ?db @ [(shard_name ?n, [])] \<rparr>"
  have n1: "unat (?n + 1) = Suc (unat ?n)" and nB: "unat ?n \<le> B"
    using inv room by (auto simp: writer_inv_def unat_word_ariths)
  have names: "names_below (unat ?n) ?db" using inv by (simp add: writer_inv_def)
  then have fresh: "shard_name ?n \<notin> fst ` set (td_tables ?db)"
    unfolding names_below_def using shard_name_inj by blast
  have names': "names_below (Suc (unat ?n)) db" if "fst ` set (td_tables db) = insert (shard_name ?n) (fst ` set (td_tables ?db))" for db
    using names_below_mono [OF names, of "Suc (unat ?n)"] that unfolding names_below_def by auto
  have inv2: "writer_inv regs (Suc B) w2 L L"
    using inv n1 nB names_below_mono [OF names, of "Suc (unat ?n)"] meta_ok_mono [of B L "tw_disk w" "Suc B"] closed
    by (auto simp: writer_inv_def w2)
  have sh3: "sharded L regs ?db3"
    using inv fresh by (auto simp: writer_inv_def sharded_def map_add_def split: option.splits)
  from c show ?thesis
  proof (cases rule: exec_cases)
    case (Failed e)
    then show ?thesis using inv2 by simp
  next
    case (Done db)
    have w3: "tw_work w3 = ?db3" "tw_disk w3 = ?db3" "tw_next_shard w3 = ?n + 1" "tw_next_ord w3 = tw_next_ord w"
      "tw_shards w3 = tw_shards w" "\<not> tw_tx_open w3"
      using Done closed fresh by (auto simp: create_table_def w2)
    have "meta_ok (Suc B) L ?db"
      using inv closed meta_ok_mono [of B L "tw_disk w" "Suc B"] by (auto simp: writer_inv_def)
    then have meta3: "meta_ok (Suc B) L ?db3" by (simp add: meta_ok_def)
    have inv3: "writer_inv regs (Suc B) w3 L L"
      using inv sh3 n1 nB meta3 names' [of ?db3] by (auto simp: writer_inv_def w3)
    obtain r4' w4' where e4: "exec (register_stream i k (shard_name ?n)) w3 = (r4', w4')" by fastforce
    then have eq: "r4' = r4" "w4' = w4" using s Done(1) by simp_all
    from e4 show ?thesis
    proof (cases rule: exec_cases)
      case (Failed e)
      then show ?thesis using inv3 eq by simp
    next
      case Reg: (Done db4)
      let ?db4 = "?db3\<lparr> td_streams := AList.update (registry_id i k) (stream_row_of i k (shard_name ?n)) (td_streams ?db) \<rparr>"
      have w4: "tw_work w4 = ?db4" "tw_disk w4 = ?db4" "tw_next_shard w4 = ?n + 1" "tw_next_ord w4 = tw_next_ord w"
        "tw_shards w4 = tw_shards w" "\<not> tw_tx_open w4"
        using Reg w3 eq by (auto simp: register_stream_def)
      have "sharded L (regs @ [((i, k), shard_name ?n)]) ?db4"
        using register_sharded [OF _ new names, of L] inv by (simp add: writer_inv_def)
      moreover have "map_of (AList.update (i, k) (shard_name ?n) (tw_shards w)) = map_of (regs @ [((i, k), shard_name ?n)])"
      proof -
        have "map_of regs (i, k) = None" using new by (simp add: map_of_eq_None_iff)
        moreover have "map_of (tw_shards w) = map_of regs" using inv by (simp add: writer_inv_def)
        ultimately show ?thesis by (auto simp: update_conv' map_add_def fun_eq_iff split: option.splits)
      qed
      moreover have "meta_ok (Suc B) L ?db4" using meta3 by (simp add: meta_ok_def)
      ultimately have "writer_inv (regs @ [((i, k), shard_name ?n)]) (Suc B)
          (w4\<lparr> tw_shards := AList.update (i, k) (shard_name ?n) (tw_shards w4) \<rparr>) L L"
        using inv n1 nB names' [of ?db4] by (auto simp: writer_inv_def w4)
      then show ?thesis using Reg inv3 eq by simp
    qed
  qed
qed


lemma ensure_keeps:
  assumes inv: "writer_inv regs B w L D" and room: "Suc B < 2 ^ 64" and res: "ensure_shard i k w = (r, w')"
  shows "tw_last_error w' = tw_last_error w \<and>
    (case r of
       Inr _ \<Rightarrow> \<exists>regs' D'. writer_inv regs' (Suc B) w' L D' \<and> (i, k) \<in> fst ` set regs' \<and> (D' = D \<or> D' = L)
         \<and> tw_next_ord w' = tw_next_ord w
     | Inl _ \<Rightarrow> \<exists>regs' L'. writer_inv regs' (Suc B) w' L' L' \<and> (L' = L \<or> L' = D))"
proof (cases "map_of (tw_shards w) (i, k)")
  case (Some shard)
  then have "map_of regs (i, k) = Some shard" using inv by (simp add: writer_inv_def)
  then have "(i, k) \<in> fst ` set regs" by (force dest: map_of_SomeD)
  moreover have "r = Inr ()" "w' = w" using Some res by (simp_all add: ensure_shard_def)
  moreover have "writer_inv regs (Suc B) w L D" by (rule writer_inv_mono [OF inv]) simp
  ultimately show ?thesis by (simp only: sum.case) blast
next
  case None
  then have "map_of regs (i, k) = None" using inv by (simp add: writer_inv_def)
  then have new: "(i, k) \<notin> fst ` set regs" by (simp add: map_of_eq_None_iff)
  have known: "asset_class_tag (i_asset_class i) \<noteq> ''unknown''" by (cases "i_asset_class i") simp_all
  obtain r1 w1 where cm: "commit_if_open w = (r1, w1)" by fastforce
  note keeps = commit_keeps [OF inv cm]
  show ?thesis
  proof (cases r1)
    case (Inl e)
    then have "writer_inv regs (Suc B) w1 D D" using keeps writer_inv_mono [of regs B w1 D D "Suc B"] by simp
    moreover have "r = Inl e" "w' = w1" using Inl None known cm res by (simp_all add: ensure_shard_def)
    ultimately show ?thesis using keeps by (simp only: sum.case) blast
  next
    case (Inr u)
    let ?name = "shard_name (tw_next_shard w1)"
    have inv1: "writer_inv regs B w1 L L" and closed: "\<not> tw_tx_open w1" using keeps Inr by simp_all
    obtain r3 w3 where c: "exec (create_table ?name) (w1\<lparr> tw_next_shard := tw_next_shard w1 + 1 \<rparr>) = (r3, w3)" by fastforce
    obtain r4 w4 where s: "exec (register_stream i k ?name) w3 = (r4, w4)" by fastforce
    note created = create_keeps [OF inv1 closed room new refl c s]
    have last3: "tw_last_error w3 = tw_last_error w \<and> tw_next_ord w3 = tw_next_ord w"
      using c keeps by (auto elim: exec_cases)
    have last4: "tw_last_error w4 = tw_last_error w3 \<and> tw_next_ord w4 = tw_next_ord w3"
      using s by (auto elim: exec_cases)
    have "ensure_shard i k w = (case r3 of Inl e \<Rightarrow> (Inl e, w3) | Inr _ \<Rightarrow>
        (case r4 of Inl e \<Rightarrow> (Inl e, w4) | Inr _ \<Rightarrow> (Inr (), w4\<lparr> tw_shards := AList.update (i, k) ?name (tw_shards w4) \<rparr>)))"
      using None known cm Inr c s by (simp add: ensure_shard_def Let_def split: sum.split)
    note result = res [symmetric, unfolded this]
    consider (Create) e where "r3 = Inl e" | (Register) e where "r3 = Inr ()" "r4 = Inl e" | (Ok) "r3 = Inr ()" "r4 = Inr ()"
      by (cases r3; cases r4) auto
    then show ?thesis
    proof cases
      case (Create e)
      then show ?thesis using result created last3 by (simp only: sum.case prod.inject) blast
    next
      case (Register e)
      then show ?thesis using result created last3 last4 by (simp only: sum.case prod.inject) blast
    next
      case Ok
      let ?regs = "regs @ [((i, k), ?name)]"
      have "writer_inv ?regs (Suc B) w' L L" "r = Inr ()" "(i, k) \<in> fst ` set ?regs"
        "tw_last_error w' = tw_last_error w" "tw_next_ord w' = tw_next_ord w"
        using Ok result created last3 last4 by simp_all
      then show ?thesis by (simp only: sum.case) blast
    qed
  qed
qed


lemma begin_keeps:
  assumes inv: "writer_inv regs B w L D" and res: "begin_if_needed w = (r, w')"
  shows "writer_inv regs B w' L D \<and> tw_last_error w' = tw_last_error w \<and> tw_shards w' = tw_shards w
    \<and> tw_next_ord w' = tw_next_ord w \<and> (r = Inr () \<longrightarrow> tw_tx_open w')"
proof (cases "tw_tx_open w")
  case False
  obtain r1 w1 where ex: "exec Inr w = (r1, w1)" by fastforce
  from ex show ?thesis
  proof (cases rule: exec_cases)
    case (Failed e)
    then show ?thesis using inv res ex False by (auto simp: begin_if_needed_def)
  next
    case (Done db)
    have "w' = w\<lparr> tw_faults := tl (tw_faults w), tw_work := tw_work w, tw_disk := tw_work w, tw_tx_open := True \<rparr>"
      using Done res ex False by (simp add: begin_if_needed_def)
    moreover have "tw_work w = tw_disk w" using inv False by (simp add: writer_inv_def)
    ultimately show ?thesis using inv by (simp add: writer_inv_def)
  qed
qed (use assms in \<open>simp add: begin_if_needed_def\<close>)

lemma stream_of_data: "stream_of ev \<noteq> None \<longleftrightarrow> is_data ev"
  by (cases ev) (simp_all add: is_data_def)

text \<open>One event: appended to the log the writer sees, or reported as an error.\<close>

lemma append_keeps:
  assumes inv: "writer_inv regs B w L D" and room: "Suc B < 2 ^ 64" and ev: "stream_of ev = Some (i, k)"
    and mem: "(i, k) \<in> fst ` set regs" and res: "append_event ev i k w = (r, w')"
  shows "tw_last_error w' = tw_last_error w \<and>
    (\<exists>L'. writer_inv regs (Suc B) w' L' D \<and> (case r of Inr _ \<Rightarrow> map snd L' = map snd L @ [ev] | Inl _ \<Rightarrow> L' = L))"
proof -
  let ?o = "tw_next_ord w"
  let ?w2 = "w\<lparr> tw_next_ord := saturating_add_u64 ?o 1 \<rparr>"
  have o1: "unat (saturating_add_u64 ?o 1) = Suc (unat ?o)"
    using inv room by (auto simp: writer_inv_def unat_saturating_add_u64)
  have below: "ords_below (unat ?o) L" using inv by (simp add: writer_inv_def)
  have i2: "writer_inv regs (Suc B) ?w2 L D"
    using writer_inv_mono [OF inv, of "Suc B"] inv by (auto simp: writer_inv_def ords_below_def o1)
  obtain r3 w3 where bg: "begin_if_needed ?w2 = (r3, w3)" by fastforce
  note w3 = begin_keeps [OF i2 bg]
  show ?thesis
  proof (cases r3)
    case (Inl e)
    then have "r = Inl e" "w' = w3" using res bg by (simp_all add: append_event_def Let_def)
    then show ?thesis using w3 by auto
  next
    case (Inr u)
    obtain shard where sh: "map_of regs (i, k) = Some shard" using mem by (metis map_of_eq_None_iff not_None_eq)
    then have "map_of (tw_shards w3) (i, k) = Some shard" using w3 inv by (simp add: writer_inv_def)
    then have ins: "exec (insert_row shard (cast_signed ?o) (tap_row_of ev)) w3 = (r, w')"
      using res bg Inr by (simp add: append_event_def Let_def)
    have "sharded L regs (tw_work w3)" using w3 by (simp add: writer_inv_def)
    from insert_sharded [OF this ev map_of_SomeD [OF sh] below] obtain db' where
      db': "insert_row shard (cast_signed ?o) (tap_row_of ev) (tw_work w3) = Inr db'"
      "sharded (L @ [(?o, ev)]) regs db'" "fst ` set (td_tables db') = fst ` set (td_tables (tw_work w3))" by auto
    from ins show ?thesis
    proof (cases rule: exec_cases)
      case (Failed e)
      then show ?thesis using w3 by auto
    next
      case (Done db)
      then have "writer_inv regs (Suc B) w' (L @ [(?o, ev)]) D"
        using db' w3 Inr below o1 by (auto simp: writer_inv_def names_below_def ords_below_def)
      then show ?thesis using Done w3 by (intro conjI exI [of _ "L @ [(?o, ev)]"]) auto
    qed
  qed
qed

lemma write_keeps:
  assumes inv: "writer_inv regs B w L D" and room: "B + 2 < 2 ^ 64" and res: "write_event ev w = (r, w')"
  shows "tw_last_error w' = tw_last_error w \<and>
    (\<exists>regs' L' D'. writer_inv regs' (B + 2) w' L' D' \<and> (D' = D \<or> D' = L) \<and>
       (case r of Inr _ \<Rightarrow> map snd L' = map snd L @ filter is_data [ev] | Inl _ \<Rightarrow> L' = L \<or> L' = D))"
proof (cases "stream_of ev")
  case None
  moreover have "writer_inv regs (B + 2) w L D" by (rule writer_inv_mono [OF inv]) simp
  moreover have "r = Inr ()" "w' = w" using None res by (simp_all add: write_event_def)
  moreover have "\<not> is_data ev" using None stream_of_data [of ev] by simp
  ultimately show ?thesis by (intro conjI exI [of _ regs] exI [of _ L] exI [of _ D]) simp_all
next
  case (Some sk)
  obtain i k where sk: "sk = (i, k)" by fastforce
  obtain r1 w1 where en: "ensure_shard i k w = (r1, w1)" by fastforce
  have "Suc B < 2 ^ 64" using room by simp
  note ens = ensure_keeps [OF inv this en]
  show ?thesis
  proof (cases r1)
    case (Inl e)
    then obtain regs' L' where "writer_inv regs' (Suc B) w1 L' L'" "L' = L \<or> L' = D" using ens by auto
    moreover from this(1) have "writer_inv regs' (B + 2) w1 L' L'" by (rule writer_inv_mono) simp
    moreover have "r = Inl e" "w' = w1" using res Some sk en Inl by (simp_all add: write_event_def)
    ultimately show ?thesis using ens by auto
  next
    case (Inr u)
    then obtain regs' D' where i1: "writer_inv regs' (Suc B) w1 L D'" and mem: "(i, k) \<in> fst ` set regs'"
      and D': "D' = D \<or> D' = L" using ens by auto
    have "append_event ev i k w1 = (r, w')" using res Some sk en Inr by (simp add: write_event_def)
    from append_keeps [OF i1 _ _ mem this] Some sk room obtain L' where
      "tw_last_error w' = tw_last_error w1" "writer_inv regs' (B + 2) w' L' D'"
      "case r of Inr _ \<Rightarrow> map snd L' = map snd L @ [ev] | Inl _ \<Rightarrow> L' = L" by auto
    moreover have "is_data ev" using Some stream_of_data [of ev] by simp
    ultimately show ?thesis using D' ens by (intro conjI exI [of _ regs'] exI [of _ L'] exI [of _ D']) (auto split: sum.splits)
  qed
qed

section \<open>Runs of the writer\<close>

definition tapped :: "tap_act list \<Rightarrow> market_event list" where
  "tapped acts = filter is_data (concat (map (\<lambda>a. case a of TapEvent ev \<Rightarrow> [ev] | _ \<Rightarrow> []) acts))"

lemma tapped_simps [simp]:
  "tapped [] = []" "tapped (TapEvent ev # acts) = filter is_data [ev] @ tapped acts"
  "tapped (TapFlush # acts) = tapped acts" "tapped (TapDrained # acts) = tapped acts"
  by (simp_all add: tapped_def)

text \<open>
  What a step makes of the two logs: the disk's only grows, by what the writer saw; the
  writer's keeps to the arrivals, and a step that reports nothing has kept them all.
\<close>

definition log_step :: "tap_act list \<Rightarrow> tap_writer \<Rightarrow> tap_writer \<Rightarrow> tap_log \<Rightarrow> tap_log \<Rightarrow> tap_log \<Rightarrow> tap_log \<Rightarrow> bool" where
  "log_step acts w w' L D L' D' \<longleftrightarrow>
     (\<exists>X. D' = D @ X) \<and> subseq (map snd L') (map snd L @ tapped acts)
     \<and> (TapFlush \<notin> set acts \<and> tw_last_error w' = None
          \<longrightarrow> tw_last_error w = None \<and> map snd L' = map snd L @ tapped acts)"

lemma writer_inv_prefix: "writer_inv regs B w L D \<Longrightarrow> \<exists>X. L = D @ X"
  by (simp add: writer_inv_def)

lemma act_keeps:
  assumes inv: "writer_inv regs B w L D" and room: "B + 2 < 2 ^ 64"
  shows "\<exists>regs' L' D'. writer_inv regs' (B + 2) (writer_act act w) L' D' \<and> log_step [act] w (writer_act act w) L D L' D'"
proof -
  obtain X where X: "L = D @ X" using writer_inv_prefix [OF inv] by blast
  obtain r1 w1 where cm: "commit_if_open w = (r1, w1)" by fastforce
  note keeps = commit_keeps [OF inv cm]
  define M where "M = (case r1 of Inr _ \<Rightarrow> L | Inl _ \<Rightarrow> D)"
  have M: "writer_inv regs (B + 2) w1 M M" "M = L \<or> M = D"
    using keeps by (auto simp: M_def split: sum.splits intro: writer_inv_mono)
  then have sub: "(\<exists>Y. M = D @ Y) \<and> subseq (map snd M) (map snd L)" using X by auto
  show ?thesis
  proof (cases act)
    case (TapEvent ev)
    obtain r w' where wr: "write_event ev w = (r, w')" by fastforce
    note kept = write_keeps [OF inv room wr]
    then obtain regs' L' D' where inv': "writer_inv regs' (B + 2) w' L' D'" and D': "D' = D \<or> D' = L"
      and L': "case r of Inr _ \<Rightarrow> map snd L' = map snd L @ filter is_data [ev] | Inl _ \<Rightarrow> L' = L \<or> L' = D"
      by blast
    have "subseq (map snd L') (map snd L @ filter is_data [ev])"
      using L' X by (cases r) (auto intro: subseq_rev_drop_many)
    then have "log_step [act] w (writer_act act w) L D L' D'"
      using TapEvent wr kept L' D' X by (cases r) (auto simp: log_step_def writer_act_def handle_event_def)
    moreover have "writer_inv regs' (B + 2) (writer_act act w) L' D'"
      using TapEvent wr inv' by (cases r) (simp_all add: writer_act_def handle_event_def)
    ultimately show ?thesis by blast
  next
    case TapFlush
    then have "writer_act act w = w1\<lparr> tw_last_error := None \<rparr>" using cm by (simp add: writer_act_def handle_flush_def)
    then show ?thesis
      using M(1) sub TapFlush by (intro exI [of _ regs] exI [of _ M] conjI) (simp_all add: log_step_def)
  next
    case TapDrained
    have act: "writer_act TapDrained w = (case r1 of Inr _ \<Rightarrow> w1 | Inl e \<Rightarrow> w1\<lparr> tw_last_error := Some e \<rparr>)"
      using cm by (simp add: writer_act_def commit_point_def split: sum.splits)
    have "writer_inv regs (B + 2) (writer_act act w) M M" using M(1) TapDrained by (simp add: act split: sum.splits)
    moreover have "log_step [act] w (writer_act act w) L D M M"
      using sub keeps TapDrained by (cases r1) (simp_all add: log_step_def act M_def)
    ultimately show ?thesis by blast
  qed
qed

lemma log_step_trans:
  assumes "log_step as w w' L D L' D'" "log_step bs w' w'' L' D' L'' D''"
  shows "log_step (as @ bs) w w'' L D L'' D''"
proof -
  have split: "tapped (as @ bs) = tapped as @ tapped bs" by (simp add: tapped_def)
  have "subseq (map snd L') (map snd L @ tapped as)" using assms(1) by (simp add: log_step_def)
  then have "subseq (map snd L' @ tapped bs) ((map snd L @ tapped as) @ tapped bs)"
    by (rule list_emb_append_mono) simp
  then have "subseq (map snd L'') (map snd L @ tapped (as @ bs))"
    using assms(2) subseq_order.order_trans by (fastforce simp: log_step_def split)
  then show ?thesis using assms by (auto simp: log_step_def split)
qed

lemma run_keeps:
  "writer_inv regs B w L D \<Longrightarrow> B + 2 * length acts < 2 ^ 64 \<Longrightarrow>
   \<exists>regs' L' D'. writer_inv regs' (B + 2 * length acts) (writer_run acts w) L' D' \<and> log_step acts w (writer_run acts w) L D L' D'"
proof (induction acts arbitrary: regs B w L D)
  case Nil
  then show ?case by (intro exI [of _ regs] exI [of _ L] exI [of _ D]) (simp add: writer_run_def log_step_def)
next
  case (Cons act acts)
  have "B + 2 < 2 ^ 64" using Cons.prems(2) by simp
  from act_keeps [OF Cons.prems(1) this, of act] obtain regs1 L1 D1 where
    inv1: "writer_inv regs1 (B + 2) (writer_act act w) L1 D1" and st1: "log_step [act] w (writer_act act w) L D L1 D1" by blast
  have run: "writer_run (act # acts) w = writer_run acts (writer_act act w)" by (simp add: writer_run_def)
  have "B + 2 + 2 * length acts < 2 ^ 64" using Cons.prems(2) by simp
  from Cons.IH [OF inv1 this] obtain regs2 L2 D2 where
    inv2: "writer_inv regs2 (B + 2 + 2 * length acts) (writer_run acts (writer_act act w)) L2 D2"
    and st2: "log_step acts (writer_act act w) (writer_run acts (writer_act act w)) L1 D1 L2 D2" by blast
  have "B + 2 + 2 * length acts = B + 2 * length (act # acts)" by simp
  then show ?case using inv2 log_step_trans [OF st1 st2] run by (metis append_Cons append_Nil)
qed

section \<open>Opening what a crash left\<close>

definition disk_ok :: "nat \<Rightarrow> tap_log \<Rightarrow> tap_db \<Rightarrow> bool" where
  "disk_ok B D db \<longleftrightarrow> (\<exists>regs. sharded D regs db) \<and> meta_ok B D db \<and> names_below B db"

lemma writer_disk_ok: "writer_inv regs B w L D \<Longrightarrow> disk_ok B D (tw_disk w)"
  unfolding writer_inv_def disk_ok_def using names_below_mono by blast

lemma tap_empty_ok: "disk_ok 0 [] tap_empty"
  by (auto simp: disk_ok_def tap_empty_def sharded_def meta_ok_def names_below_def)

lemma map_of_fold_updates:
  "map_of (fold (\<lambda>(k, v). AList.update k v) xs m) k =
     (case map_of (rev xs) k of Some v \<Rightarrow> Some v | None \<Rightarrow> map_of m k)"
  by (induction xs arbitrary: m) (auto simp: update_conv' map_add_def split: option.splits)

lemma recompute_spec:
  assumes "names_below B db" "B < 2 ^ 64" "unat p \<le> B"
  shows "unat (recompute_next_shard db p) \<le> B \<and> names_below (unat (recompute_next_shard db p)) db"
proof -
  let ?f = "\<lambda>floor (name, _ :: (i64 \<times> tap_row) list).
        case Option.bind (strip_prefix ''tap_'' name) parse_u64 of
          None \<Rightarrow> floor
        | Some n \<Rightarrow> max floor (saturating_add_u64 n 1)"
  have "unat (foldl ?f p ts) \<le> B \<and> unat p \<le> unat (foldl ?f p ts)
      \<and> (\<forall>name \<in> fst ` set ts. \<exists>m. name = shard_name m \<and> unat m < unat (foldl ?f p ts))"
    if "\<forall>name \<in> fst ` set ts. \<exists>m. name = shard_name m \<and> unat m < B" "unat p \<le> B" for ts p
    using that
  proof (induction ts arbitrary: p)
    case (Cons t ts)
    obtain m where m: "fst t = shard_name m" "unat m < B" using Cons.prems(1) by auto
    have sat: "unat (saturating_add_u64 m 1) = Suc (unat m)"
      using m(2) assms(2) by (simp add: unat_saturating_add_u64)
    have step: "?f p t = max p (saturating_add_u64 m 1)" by (cases t) (use m(1) in simp)
    have mx: "unat (max p (saturating_add_u64 m 1)) = max (unat p) (Suc (unat m))"
      by (simp add: max_def word_le_nat_alt sat)
    have IH: "unat (foldl ?f (?f p t) ts) \<le> B \<and> unat (?f p t) \<le> unat (foldl ?f (?f p t) ts)
      \<and> (\<forall>name \<in> fst ` set ts. \<exists>m. name = shard_name m \<and> unat m < unat (foldl ?f (?f p t) ts))"
      using Cons.prems m(2) by (intro Cons.IH) (simp_all add: step mx)
    then have "Suc (unat m) \<le> unat (foldl ?f p (t # ts))" "unat p \<le> unat (foldl ?f p (t # ts))"
      using step mx by simp_all
    then show ?case using IH m(1) by auto
  qed simp
  from this [of "td_tables db" p] show ?thesis
    using assms by (simp add: names_below_def recompute_next_shard_def)
qed

lemma open_keeps:
  assumes ok: "disk_ok B D db" and room: "B < 2 ^ 64"
  shows "\<exists>regs. writer_inv regs B (tap_open faults db) D D"
proof -
  obtain regs where sh: "sharded D regs db" using ok by (auto simp: disk_ok_def)
  have names: "names_below B db" and meta: "meta_ok B D db" using ok by (simp_all add: disk_ok_def)
  define p o' where "p = (case td_meta db of None \<Rightarrow> 0 | Some (s, n) \<Rightarrow> cast_unsigned s)"
    and "o' = (case td_meta db of None \<Rightarrow> 0 | Some (s, n) \<Rightarrow> cast_unsigned n)"
  have "unat p \<le> B" "unat o' \<le> B" "ords_below (unat o') D"
    using meta by (auto simp: p_def o'_def meta_ok_def ords_below_def split: option.splits)
  moreover have "unat (recompute_next_shard db p) \<le> B \<and> names_below (unat (recompute_next_shard db p)) db"
    by (rule recompute_spec [OF names room \<open>unat p \<le> B\<close>])
  moreover have "map_of (fold (\<lambda>(sk, name). AList.update sk name) regs []) = map_of regs"
  proof -
    have "map_of (rev regs) = map_of regs" using sh
      by (subst map_of_inject_set) (simp_all add: sharded_def rev_map [symmetric])
    then show ?thesis by (simp add: fun_eq_iff map_of_fold_updates split: option.splits)
  qed
  moreover have "tap_open faults db = \<lparr> tw_disk = db, tw_work = db, tw_next_shard = recompute_next_shard db p,
      tw_next_ord = o', tw_shards = fold (\<lambda>(sk, name). AList.update sk name) regs [], tw_tx_open = False,
      tw_last_error = None, tw_faults = faults \<rparr>"
    by (simp add: tap_open_def load_sharded [OF sh] p_def o'_def split: option.splits prod.splits)
  ultimately have "writer_inv regs B (tap_open faults db) D D"
    using sh meta by (simp add: writer_inv_def)
  then show ?thesis by blast
qed

text \<open>The life of a log file: opened, written to and abandoned at any point, again and again.\<close>

definition tap_session :: "error option list \<times> tap_act list \<Rightarrow> tap_db \<Rightarrow> tap_db" where
  "tap_session s db = (case s of (faults, acts) \<Rightarrow> tw_disk (writer_run acts (tap_open faults db)))"

definition tap_life :: "(error option list \<times> tap_act list) list \<Rightarrow> tap_db" where
  "tap_life ss = fold tap_session ss tap_empty"

definition life_size :: "(error option list \<times> tap_act list) list \<Rightarrow> nat" where
  "life_size ss = 2 * sum_list (map (length \<circ> snd) ss)"

lemma session_keeps:
  assumes "disk_ok B D db" "B + 2 * length acts < 2 ^ 64"
  shows "\<exists>D'. disk_ok (B + 2 * length acts) D' (tap_session (faults, acts) db)
    \<and> (\<exists>X. D' = D @ X) \<and> subseq (map snd D') (map snd D @ tapped acts)"
proof -
  obtain regs where "writer_inv regs B (tap_open faults db) D D" using open_keeps [OF assms(1)] assms(2) by auto
  from run_keeps [OF this assms(2)] obtain regs' L' D' where
    inv: "writer_inv regs' (B + 2 * length acts) (writer_run acts (tap_open faults db)) L' D'"
    and st: "log_step acts (tap_open faults db) (writer_run acts (tap_open faults db)) D D L' D'" by blast
  obtain P where "L' = D' @ P" using writer_inv_prefix [OF inv] by blast
  then have "subseq (map snd D') (map snd L')" by (auto intro: subseq_rev_drop_many)
  then have "subseq (map snd D') (map snd D @ tapped acts)"
    using st subseq_order.order_trans by (auto simp: log_step_def)
  then show ?thesis using writer_disk_ok [OF inv] st by (auto simp: tap_session_def log_step_def)
qed

lemma life_keeps:
  "life_size ss < 2 ^ 64 \<Longrightarrow>
   \<exists>D. disk_ok (life_size ss) D (tap_life ss) \<and> subseq (map snd D) (tapped (concat (map snd ss)))"
proof (induction ss rule: rev_induct)
  case Nil
  then show ?case using tap_empty_ok by (auto simp: tap_life_def life_size_def)
next
  case (snoc s ss)
  obtain faults acts where s: "s = (faults, acts)" by fastforce
  have size: "life_size (ss @ [s]) = life_size ss + 2 * length acts" by (simp add: life_size_def s)
  obtain D where D: "disk_ok (life_size ss) D (tap_life ss)" "subseq (map snd D) (tapped (concat (map snd ss)))"
    using snoc size by auto
  have "life_size ss + 2 * length acts < 2 ^ 64" using snoc.prems size by simp
  from session_keeps [OF D(1) this, of faults] obtain D' where
    "disk_ok (life_size ss + 2 * length acts) D' (tap_session (faults, acts) (tap_life ss))"
    "subseq (map snd D') (map snd D @ tapped acts)" by blast
  moreover have "tap_life (ss @ [s]) = tap_session (faults, acts) (tap_life ss)" by (simp add: tap_life_def s)
  ultimately have D': "disk_ok (life_size (ss @ [s])) D' (tap_life (ss @ [s]))" "subseq (map snd D') (map snd D @ tapped acts)"
    by (simp_all only: size)
  have "subseq (map snd D @ tapped acts) (tapped (concat (map snd ss)) @ tapped acts)"
    using D(2) by (rule list_emb_append_mono) simp
  then have "subseq (map snd D') (tapped (concat (map snd ss)) @ tapped acts)"
    by (rule subseq_order.order_trans [OF D'(2)])
  moreover have "tapped (concat (map snd (ss @ [s]))) = tapped (concat (map snd ss)) @ tapped acts"
    by (simp add: tapped_def s)
  ultimately show ?case using D'(1) by auto
qed

section \<open>Without faults nothing fails\<close>

lemma exec_clean:
  "tw_faults w = [] \<Longrightarrow> stmt (tw_work w) = Inr db \<Longrightarrow>
   exec stmt w = (Inr (), w\<lparr> tw_work := db, tw_disk := (if tw_tx_open w then tw_disk w else db) \<rparr>)"
  by (simp add: exec_def Let_def)

lemma commit_clean:
  "tw_faults w = [] \<Longrightarrow> \<exists>w'. commit_if_open w = (Inr (), w') \<and> tw_faults w' = []"
  by (simp add: commit_if_open_def exec_clean set_meta_def Let_def)

lemma ensure_clean:
  assumes "tw_faults w = []"
  shows "\<exists>w'. ensure_shard i k w = (Inr (), w') \<and> tw_faults w' = []"
proof -
  obtain w1 where "commit_if_open w = (Inr (), w1)" "tw_faults w1 = []" using commit_clean [OF assms] by blast
  moreover have "asset_class_tag (i_asset_class i) \<noteq> ''unknown''" by (cases "i_asset_class i") simp_all
  ultimately show ?thesis
    using assms by (simp add: ensure_shard_def exec_clean create_table_def register_stream_def Let_def)
qed

lemma begin_clean: "tw_faults w = [] \<Longrightarrow> \<exists>w'. begin_if_needed w = (Inr (), w') \<and> tw_faults w' = [] \<and> tw_work w' = tw_work w"
  by (simp add: begin_if_needed_def exec_clean)

lemma write_clean:
  assumes inv: "writer_inv regs B w L D" and room: "B + 2 < 2 ^ 64" and clean: "tw_faults w = []"
  shows "\<exists>w'. write_event ev w = (Inr (), w') \<and> tw_faults w' = []"
proof (cases "stream_of ev")
  case (Some sk)
  obtain i k where sk: "sk = (i, k)" by fastforce
  obtain w1 where en: "ensure_shard i k w = (Inr (), w1)" "tw_faults w1 = []" using ensure_clean [OF clean] by blast
  have "Suc B < 2 ^ 64" using room by simp
  from ensure_keeps [OF inv this en(1)] obtain regs' D' where
    i1: "writer_inv regs' (Suc B) w1 L D'" and mem: "(i, k) \<in> fst ` set regs'" by auto
  let ?w2 = "w1\<lparr> tw_next_ord := saturating_add_u64 (tw_next_ord w1) 1 \<rparr>"
  obtain w3 where bg: "begin_if_needed ?w2 = (Inr (), w3)" "tw_faults w3 = []" "tw_work w3 = tw_work w1"
    using begin_clean [of ?w2] en(2) by auto
  have "tw_shards w3 = tw_shards w1"
    using bg(1) by (auto simp: begin_if_needed_def split: if_splits prod.splits sum.splits elim: exec_cases)
  moreover obtain shard where sh: "map_of regs' (i, k) = Some shard" using mem by (metis map_of_eq_None_iff not_None_eq)
  ultimately have "map_of (tw_shards w3) (i, k) = Some shard" using i1 by (simp add: writer_inv_def)
  moreover have "\<exists>db. insert_row shard (cast_signed (tw_next_ord w1)) (tap_row_of ev) (tw_work w3) = Inr db"
    using insert_sharded [of L regs' "tw_work w1" ev "(i, k)" shard "tw_next_ord w1"] i1 Some sk map_of_SomeD [OF sh] bg(3)
    by (auto simp: writer_inv_def)
  ultimately show ?thesis
    using Some sk en(1) bg(1,2) by (auto simp: write_event_def append_event_def Let_def exec_clean)
qed (simp add: write_event_def clean)

lemma run_clean:
  "writer_inv regs B w L D \<Longrightarrow> B + 2 * length acts < 2 ^ 64 \<Longrightarrow> tw_faults w = [] \<Longrightarrow> tw_last_error w = None \<Longrightarrow>
   tw_faults (writer_run acts w) = [] \<and> tw_last_error (writer_run acts w) = None"
proof (induction acts arbitrary: regs B w L D)
  case (Cons act acts)
  have room: "B + 2 < 2 ^ 64" "B + 2 + 2 * length acts < 2 ^ 64" using Cons.prems(2) by simp_all
  obtain wc where wc: "commit_if_open w = (Inr (), wc)" "tw_faults wc = []" using commit_clean [OF Cons.prems(3)] by blast
  have lastc: "tw_last_error wc = None" using commit_keeps [OF Cons.prems(1) wc(1)] Cons.prems(4) by simp
  have "tw_faults (writer_act act w) = [] \<and> tw_last_error (writer_act act w) = None"
  proof (cases act)
    case (TapEvent ev)
    obtain w' where w': "write_event ev w = (Inr (), w')" "tw_faults w' = []"
      using write_clean [OF Cons.prems(1) room(1) Cons.prems(3)] by blast
    moreover have "tw_last_error w' = None"
      using write_keeps [OF Cons.prems(1) room(1) w'(1)] Cons.prems(4) by simp
    ultimately show ?thesis using TapEvent by (simp add: writer_act_def handle_event_def)
  qed (use wc lastc in \<open>simp_all add: writer_act_def handle_flush_def commit_point_def\<close>)
  moreover obtain regs' L' D' where "writer_inv regs' (B + 2) (writer_act act w) L' D'"
    using act_keeps [OF Cons.prems(1) room(1), of act] by blast
  ultimately show ?case using Cons.IH [of regs' "B + 2" "writer_act act w" L' D'] room(2) by (simp add: writer_run_def)
qed (simp add: writer_run_def)

section \<open>Correctness of the tap log\<close>

text \<open>C7: A log file survives anything. Opened, written to and abandoned at any point any number
  of times, with any statement failing, it always replays, for every request, the wanted
  events of one fixed log, and that log is a subsequence of the arrivals: nothing invented,
  nothing twice, nothing out of order, across shards and restarts.\<close>

theorem tap_log_survives:
  assumes "life_size ss < 2 ^ 64"
  shows "\<exists>log. subseq log (tapped (concat (map snd ss)))
    \<and> (\<forall>rq. tap_replay bad (tap_life ss) rq = Inr (filter (wanted rq) log))"
proof -
  obtain D where D: "disk_ok (life_size ss) D (tap_life ss)" "subseq (map snd D) (tapped (concat (map snd ss)))"
    using life_keeps [OF assms] by blast
  then obtain regs where "sharded D regs (tap_life ss)" by (auto simp: disk_ok_def)
  then show ?thesis using D(2) replay_sharded by blast
qed

theorem tap_log_survives_witness:
  "\<exists>log. subseq log [demo_trade 1 7, demo_trade 2 8]
    \<and> (\<forall>rq. tap_replay [] (tap_life [([None, Some SessionClosed], [TapEvent (demo_trade 1 7), TapDrained]),
          ([], [TapEvent (demo_trade 2 8), TapFlush])]) rq = Inr (filter (wanted rq) log))"
  using tap_log_survives [of "[([None, Some SessionClosed], [TapEvent (demo_trade 1 7), TapDrained]),
          ([], [TapEvent (demo_trade 2 8), TapFlush])]" "[]"]
  by (simp add: life_size_def demo_trade_facts)

text \<open>C15: What a flush acknowledges is on disk. When a flush reports success, everything
  appended since the log was opened is in the file behind what it held before, in arrival
  order: a crash right after loses none of it.\<close>

theorem flush_durable:
  assumes "life_size ss + 2 * length acts < 2 ^ 64" "TapFlush \<notin> set acts"
    and "handle_flush (writer_run acts (tap_open faults (tap_life ss))) = (Inr (), w')"
  shows "\<exists>log. \<forall>rq. tap_replay bad (tap_life ss) rq = Inr (filter (wanted rq) log)
    \<and> tap_replay bad (tw_disk w') rq = Inr (filter (wanted rq) (log @ tapped acts))"
proof -
  let ?w = "tap_open faults (tap_life ss)"
  obtain D where D: "disk_ok (life_size ss) D (tap_life ss)" using life_keeps [of ss] assms(1) by auto
  obtain regs where inv: "writer_inv regs (life_size ss) ?w D D" using open_keeps [OF D] assms(1) by auto
  obtain regs' L' D' where inv': "writer_inv regs' (life_size ss + 2 * length acts) (writer_run acts ?w) L' D'"
    and st: "log_step acts ?w (writer_run acts ?w) D D L' D'" using run_keeps [OF inv assms(1)] by blast
  obtain r w1 where cm: "commit_if_open (writer_run acts ?w) = (r, w1)" by fastforce
  note keeps = commit_keeps [OF inv' cm]
  have r: "r = Inr ()" "tw_last_error (writer_run acts ?w) = None" "tw_disk w' = tw_disk w1"
    using assms(3) cm keeps by (auto simp: handle_flush_def split: sum.splits option.splits)
  then have "sharded L' regs' (tw_disk w')" using keeps by (simp add: writer_inv_def)
  moreover have "map snd L' = map snd D @ tapped acts" using st assms(2) r(2) by (simp add: log_step_def)
  moreover obtain rs where "sharded D rs (tap_life ss)" using D by (auto simp: disk_ok_def)
  ultimately show ?thesis using replay_sharded [of L' regs' "tw_disk w'" bad] replay_sharded [of D rs "tap_life ss" bad]
    by (intro exI [of _ "map snd D"]) simp
qed

text \<open>Without faults a flush succeeds, and the file replays every data event of its life.\<close>

lemma clean_flush:
  assumes "2 * length acts < 2 ^ 64" "TapFlush \<notin> set acts"
  shows "\<exists>w'. handle_flush (writer_run acts (tap_open [] tap_empty)) = (Inr (), w')
    \<and> (\<forall>rq. tap_replay bad (tw_disk w') rq = Inr (filter (wanted rq) (tapped acts)))"
proof -
  let ?w = "tap_open [] tap_empty"
  obtain regs where inv: "writer_inv regs 0 ?w [] []" using open_keeps [OF tap_empty_ok] by auto
  have "tw_faults ?w = [] \<and> tw_last_error ?w = None" by (simp add: tap_open_def tap_empty_def)
  then have clean: "tw_faults (writer_run acts ?w) = []" "tw_last_error (writer_run acts ?w) = None"
    using run_clean [OF inv, of acts] assms(1) by simp_all
  obtain regs' L' D' where inv': "writer_inv regs' (0 + 2 * length acts) (writer_run acts ?w) L' D'"
    and st: "log_step acts ?w (writer_run acts ?w) [] [] L' D'" using run_keeps [OF inv, of acts] assms(1) by auto
  obtain w1 where cm: "commit_if_open (writer_run acts ?w) = (Inr (), w1)" using commit_clean [OF clean(1)] by blast
  note keeps = commit_keeps [OF inv' cm]
  have "handle_flush (writer_run acts ?w) = (Inr (), w1\<lparr> tw_last_error := None \<rparr>)"
    using cm keeps clean(2) by (simp add: handle_flush_def)
  moreover have "sharded L' regs' (tw_disk w1)" using keeps by (simp add: writer_inv_def)
  moreover have "map snd L' = tapped acts" using st assms(2) clean(2) by (simp add: log_step_def)
  ultimately show ?thesis using replay_sharded [of L' regs' "tw_disk w1" bad] by auto
qed

theorem flush_durable_witness:
  "\<exists>w' log. handle_flush (writer_run [TapEvent (demo_trade 5 7)] (tap_open [] (tap_life []))) = (Inr (), w')
    \<and> (\<forall>rq. tap_replay [] (tw_disk w') rq = Inr (filter (wanted rq) (log @ [demo_trade 5 7])))"
proof -
  obtain regs where inv: "writer_inv regs 0 (tap_open [] tap_empty) [] []" using open_keeps [OF tap_empty_ok] by auto
  let ?w = "writer_run [TapEvent (demo_trade 5 7)] (tap_open [] tap_empty)"
  have "tw_faults ?w = [] \<and> tw_last_error ?w = None"
    using run_clean [OF inv, of "[TapEvent (demo_trade 5 7)]"] by (simp add: tap_open_def tap_empty_def)
  moreover from this obtain w1 where "commit_if_open ?w = (Inr (), w1)" using commit_clean by blast
  moreover from this have "tw_last_error w1 = tw_last_error ?w"
    using run_keeps [OF inv, of "[TapEvent (demo_trade 5 7)]"] commit_keeps by fastforce
  ultimately have "\<exists>w'. handle_flush ?w = (Inr (), w')" by (simp add: handle_flush_def)
  then obtain w' where w': "handle_flush ?w = (Inr (), w')" by blast
  then show ?thesis
    using flush_durable [of "[]" "[TapEvent (demo_trade 5 7)]" "[]" w' "[]"]
    by (auto simp: tap_life_def life_size_def demo_trade_facts)
qed

end
