(* ===== verification/Transport_Codec.thy ===== *)
theory Transport_Codec
  imports Events Decimal "HOL-Library.AList"
begin

text \<open>
  The data plane of the iceoryx2 transport: the symbol table, the flat wire payload and its
  conversions, and the subscriber's hold buffer (\<^verbatim>\<open>symbol_table.rs\<close>, \<^verbatim>\<open>payload.rs\<close> and
  \<^verbatim>\<open>subscriber.rs\<close> of \<^verbatim>\<open>datamancer-transport-iceoryx2\<close>). Strings are byte strings; an assertion
  that fails is \<open>None\<close>.
\<close>

section \<open>UTF-8\<close>

definition byte :: "char \<Rightarrow> nat" where
  "byte c = of_char c"

definition in_range :: "nat \<Rightarrow> nat \<Rightarrow> char \<Rightarrow> bool" where
  "in_range lo hi c \<longleftrightarrow> lo \<le> byte c \<and> byte c \<le> hi"

abbreviation cont :: "char \<Rightarrow> bool" where
  "cont \<equiv> in_range 128 191"

definition ascii :: "char \<Rightarrow> bool" where
  "ascii a \<longleftrightarrow> byte a < 128"

definition two_bytes :: "char \<Rightarrow> char \<Rightarrow> bool" where
  "two_bytes a b \<longleftrightarrow> in_range 194 223 a \<and> cont b"

definition three_bytes :: "char \<Rightarrow> char \<Rightarrow> char \<Rightarrow> bool" where
  "three_bytes a b c \<longleftrightarrow>
     in_range 224 239 a \<and> cont c
     \<and> (if byte a = 224 then in_range 160 191 b else if byte a = 237 then in_range 128 159 b else cont b)"

definition four_bytes :: "char \<Rightarrow> char \<Rightarrow> char \<Rightarrow> char \<Rightarrow> bool" where
  "four_bytes a b c d \<longleftrightarrow>
     in_range 240 244 a \<and> cont c \<and> cont d
     \<and> (if byte a = 240 then in_range 144 191 b else if byte a = 244 then in_range 128 143 b else cont b)"

text \<open>\<^verbatim>\<open>std::str::from_utf8\<close>: one well-formed scalar after another.\<close>

fun utf8_next :: "string \<Rightarrow> string option" where
  "utf8_next (a # b # c # d # s) =
     (if ascii a then Some (b # c # d # s) else if two_bytes a b then Some (c # d # s)
      else if three_bytes a b c then Some (d # s) else if four_bytes a b c d then Some s else None)"
| "utf8_next [a, b, c] =
     (if ascii a then Some [b, c] else if two_bytes a b then Some [c] else if three_bytes a b c then Some [] else None)"
| "utf8_next [a, b] = (if ascii a then Some [b] else if two_bytes a b then Some [] else None)"
| "utf8_next [a] = (if ascii a then Some [] else None)"
| "utf8_next [] = None"

lemma utf8_next_shorter: "utf8_next s = Some r \<Longrightarrow> length r < length s"
  by (cases s rule: utf8_next.cases) (auto split: if_splits)

function valid_utf8 :: "string \<Rightarrow> bool" where
  "valid_utf8 s = (s = [] \<or> (case utf8_next s of None \<Rightarrow> False | Some r \<Rightarrow> valid_utf8 r))"
  by pat_completeness auto
termination
  by (relation "measure length") (auto dest: utf8_next_shorter)

declare valid_utf8.simps [simp del]

section \<open>Symbols\<close>

type_synonym symbol_id = u32

definition CONNECTION :: symbol_id where "CONNECTION = - 1"

definition SYMBOL_STRING_CAPACITY :: nat where "SYMBOL_STRING_CAPACITY = 64"

definition SEP :: char where "SEP = char_of (31 :: nat)"

datatype symbol_decode_error = MalformedTuple | UnknownAssetClass | InvalidUtf8

definition encode_instrument :: "instrument \<Rightarrow> string" where
  "encode_instrument i = i_provider i @ [SEP] @ asset_class_display (i_asset_class i) @ [SEP] @ i_symbol i"

definition parse_asset_class :: "string \<Rightarrow> symbol_decode_error + asset_class" where
  "parse_asset_class s =
     (if s = ''equity'' then Inr Equity
      else if s = ''etf'' then Inr Etf
      else if s = ''crypto'' then Inr Crypto
      else Inl UnknownAssetClass)"

definition decode_instrument :: "string \<Rightarrow> symbol_decode_error + instrument" where
  "decode_instrument bytes =
     (if \<not> valid_utf8 bytes then Inl InvalidUtf8
      else case split_on SEP bytes of
        [p, a, s] \<Rightarrow> (case parse_asset_class a of Inl e \<Rightarrow> Inl e | Inr ac \<Rightarrow> Inr (instrument_new p ac s))
      | _ \<Rightarrow> Inl MalformedTuple)"

record symbol_announcement =
  an_id :: symbol_id
  an_instrument :: string

record symbol_table =
  st_forward :: "(instrument \<times> symbol_id) list"
  st_reverse :: "instrument list"

definition symbol_table_new :: symbol_table where
  "symbol_table_new = \<lparr> st_forward = [], st_reverse = [] \<rparr>"

definition intern :: "instrument \<Rightarrow> symbol_table \<Rightarrow> ((nat + symbol_id) \<times> symbol_table) option" where
  "intern i t =
     (case map_of (st_forward t) i of
        Some s \<Rightarrow> Some (Inr s, t)
      | None \<Rightarrow>
          (let encoded_len = length (encode_instrument i) in
           if encoded_len > SYMBOL_STRING_CAPACITY then Some (Inl encoded_len, t)
           else if length (st_reverse t) \<ge> 2 ^ 32 - 1 then None
           else let s = of_nat (length (st_reverse t)) in
             Some (Inr s, \<lparr> st_forward = AList.update i s (st_forward t), st_reverse = st_reverse t @ [i] \<rparr>)))"

definition announcement :: "symbol_id \<Rightarrow> symbol_table \<Rightarrow> symbol_announcement option" where
  "announcement s t =
     (if unat s < length (st_reverse t)
      then let encoded = encode_instrument (st_reverse t ! unat s) in
        if length encoded \<le> SYMBOL_STRING_CAPACITY then Some \<lparr> an_id = s, an_instrument = encoded \<rparr> else None
      else None)"

definition announcements :: "symbol_table \<Rightarrow> symbol_announcement list" where
  "announcements t =
     List.map_filter (\<lambda>n. if n < 2 ^ 32 then announcement (of_nat n) t else None) [0 ..< length (st_reverse t)]"

type_synonym resolver = "symbol_id \<rightharpoonup> instrument"

definition resolver_apply :: "symbol_announcement \<Rightarrow> resolver \<Rightarrow> (symbol_decode_error + unit) \<times> resolver" where
  "resolver_apply a r =
     (case decode_instrument (an_instrument a) of
        Inl e \<Rightarrow> (Inl e, r)
      | Inr i \<Rightarrow> (Inr (), r(an_id a \<mapsto> i)))"

section \<open>The wire payload\<close>

definition interval_to_tag :: "bar_interval \<Rightarrow> u8" where
  "interval_to_tag b =
     (case b of OneSecond \<Rightarrow> 0 | OneMinute \<Rightarrow> 1 | FiveMinute \<Rightarrow> 2 | FifteenMinute \<Rightarrow> 3 | OneHour \<Rightarrow> 4 | OneDay \<Rightarrow> 5)"

definition tag_to_interval :: "u8 \<Rightarrow> bar_interval option" where
  "tag_to_interval tag =
     (if tag = 0 then Some OneSecond else if tag = 1 then Some OneMinute else if tag = 2 then Some FiveMinute
      else if tag = 3 then Some FifteenMinute else if tag = 4 then Some OneHour else if tag = 5 then Some OneDay
      else None)"

definition event_kind_to_tags :: "event_kind \<Rightarrow> u8 \<times> u8" where
  "event_kind_to_tags k = (case k of KTrade \<Rightarrow> (0, 0) | KQuote \<Rightarrow> (1, 0) | KBar b \<Rightarrow> (2, interval_to_tag b))"

definition tags_to_event_kind :: "u8 \<Rightarrow> u8 \<Rightarrow> event_kind option" where
  "tags_to_event_kind kt it =
     (if kt = 0 then Some KTrade else if kt = 1 then Some KQuote
      else if kt = 2 then map_option KBar (tag_to_interval it) else None)"

record payload =
  p_kind :: u8
  p_control_tag :: u8
  p_interval :: u8
  p_sub_kind :: u8
  p_active :: u8
  p_symbol :: symbol_id
  p_seq :: u64
  p_source_ts :: i64
  p_rx_ts :: i64
  p_a :: i64
  p_b :: i64
  p_c :: i64
  p_d :: i64
  p_size0 :: u64
  p_size1 :: u64

definition blank :: "u8 \<Rightarrow> symbol_id \<Rightarrow> i64 \<Rightarrow> i64 \<Rightarrow> u64 \<Rightarrow> payload" where
  "blank kind s src rx sq =
     \<lparr> p_kind = kind, p_control_tag = 0, p_interval = 0, p_sub_kind = 0, p_active = 0, p_symbol = s, p_seq = sq,
       p_source_ts = src, p_rx_ts = rx, p_a = 0, p_b = 0, p_c = 0, p_d = 0, p_size0 = 0, p_size1 = 0 \<rparr>"

text \<open>Interning first, then the payload; a too long instrument is the error.\<close>

definition with_symbol ::
  "instrument \<Rightarrow> symbol_table \<Rightarrow> (symbol_id \<Rightarrow> payload) \<Rightarrow> ((nat + payload option) \<times> symbol_table) option" where
  "with_symbol i t mk =
     (case intern i t of
        None \<Rightarrow> None
      | Some (Inl n, t') \<Rightarrow> Some (Inl n, t')
      | Some (Inr s, t') \<Rightarrow> Some (Inr (Some (mk s)), t'))"

definition control_to_pod :: "control \<Rightarrow> symbol_table \<Rightarrow> ((nat + payload option) \<times> symbol_table) option" where
  "control_to_pod c t =
     (case c_kind c of
        ProviderConnected _ \<Rightarrow> Some (Inr None, t)
      | ProviderDisconnected _ _ _ \<Rightarrow> Some (Inr None, t)
      | ProviderError _ _ \<Rightarrow> Some (Inr None, t)
      | SessionClosing \<Rightarrow>
          Some (Inr (Some ((blank 3 CONNECTION (c_source_ts c) (c_rx_ts c) (c_seq c))\<lparr> p_control_tag := 2 \<rparr>)), t)
      | Gap _ i sp \<Rightarrow>
          with_symbol i t (\<lambda>s. (blank 3 s (c_source_ts c) (c_rx_ts c) (c_seq c))
            \<lparr> p_control_tag := 0, p_a := from_source_ts sp, p_b := to_source_ts sp \<rparr>)
      | SubscriptionChanged _ i k active \<Rightarrow>
          with_symbol i t (\<lambda>s. (blank 3 s (c_source_ts c) (c_rx_ts c) (c_seq c))
            \<lparr> p_control_tag := 1, p_sub_kind := fst (event_kind_to_tags k), p_interval := snd (event_kind_to_tags k),
              p_active := of_bool active \<rparr>))"

fun to_pod :: "market_event \<Rightarrow> symbol_table \<Rightarrow> ((nat + payload option) \<times> symbol_table) option" where
  "to_pod (Trade x) t =
     with_symbol (t_instrument x) t (\<lambda>s. (blank 0 s (t_source_ts x) (t_rx_ts x) (t_seq x))
       \<lparr> p_a := t_price x, p_size0 := t_size x \<rparr>)"
| "to_pod (Quote x) t =
     with_symbol (q_instrument x) t (\<lambda>s. (blank 1 s (q_source_ts x) (q_rx_ts x) (q_seq x))
       \<lparr> p_a := q_bid x, p_b := q_ask x, p_size0 := q_bid_size x, p_size1 := q_ask_size x \<rparr>)"
| "to_pod (Bar x) t =
     with_symbol (b_instrument x) t (\<lambda>s. (blank 2 s (b_source_ts x) (b_rx_ts x) (b_seq x))
       \<lparr> p_interval := interval_to_tag (b_interval x), p_a := b_open x, p_b := b_high x, p_c := b_low x,
         p_d := b_close x, p_size0 := b_volume x \<rparr>)"
| "to_pod (Control c) t = control_to_pod c t"

datatype from_pod_error = Unresolved symbol_id | BadDiscriminant

definition resolve :: "resolver \<Rightarrow> symbol_id \<Rightarrow> from_pod_error + instrument" where
  "resolve r s = (case r s of None \<Rightarrow> Inl (Unresolved s) | Some i \<Rightarrow> Inr i)"

definition control_from_pod :: "payload \<Rightarrow> resolver \<Rightarrow> from_pod_error + market_event" where
  "control_from_pod p r =
     (let mk = (\<lambda>kind. Control \<lparr> c_source_ts = p_source_ts p, c_rx_ts = p_rx_ts p, c_seq = p_seq p, c_kind = kind \<rparr>) in
      if p_control_tag p = 2 then Inr (mk SessionClosing)
      else if p_control_tag p = 0 then
        (case resolve r (p_symbol p) of
           Inl e \<Rightarrow> Inl e
         | Inr i \<Rightarrow> Inr (mk (Gap (i_provider i) i (gap_span_of (p_a p) (p_b p)))))
      else if p_control_tag p = 1 then
        (case resolve r (p_symbol p) of
           Inl e \<Rightarrow> Inl e
         | Inr i \<Rightarrow>
             (case tags_to_event_kind (p_sub_kind p) (p_interval p) of
                None \<Rightarrow> Inl BadDiscriminant
              | Some k \<Rightarrow> Inr (mk (SubscriptionChanged (i_provider i) i k (p_active p \<noteq> 0)))))
      else Inl BadDiscriminant)"

definition from_pod :: "payload \<Rightarrow> resolver \<Rightarrow> from_pod_error + market_event" where
  "from_pod p r =
     (if p_kind p = 0 then
        (case resolve r (p_symbol p) of
           Inl e \<Rightarrow> Inl e
         | Inr i \<Rightarrow> Inr (Trade \<lparr> t_instrument = i, t_source_ts = p_source_ts p, t_rx_ts = p_rx_ts p, t_seq = p_seq p,
                                t_price = p_a p, t_size = p_size0 p \<rparr>))
      else if p_kind p = 1 then
        (case resolve r (p_symbol p) of
           Inl e \<Rightarrow> Inl e
         | Inr i \<Rightarrow> Inr (Quote \<lparr> q_instrument = i, q_source_ts = p_source_ts p, q_rx_ts = p_rx_ts p, q_seq = p_seq p,
                                q_bid = p_a p, q_bid_size = p_size0 p, q_ask = p_b p, q_ask_size = p_size1 p \<rparr>))
      else if p_kind p = 2 then
        (case resolve r (p_symbol p) of
           Inl e \<Rightarrow> Inl e
         | Inr i \<Rightarrow>
             (case tag_to_interval (p_interval p) of
                None \<Rightarrow> Inl BadDiscriminant
              | Some b \<Rightarrow> Inr (Bar \<lparr> b_instrument = i, b_interval = b, b_source_ts = p_source_ts p,
                                    b_rx_ts = p_rx_ts p, b_seq = p_seq p, b_open = p_a p, b_high = p_b p,
                                    b_low = p_c p, b_close = p_d p, b_volume = p_size0 p \<rparr>)))
      else if p_kind p = 3 then control_from_pod p r
      else Inl BadDiscriminant)"

section \<open>The hold buffer\<close>

record hold_buffer =
  hb_resolver :: resolver
  hb_held :: "payload list"

definition hold_buffer_new :: hold_buffer where
  "hold_buffer_new = \<lparr> hb_resolver = Map.empty, hb_held = [] \<rparr>"

fun drain :: "resolver \<Rightarrow> payload list \<Rightarrow> market_event list \<times> payload list" where
  "drain r [] = ([], [])"
| "drain r (p # ps) =
     (case drain r ps of (out, held) \<Rightarrow>
        (case from_pod p r of
           Inr ev \<Rightarrow> (ev # out, held)
         | Inl (Unresolved _) \<Rightarrow> (out, p # held)
         | Inl BadDiscriminant \<Rightarrow> (out, held)))"

definition drain_resolved :: "hold_buffer \<Rightarrow> market_event list \<times> hold_buffer" where
  "drain_resolved b = (case drain (hb_resolver b) (hb_held b) of (out, held) \<Rightarrow> (out, b\<lparr> hb_held := held \<rparr>))"

definition apply_announcement :: "symbol_announcement \<Rightarrow> hold_buffer \<Rightarrow> (symbol_decode_error + market_event list) \<times> hold_buffer" where
  "apply_announcement a b =
     (case resolver_apply a (hb_resolver b) of
        (Inl e, _) \<Rightarrow> (Inl e, b)
      | (Inr _, r) \<Rightarrow> (case drain_resolved (b\<lparr> hb_resolver := r \<rparr>) of (out, b') \<Rightarrow> (Inr out, b')))"

definition hold_offer :: "payload \<Rightarrow> hold_buffer \<Rightarrow> market_event list \<times> hold_buffer" where
  "hold_offer p b = drain_resolved (b\<lparr> hb_held := hb_held b @ [p] \<rparr>)"

section \<open>Instruments survive the announcement\<close>

lemma utf8_next_append: "utf8_next s = Some r \<Longrightarrow> utf8_next (s @ ys) = Some (r @ ys)"
  by (cases s rule: utf8_next.cases; cases ys rule: utf8_next.cases) (auto split: if_splits)

lemma valid_utf8_append: "valid_utf8 xs \<Longrightarrow> valid_utf8 ys \<Longrightarrow> valid_utf8 (xs @ ys)"
proof (induction xs rule: valid_utf8.induct)
  case (1 s)
  show ?case
  proof (cases "s = []")
    case False
    then obtain r where r: "utf8_next s = Some r" "valid_utf8 r"
      using 1(2) by (auto simp: valid_utf8.simps [of s] split: option.splits)
    then have "valid_utf8 (r @ ys)" using 1 False by blast
    then show ?thesis using utf8_next_append [OF r(1)] by (simp add: valid_utf8.simps [of "s @ ys"])
  qed (use 1(3) in simp)
qed

lemma utf8_next_ascii: "ascii a \<Longrightarrow> utf8_next (a # s) = Some s"
  by (cases s rule: utf8_next.cases) auto

lemma valid_utf8_ascii: "list_all ascii s \<Longrightarrow> valid_utf8 s"
  by (induction s) (auto simp: valid_utf8.simps [of "[]"] valid_utf8.simps [of "_ # _"] utf8_next_ascii)

text \<open>Provider and symbol are strings, and neither holds the separator.\<close>

definition clean_instrument :: "instrument \<Rightarrow> bool" where
  "clean_instrument i \<longleftrightarrow>
     valid_utf8 (i_provider i) \<and> valid_utf8 (i_symbol i) \<and> SEP \<notin> set (i_provider i) \<and> SEP \<notin> set (i_symbol i)"

lemma byte_SEP [simp]: "byte SEP = 31"
  by (simp add: byte_def SEP_def)

lemma asset_class_bytes: "c \<in> set (asset_class_display a) \<Longrightarrow> 97 \<le> byte c \<and> byte c < 128"
  by (cases a) (auto simp: byte_def)

lemma asset_class_text:
  "SEP \<notin> set (asset_class_display a)" "valid_utf8 (asset_class_display a)"
  "parse_asset_class (asset_class_display a) = Inr a"
proof -
  show "SEP \<notin> set (asset_class_display a)" using asset_class_bytes [of SEP a] by auto
  show "valid_utf8 (asset_class_display a)"
    by (rule valid_utf8_ascii) (simp add: list_all_iff ascii_def asset_class_bytes)
  show "parse_asset_class (asset_class_display a) = Inr a" by (cases a) (simp_all add: parse_asset_class_def)
qed

lemma decode_encode_instrument:
  assumes "clean_instrument i"
  shows "decode_instrument (encode_instrument i) = Inr i"
proof -
  have sep: "valid_utf8 [SEP]" by (simp add: ascii_def valid_utf8_ascii)
  have "valid_utf8 (encode_instrument i)"
    unfolding encode_instrument_def
    by (intro valid_utf8_append sep asset_class_text(2)) (use assms in \<open>simp_all add: clean_instrument_def\<close>)
  moreover have "split_on SEP (encode_instrument i) = [i_provider i, asset_class_display (i_asset_class i), i_symbol i]"
    using assms by (simp add: encode_instrument_def clean_instrument_def split_on_append split_on_none asset_class_text)
  ultimately show ?thesis by (simp add: decode_instrument_def asset_class_text instrument_new_def)
qed

section \<open>The symbol table\<close>

definition table_ok :: "symbol_table \<Rightarrow> bool" where
  "table_ok t \<longleftrightarrow>
     length (st_reverse t) < 2 ^ 32 \<and> (\<forall>i \<in> set (st_reverse t). length (encode_instrument i) \<le> SYMBOL_STRING_CAPACITY)
     \<and> (\<forall>i s. map_of (st_forward t) i = Some s \<longleftrightarrow> unat s < length (st_reverse t) \<and> st_reverse t ! unat s = i)"

text \<open>What the table tells a subscriber once everything is announced.\<close>

definition table_resolver :: "symbol_table \<Rightarrow> resolver" where
  "table_resolver t s = (if unat s < length (st_reverse t) then Some (st_reverse t ! unat s) else None)"

lemma unat_CONNECTION: "unat CONNECTION = 2 ^ 32 - 1"
  by (simp add: CONNECTION_def unsigned_minus_1_eq_mask mask_eq_exp_minus_1)

lemma table_new_ok: "table_ok symbol_table_new"
  by (simp add: table_ok_def symbol_table_new_def)

lemma intern_ok:
  assumes "table_ok t" "intern i t = Some (r, t')"
  shows "table_ok t' \<and> (\<exists>is. st_reverse t' = st_reverse t @ is \<and> set is \<subseteq> {i})
    \<and> (case r of Inr s \<Rightarrow> table_resolver t' s = Some i \<and> s \<noteq> CONNECTION | Inl _ \<Rightarrow> t' = t)"
proof (cases "map_of (st_forward t) i")
  case (Some s)
  then have "unat s < length (st_reverse t)" "st_reverse t ! unat s = i" using assms(1) by (auto simp: table_ok_def)
  moreover have "length (st_reverse t) < 2 ^ 32" using assms(1) by (simp add: table_ok_def)
  ultimately show ?thesis
    using Some assms by (auto simp: intern_def table_resolver_def unat_CONNECTION)
next
  case None
  let ?n = "length (st_reverse t)" let ?s = "of_nat ?n :: symbol_id"
  show ?thesis
  proof (cases "length (encode_instrument i) > SYMBOL_STRING_CAPACITY")
    case True
    then show ?thesis using None assms by (auto simp: intern_def)
  next
    case False
    then have n: "?n < 2 ^ 32 - 1" and r: "r = Inr ?s"
      and t': "t' = \<lparr> st_forward = AList.update i ?s (st_forward t), st_reverse = st_reverse t @ [i] \<rparr>"
      using None assms(2) by (auto simp: intern_def Let_def split: if_splits)
    have un: "unat ?s = ?n" using n by (simp add: unsigned_of_nat take_bit_nat_eq_self)
    have fresh: "i \<notin> set (st_reverse t)"
    proof
      assume "i \<in> set (st_reverse t)"
      then obtain m where m: "m < ?n" "st_reverse t ! m = i" by (auto simp: in_set_conv_nth)
      then have "unat (of_nat m :: symbol_id) = m" using n by (simp add: unsigned_of_nat take_bit_nat_eq_self)
      then show False using m None assms(1) by (metis (no_types, lifting) option.distinct(1) table_ok_def)
    qed
    have "map_of (st_forward t') j = Some s \<longleftrightarrow> unat s < length (st_reverse t') \<and> st_reverse t' ! unat s = j" for j s
    proof (cases "j = i")
      case True
      have "s = ?s \<longleftrightarrow> unat s = ?n" using un by (metis word_unat_eq_iff)
      then show ?thesis using True fresh by (auto simp: t' update_conv' nth_append less_Suc_eq)
    next
      case False
      then show ?thesis using assms(1) by (auto simp: t' update_conv' nth_append less_Suc_eq table_ok_def)
    qed
    then have "table_ok t'" using assms(1) False n by (auto simp: table_ok_def t')
    moreover have "?s \<noteq> CONNECTION" using un n using unat_CONNECTION by (metis less_irrefl)
    ultimately show ?thesis using r un by (simp add: t' table_resolver_def nth_append)
  qed
qed

section \<open>Events survive the payload\<close>

text \<open>
  What a subscriber gets back: everything, except that the provider of a gap or
  subscription control is that of its instrument.
\<close>

fun recovered :: "market_event \<Rightarrow> market_event" where
  "recovered (Control c) =
     Control (c\<lparr> c_kind := (case c_kind c of
        Gap _ i sp \<Rightarrow> Gap (i_provider i) i sp
      | SubscriptionChanged _ i k a \<Rightarrow> SubscriptionChanged (i_provider i) i k a
      | kind \<Rightarrow> kind) \<rparr>)"
| "recovered ev = ev"

fun event_instrument :: "market_event \<Rightarrow> instrument option" where
  "event_instrument (Trade x) = Some (t_instrument x)"
| "event_instrument (Quote x) = Some (q_instrument x)"
| "event_instrument (Bar x) = Some (b_instrument x)"
| "event_instrument (Control c) =
     (case c_kind c of Gap _ i _ \<Rightarrow> Some i | SubscriptionChanged _ i _ _ \<Rightarrow> Some i | _ \<Rightarrow> None)"

definition encodes :: "resolver \<Rightarrow> payload \<Rightarrow> market_event \<Rightarrow> bool" where
  "encodes T p ev \<longleftrightarrow>
     (event_instrument ev \<noteq> None \<longrightarrow> T (p_symbol p) = event_instrument ev)
     \<and> (\<forall>r. (event_instrument ev = None \<or> r (p_symbol p) = event_instrument ev \<longrightarrow> from_pod p r = Inr (recovered ev))
          \<and> (event_instrument ev \<noteq> None \<and> r (p_symbol p) = None \<longrightarrow> from_pod p r = Inl (Unresolved (p_symbol p))))"

lemma event_instrument_recovered [simp]: "event_instrument (recovered ev) = event_instrument ev"
  by (cases ev) (auto split: control_kind.splits)

lemma tag_interval_roundtrip [simp]: "tag_to_interval (interval_to_tag b) = Some b"
  by (cases b) (simp_all add: tag_to_interval_def interval_to_tag_def)

lemma tags_kind_roundtrip [simp]:
  "tags_to_event_kind (fst (event_kind_to_tags k)) (snd (event_kind_to_tags k)) = Some k"
  by (cases k) (simp_all add: event_kind_to_tags_def tags_to_event_kind_def)

text \<open>\<open>grows t t'\<close>: every handle keeps its meaning.\<close>

definition grows :: "symbol_table \<Rightarrow> symbol_table \<Rightarrow> bool" where
  "grows t t' \<longleftrightarrow> (\<exists>is. st_reverse t' = st_reverse t @ is)"

lemma grows_refl [simp]: "grows t t"
  by (simp add: grows_def)

lemma grows_trans: "grows a b \<Longrightarrow> grows b c \<Longrightarrow> grows a c"
  by (auto simp: grows_def)

lemma grows_resolver: "grows t t' \<Longrightarrow> table_resolver t \<subseteq>\<^sub>m table_resolver t'"
  by (auto simp: grows_def map_le_def table_resolver_def nth_append split: if_splits)

lemma encodes_mono: "encodes T p ev \<Longrightarrow> T \<subseteq>\<^sub>m T' \<Longrightarrow> encodes T' p ev"
  unfolding encodes_def map_le_def by (metis domI not_None_eq)

lemma with_symbol_ok:
  assumes "table_ok t" "with_symbol i t mk = Some (Inr (Some p), t')"
  shows "table_ok t' \<and> grows t t' \<and> (\<exists>s. p = mk s \<and> table_resolver t' s = Some i \<and> s \<noteq> CONNECTION)"
proof -
  obtain s where s: "intern i t = Some (Inr s, t')" "p = mk s"
    using assms(2) by (auto simp: with_symbol_def split: option.splits prod.splits sum.splits)
  then show ?thesis using intern_ok [OF assms(1) s(1)] by (auto simp: grows_def)
qed

lemmas pod_defs = from_pod_def control_from_pod_def resolve_def blank_def Let_def

lemma to_pod_encodes:
  assumes "table_ok t" "to_pod ev t = Some (Inr (Some p), t')"
  shows "table_ok t' \<and> grows t t' \<and> encodes (table_resolver t') p ev"
proof (cases ev)
  case (Trade x)
  then show ?thesis using with_symbol_ok [OF assms(1)] assms(2) by (fastforce simp: encodes_def pod_defs)
next
  case (Quote x)
  then show ?thesis using with_symbol_ok [OF assms(1)] assms(2) by (fastforce simp: encodes_def pod_defs)
next
  case (Bar x)
  then show ?thesis using with_symbol_ok [OF assms(1)] assms(2) by (fastforce simp: encodes_def pod_defs)
next
  case (Control c)
  note pod = assms(2) [unfolded Control to_pod.simps control_to_pod_def]
  show ?thesis
  proof (cases "c_kind c")
    case (Gap q i sp)
    then have "with_symbol i t (\<lambda>s. (blank 3 s (c_source_ts c) (c_rx_ts c) (c_seq c))
        \<lparr> p_control_tag := 0, p_a := from_source_ts sp, p_b := to_source_ts sp \<rparr>) = Some (Inr (Some p), t')"
      using pod by simp
    from with_symbol_ok [OF assms(1) this] show ?thesis using Control Gap by (auto simp: encodes_def pod_defs)
  next
    case (SubscriptionChanged q i k a)
    then have "with_symbol i t (\<lambda>s. (blank 3 s (c_source_ts c) (c_rx_ts c) (c_seq c))
        \<lparr> p_control_tag := 1, p_sub_kind := fst (event_kind_to_tags k), p_interval := snd (event_kind_to_tags k),
          p_active := of_bool a \<rparr>) = Some (Inr (Some p), t')"
      using pod by simp
    from with_symbol_ok [OF assms(1) this] show ?thesis
      using Control SubscriptionChanged by (auto simp: encodes_def pod_defs)
  next
    case SessionClosing
    then show ?thesis using pod assms(1) Control by (auto simp: encodes_def pod_defs)
  qed (use pod in simp_all)
qed

lemma to_pod_table:
  assumes "table_ok t" "to_pod ev t = Some (r, t')"
  shows "table_ok t' \<and> grows t t' \<and> set (st_reverse t') \<subseteq> set (st_reverse t) \<union> set_option (event_instrument ev)"
proof -
  have ws: "table_ok t' \<and> grows t t' \<and> set (st_reverse t') \<subseteq> insert i (set (st_reverse t))"
    if sym: "with_symbol i t mk = Some (r, t')" for i mk
  proof -
    obtain q where q: "intern i t = Some (q, t')"
      using sym by (auto simp: with_symbol_def split: option.splits prod.splits sum.splits)
    then show ?thesis using intern_ok [OF assms(1) q] by (auto simp: grows_def)
  qed
  show ?thesis
    using assms by (cases ev) (auto simp: control_to_pod_def dest!: ws split: control_kind.splits)
qed

end
