(* ===== verification/Transport_Plane.thy ===== *)
theory Transport_Plane
  imports Decimal Transport_Codec "HOL-Library.Sublist"
begin

text \<open>
  The per-client data-plane sink (\<^verbatim>\<open>sink.rs\<close>) and the polling subscriber (\<^verbatim>\<open>subscriber.rs\<close>)
  over the two iceoryx2 services. A service is the list of samples sent on it; whether a
  send fails is a list of outcomes, one per send, success once it is used up. The services
  give no order between them, so a poll gets any announcements and any data samples.
\<close>

section \<open>The sink\<close>

datatype transport_error =
    BadServiceName string
  | Service string
  | StaleService string
  | Send string
  | Interning string
  | Unsupported string

definition REANNOUNCE_INTERVAL :: u64 where "REANNOUNCE_INTERVAL = 256"

record ice_sink =
  ik_table :: symbol_table
  ik_announced :: "symbol_id list"
  ik_data :: "payload list"
  ik_announcements :: "symbol_announcement list"
  ik_sends :: u64
  ik_faults :: "string option list"

definition ice_sink_new :: "string option list \<Rightarrow> ice_sink" where
  "ice_sink_new faults =
     \<lparr> ik_table = symbol_table_new, ik_announced = [], ik_data = [], ik_announcements = [], ik_sends = 0,
       ik_faults = faults \<rparr>"

text \<open>One loan and send, on either service.\<close>

definition next_fault :: "ice_sink \<Rightarrow> string option \<times> ice_sink" where
  "next_fault k = ((case ik_faults k of f # _ \<Rightarrow> f | [] \<Rightarrow> None), k\<lparr> ik_faults := tl (ik_faults k) \<rparr>)"

definition send_announcement :: "symbol_announcement \<Rightarrow> ice_sink \<Rightarrow> (transport_error + unit) \<times> ice_sink" where
  "send_announcement a k =
     (case next_fault k of
        (Some e, k') \<Rightarrow> (Inl (Send e), k')
      | (None, k') \<Rightarrow> (Inr (), k'\<lparr> ik_announcements := ik_announcements k' @ [a] \<rparr>))"

fun send_announcements :: "symbol_announcement list \<Rightarrow> ice_sink \<Rightarrow> (transport_error + unit) \<times> ice_sink" where
  "send_announcements [] k = (Inr (), k)"
| "send_announcements (a # as) k =
     (case send_announcement a k of
        (Inl e, k') \<Rightarrow> (Inl e, k')
      | (Inr _, k') \<Rightarrow> send_announcements as k')"

definition republish_all_announcements :: "ice_sink \<Rightarrow> (transport_error + unit) \<times> ice_sink" where
  "republish_all_announcements k = send_announcements (announcements (ik_table k)) k"

text \<open>\<^verbatim>\<open>InstrumentTooLong\<close> as text.\<close>

definition too_long :: "nat \<Rightarrow> string" where
  "too_long n = ''encoded instrument tuple is '' @ show_nat n @ '' bytes, exceeds capacity '' @ show_nat SYMBOL_STRING_CAPACITY"

text \<open>Announce the payload's symbol when it has not been announced yet.\<close>

definition announce_if_new :: "payload \<Rightarrow> ice_sink \<Rightarrow> (transport_error + unit) \<times> ice_sink" where
  "announce_if_new p k =
     (case (if p_symbol p \<noteq> CONNECTION \<and> p_symbol p \<notin> set (ik_announced k)
            then announcement (p_symbol p) (ik_table k) else None) of
        None \<Rightarrow> (Inr (), k)
      | Some a \<Rightarrow>
          (case send_announcement a k of
             (Inl e, k') \<Rightarrow> (Inl e, k')
           | (Inr _, k') \<Rightarrow> (Inr (), k'\<lparr> ik_announced := p_symbol p # ik_announced k' \<rparr>)))"

text \<open>Publish the sample, then refresh the announcements every so many sends.\<close>

definition send_data :: "payload \<Rightarrow> ice_sink \<Rightarrow> (transport_error + bool) \<times> ice_sink" where
  "send_data p k =
     (case next_fault k of
        (Some e, k1) \<Rightarrow> (Inl (Send e), k1)
      | (None, k1) \<Rightarrow>
          (let n = ik_sends k1;
               k2 = k1\<lparr> ik_data := ik_data k1 @ [p], ik_sends := n + 1 \<rparr>
           in if (n + 1) mod REANNOUNCE_INTERVAL = 0
              then (case republish_all_announcements k2 of
                      (Inl e, k3) \<Rightarrow> (Inl e, k3)
                    | (Inr _, k3) \<Rightarrow> (Inr True, k3))
              else (Inr True, k2)))"

definition ice_deliver :: "market_event \<Rightarrow> ice_sink \<Rightarrow> ((transport_error + bool) \<times> ice_sink) option" where
  "ice_deliver ev k =
     (case to_pod ev (ik_table k) of
        None \<Rightarrow> None
      | Some (Inl n, t) \<Rightarrow> Some (Inl (Interning (too_long n)), k\<lparr> ik_table := t \<rparr>)
      | Some (Inr None, t) \<Rightarrow>
          Some (case ev of Control _ \<Rightarrow> Inr True | _ \<Rightarrow> Inl (Unsupported ''MarketEvent variant not encodable by this transport build''),
                k\<lparr> ik_table := t \<rparr>)
      | Some (Inr (Some p), t) \<Rightarrow>
          Some (case announce_if_new p (k\<lparr> ik_table := t \<rparr>) of
             (Inl e, k1) \<Rightarrow> (Inl e, k1)
           | (Inr _, k1) \<Rightarrow> send_data p k1))"

datatype publish_outcome = Delivered | Rejected market_event

definition ice_publish :: "market_event \<Rightarrow> ice_sink \<Rightarrow> (publish_outcome \<times> ice_sink) option" where
  "ice_publish ev k =
     (case ice_deliver ev k of
        None \<Rightarrow> None
      | Some (r, k') \<Rightarrow> Some (if r = Inr True then Delivered else Rejected ev, k'))"

definition ice_flush :: "ice_sink \<Rightarrow> (transport_error + unit) \<times> ice_sink" where
  "ice_flush k = republish_all_announcements k"

text \<open>
  The daemon's pumps (\<^verbatim>\<open>spawn_pump\<close>, \<^verbatim>\<open>spawn_query_pump\<close>): publish in order until the stream ends,
  an event is refused, or a query's terminal control went out; then flush, whose failure is
  only logged. The result is what was accepted and what was refused.
\<close>

fun pump_loop ::
  "(market_event \<Rightarrow> bool) \<Rightarrow> market_event list \<Rightarrow> ice_sink \<Rightarrow> ((market_event list \<times> market_event option) \<times> ice_sink) option" where
  "pump_loop terminal [] k = Some (([], None), k)"
| "pump_loop terminal (ev # evs) k =
     (case ice_publish ev k of
        None \<Rightarrow> None
      | Some (Rejected e, k') \<Rightarrow> Some (([], Some e), k')
      | Some (Delivered, k') \<Rightarrow>
          if terminal ev then Some (([ev], None), k')
          else (case pump_loop terminal evs k' of
                  None \<Rightarrow> None
                | Some ((acked, rejected), k'') \<Rightarrow> Some ((ev # acked, rejected), k'')))"

definition pump ::
  "(market_event \<Rightarrow> bool) \<Rightarrow> market_event list \<Rightarrow> ice_sink \<Rightarrow> ((market_event list \<times> market_event option) \<times> ice_sink) option" where
  "pump terminal evs k =
     (case pump_loop terminal evs k of
        None \<Rightarrow> None
      | Some (r, k') \<Rightarrow> Some (r, snd (ice_flush k')))"

definition spawn_pump :: "market_event list \<Rightarrow> ice_sink \<Rightarrow> ((market_event list \<times> market_event option) \<times> ice_sink) option" where
  "spawn_pump = pump (\<lambda>_. False)"

definition spawn_query_pump :: "market_event list \<Rightarrow> ice_sink \<Rightarrow> ((market_event list \<times> market_event option) \<times> ice_sink) option" where
  "spawn_query_pump = pump (\<lambda>ev. case ev of Control c \<Rightarrow> c_kind c = SessionClosing | _ \<Rightarrow> False)"

section \<open>The subscriber\<close>

fun poll_announcements ::
  "symbol_announcement list \<Rightarrow> market_event list \<Rightarrow> hold_buffer \<Rightarrow> (symbol_decode_error + market_event list) \<times> hold_buffer" where
  "poll_announcements [] evs b = (Inr evs, b)"
| "poll_announcements (a # as) evs b =
     (case apply_announcement a b of
        (Inl e, b') \<Rightarrow> (Inl e, b')
      | (Inr out, b') \<Rightarrow> poll_announcements as (evs @ out) b')"

fun poll_data :: "payload list \<Rightarrow> market_event list \<Rightarrow> hold_buffer \<Rightarrow> market_event list \<times> hold_buffer" where
  "poll_data [] evs b = (evs, b)"
| "poll_data (p # ps) evs b = (case hold_offer p b of (out, b') \<Rightarrow> poll_data ps (evs @ out) b')"

text \<open>\<^verbatim>\<open>DataSubscriber::poll\<close> with the samples that were waiting on the two services.\<close>

definition poll ::
  "symbol_announcement list \<Rightarrow> payload list \<Rightarrow> hold_buffer \<Rightarrow> (symbol_decode_error + market_event list) \<times> hold_buffer" where
  "poll as ps b =
     (case poll_announcements as [] b of
        (Inl e, b') \<Rightarrow> (Inl e, b')
      | (Inr evs, b') \<Rightarrow> (case poll_data ps evs b' of (evs', b'') \<Rightarrow> (Inr evs', b'')))"

text \<open>Successive polls; the events of the ones that succeed, in order.\<close>

fun polls :: "(symbol_announcement list \<times> payload list) list \<Rightarrow> hold_buffer \<Rightarrow> market_event list \<times> hold_buffer" where
  "polls [] b = ([], b)"
| "polls ((as, ps) # rest) b =
     (case poll as ps b of
        (Inl _, b') \<Rightarrow> polls rest b'
      | (Inr evs, b') \<Rightarrow> (case polls rest b' of (evs', b'') \<Rightarrow> (evs @ evs', b'')))"

section \<open>What the sink has sent\<close>

definition forwarded :: "market_event \<Rightarrow> bool" where
  "forwarded ev =
     (case ev of
        Control c \<Rightarrow> (case c_kind c of
            ProviderConnected _ \<Rightarrow> False | ProviderDisconnected _ _ _ \<Rightarrow> False | ProviderError _ _ \<Rightarrow> False | _ \<Rightarrow> True)
      | _ \<Rightarrow> True)"

definition announces :: "symbol_table \<Rightarrow> symbol_announcement \<Rightarrow> bool" where
  "announces t a \<longleftrightarrow> (\<exists>i. table_resolver t (an_id a) = Some i \<and> an_instrument a = encode_instrument i)"

definition sink_inv :: "ice_sink \<Rightarrow> market_event list \<Rightarrow> bool" where
  "sink_inv k evs \<longleftrightarrow>
     table_ok (ik_table k) \<and> (\<forall>i \<in> set (st_reverse (ik_table k)). clean_instrument i)
     \<and> list_all2 (encodes (table_resolver (ik_table k))) (ik_data k) evs
     \<and> (\<forall>a \<in> set (ik_announcements k). announces (ik_table k) a)
     \<and> set (ik_announced k) \<subseteq> an_id ` set (ik_announcements k)
     \<and> (\<forall>p \<in> set (ik_data k). p_symbol p \<noteq> CONNECTION \<longrightarrow> p_symbol p \<in> an_id ` set (ik_announcements k))"

lemma sink_new_inv: "sink_inv (ice_sink_new faults) []"
  by (simp add: sink_inv_def ice_sink_new_def table_new_ok symbol_table_new_def [THEN arg_cong [where f = st_reverse]])

lemma announces_mono: "announces t a \<Longrightarrow> grows t t' \<Longrightarrow> announces t' a"
  using grows_resolver [of t t'] unfolding announces_def map_le_def by (metis domI)

lemma announcement_announces: "announcement s t = Some a \<Longrightarrow> announces t a \<and> an_id a = s"
  by (auto simp: announcement_def announces_def table_resolver_def Let_def split: if_splits)

lemma announcement_total:
  "table_ok t \<Longrightarrow> table_resolver t s = Some i \<Longrightarrow> \<exists>a. announcement s t = Some a"
  by (auto simp: announcement_def table_resolver_def table_ok_def Let_def split: if_splits)

lemma announcements_announce: "a \<in> set (announcements t) \<Longrightarrow> announces t a"
  using announcement_announces by (auto simp: announcements_def map_filter_def split: if_splits)

lemma sink_inv_faults [simp]: "sink_inv (k\<lparr> ik_faults := fs \<rparr>) evs = sink_inv k evs"
  "sink_inv (k\<lparr> ik_sends := n \<rparr>) evs = sink_inv k evs"
  by (simp_all add: sink_inv_def)

lemma sink_inv_table:
  assumes "sink_inv k evs" "table_ok t" "grows (ik_table k) t" "\<forall>i \<in> set (st_reverse t). clean_instrument i"
  shows "sink_inv (k\<lparr> ik_table := t \<rparr>) evs"
proof -
  have "list_all2 (encodes (table_resolver t)) (ik_data k) evs"
    using assms(1) encodes_mono grows_resolver [OF assms(3)] unfolding sink_inv_def by (blast intro: list_all2_mono)
  then show ?thesis using assms announces_mono by (auto simp: sink_inv_def)
qed

lemma send_announcement_inv:
  assumes "send_announcement a k = (r, k')" "sink_inv k evs" "announces (ik_table k) a"
  shows "sink_inv k' evs \<and> ik_table k' = ik_table k \<and> ik_data k' = ik_data k \<and> ik_announced k' = ik_announced k
    \<and> set (ik_announcements k) \<subseteq> set (ik_announcements k') \<and> (r = Inr () \<longrightarrow> a \<in> set (ik_announcements k'))"
  using assms
  by (auto simp: send_announcement_def next_fault_def sink_inv_def split: option.splits)

lemma send_announcements_inv:
  "send_announcements as k = (r, k') \<Longrightarrow> sink_inv k evs \<Longrightarrow> \<forall>a \<in> set as. announces (ik_table k) a \<Longrightarrow>
   sink_inv k' evs \<and> ik_table k' = ik_table k \<and> ik_data k' = ik_data k"
proof (induction as arbitrary: k)
  case (Cons a as)
  obtain r1 k1 where s: "send_announcement a k = (r1, k1)" by fastforce
  note inv = send_announcement_inv [OF s Cons.prems(2)]
  show ?case
  proof (cases r1)
    case (Inl e)
    then show ?thesis using Cons.prems s inv by auto
  next
    case (Inr u)
    then have "send_announcements as k1 = (r, k')" using Cons.prems(1) s by simp
    then show ?thesis using Cons.IH inv Cons.prems(3) by auto
  qed
qed auto

lemma announce_if_new_inv:
  assumes "announce_if_new p k = (r, k')" "sink_inv k evs" "encodes (table_resolver (ik_table k)) p ev"
    and "p_symbol p \<noteq> CONNECTION \<Longrightarrow> table_resolver (ik_table k) (p_symbol p) \<noteq> None"
  shows "sink_inv k' evs \<and> ik_table k' = ik_table k \<and> ik_data k' = ik_data k
    \<and> (r = Inr () \<and> p_symbol p \<noteq> CONNECTION \<longrightarrow> p_symbol p \<in> an_id ` set (ik_announcements k'))"
proof (cases "p_symbol p \<noteq> CONNECTION \<and> p_symbol p \<notin> set (ik_announced k)")
  case False
  then show ?thesis using assms(1,2) by (auto simp: announce_if_new_def sink_inv_def)
next
  case True
  then obtain a where a: "announcement (p_symbol p) (ik_table k) = Some a"
    using announcement_total assms(2,4) unfolding sink_inv_def by blast
  obtain r1 k1 where s: "send_announcement a k = (r1, k1)" by fastforce
  note inv = send_announcement_inv [OF s assms(2)] announcement_announces [OF a]
  have "(r, k') = (case r1 of Inl e \<Rightarrow> (Inl e, k1) | Inr _ \<Rightarrow> (Inr (), k1\<lparr> ik_announced := p_symbol p # ik_announced k1 \<rparr>))"
    using assms(1) True a s by (cases r1) (auto simp: announce_if_new_def)
  then show ?thesis using inv by (cases r1) (auto simp: sink_inv_def image_iff intro: bexI [of _ a])
qed

lemma send_data_inv:
  assumes "send_data p k = (r, k')" "sink_inv k evs" "encodes (table_resolver (ik_table k)) p ev"
    and "p_symbol p \<noteq> CONNECTION \<longrightarrow> p_symbol p \<in> an_id ` set (ik_announcements k)"
  shows "(sink_inv k' evs \<and> r \<noteq> Inr True) \<or> sink_inv k' (evs @ [ev])"
proof -
  obtain f k1 where f: "next_fault k = (f, k1)" by fastforce
  then have k1: "k1 = k\<lparr> ik_faults := tl (ik_faults k) \<rparr>" by (simp add: next_fault_def)
  show ?thesis
  proof (cases f)
    case (Some e)
    then show ?thesis using assms(1,2) f k1 by (auto simp: send_data_def)
  next
    case None
    let ?k2 = "k1\<lparr> ik_data := ik_data k1 @ [p], ik_sends := ik_sends k1 + 1 \<rparr>"
    have inv2: "sink_inv ?k2 (evs @ [ev])"
      using assms(2-4) by (auto simp: sink_inv_def k1 intro!: list_all2_appendI)
    obtain r3 k3 where rep: "republish_all_announcements ?k2 = (r3, k3)" by fastforce
    have "sink_inv k3 (evs @ [ev])"
      using send_announcements_inv [OF rep [unfolded republish_all_announcements_def] inv2] announcements_announce by auto
    then show ?thesis
      using assms(1) f None rep inv2 by (cases r3) (auto simp: send_data_def Let_def split: if_splits)
  qed
qed

text \<open>An accepted event is on the data service if it has a payload; a refused one may be.\<close>

lemma no_payload: "to_pod ev t = Some (Inr None, t') \<Longrightarrow> \<not> forwarded ev"
  by (cases ev) (auto simp: forwarded_def control_to_pod_def with_symbol_def
    split: control_kind.splits option.splits prod.splits sum.splits)

lemma payload_forwarded: "to_pod ev t = Some (Inr (Some p), t') \<Longrightarrow> forwarded ev"
  by (cases ev) (auto simp: forwarded_def control_to_pod_def split: control_kind.splits)

lemma forwarded_symbol:
  "to_pod ev t = Some (Inr (Some p), t') \<Longrightarrow> table_ok t \<Longrightarrow>
   p_symbol p \<noteq> CONNECTION \<Longrightarrow> table_resolver t' (p_symbol p) \<noteq> None"
  using with_symbol_ok [of t]
  by (cases ev) (fastforce simp: control_to_pod_def blank_def split: control_kind.splits)+

lemma deliver_inv:
  assumes "ice_deliver ev k = Some (r, k')" "sink_inv k evs"
    and "\<forall>i \<in> set_option (event_instrument ev). clean_instrument i"
  shows "(r \<noteq> Inr True \<and> sink_inv k' evs) \<or> sink_inv k' (evs @ filter forwarded [ev])"
proof -
  obtain q t where p: "to_pod ev (ik_table k) = Some (q, t)"
    using assms(1) by (auto simp: ice_deliver_def split: option.splits)
  have ok: "table_ok (ik_table k)" using assms(2) by (simp add: sink_inv_def)
  note tab = to_pod_table [OF ok p]
  let ?k1 = "k\<lparr> ik_table := t \<rparr>"
  have inv1: "sink_inv ?k1 evs"
  proof (rule sink_inv_table [OF assms(2)])
    have "\<forall>i \<in> set (st_reverse (ik_table k)). clean_instrument i" using assms(2) by (simp add: sink_inv_def)
    then show "\<forall>i \<in> set (st_reverse t). clean_instrument i" using tab assms(3) by blast
  qed (use tab in simp_all)
  consider (too_long) n where "q = Inl n" | (none) "q = Inr None" | (payload) pl where "q = Inr (Some pl)"
    by (cases q) (auto simp: not_None_eq [symmetric] simp del: not_None_eq)
  then show ?thesis
  proof cases
    case too_long
    then show ?thesis using assms(1) p inv1 by (auto simp: ice_deliver_def)
  next
    case none
    then show ?thesis using assms(1) p inv1 no_payload by (auto simp: ice_deliver_def)
  next
    case payload
    obtain r2 k2 where a: "announce_if_new pl ?k1 = (r2, k2)" by fastforce
    note pod = p [unfolded payload]
    have enc: "encodes (table_resolver t) pl ev" using to_pod_encodes [OF ok pod] by simp
    have ann: "sink_inv k2 evs \<and> ik_table k2 = t \<and>
        (r2 = Inr () \<and> p_symbol pl \<noteq> CONNECTION \<longrightarrow> p_symbol pl \<in> an_id ` set (ik_announcements k2))"
      using announce_if_new_inv [OF a inv1, of ev] enc forwarded_symbol [OF pod ok] by simp
    show ?thesis
    proof (cases r2)
      case (Inl e)
      then show ?thesis using assms(1) p payload a ann by (auto simp: ice_deliver_def)
    next
      case (Inr u)
      then have sd: "send_data pl k2 = (r, k')" using assms(1) p payload a by (simp add: ice_deliver_def)
      then show ?thesis using send_data_inv [OF sd, of evs ev] ann enc Inr payload_forwarded [OF pod] by auto
    qed
  qed
qed

lemma publish_inv:
  assumes "ice_publish ev k = Some (out, k')" "sink_inv k evs"
    and "\<forall>i \<in> set_option (event_instrument ev). clean_instrument i"
  shows "(out = Rejected ev \<and> sink_inv k' evs) \<or> sink_inv k' (evs @ filter forwarded [ev])"
proof -
  obtain r where d: "ice_deliver ev k = Some (r, k')" "out = (if r = Inr True then Delivered else Rejected ev)"
    using assms(1) by (auto simp: ice_publish_def split: option.splits)
  then show ?thesis using deliver_inv [OF d(1) assms(2,3)] by auto
qed

text \<open>What the pump works through: everything up to the terminal event.\<close>

fun upto_terminal :: "(market_event \<Rightarrow> bool) \<Rightarrow> market_event list \<Rightarrow> market_event list" where
  "upto_terminal terminal [] = []"
| "upto_terminal terminal (ev # evs) = (if terminal ev then [ev] else ev # upto_terminal terminal evs)"

lemma upto_terminal_never [simp]: "upto_terminal (\<lambda>_. False) evs = evs"
  by (induction evs) auto

definition clean_event :: "market_event \<Rightarrow> bool" where
  "clean_event ev = (case event_instrument ev of None \<Rightarrow> True | Some i \<Rightarrow> clean_instrument i)"

lemma clean_eventD: "clean_event ev \<Longrightarrow> \<forall>i \<in> set_option (event_instrument ev). clean_instrument i"
  by (auto simp: clean_event_def)

text \<open>Refused or not, what is on the wire is the beginning of the stream.\<close>

lemma pump_loop_inv:
  "pump_loop terminal new k = Some ((acked, rejected), k') \<Longrightarrow> sink_inv k evs \<Longrightarrow> list_all clean_event new \<Longrightarrow>
   \<exists>sent. sink_inv k' (evs @ filter forwarded sent) \<and> prefix sent (upto_terminal terminal new)
     \<and> (rejected = None \<longrightarrow> sent = upto_terminal terminal new)"
proof (induction new arbitrary: k evs acked)
  case (Cons ev new)
  obtain out k1 where pub: "ice_publish ev k = Some (out, k1)" using Cons.prems(1) by (auto split: option.splits)
  have cl: "clean_event ev" "list_all clean_event new" using Cons.prems(3) by simp_all
  note inv = publish_inv [OF pub Cons.prems(2) clean_eventD [OF cl(1)]]
  show ?case
  proof (cases "out = Delivered \<and> \<not> terminal ev")
    case True
    obtain acked1 where rest: "pump_loop terminal new k1 = Some ((acked1, rejected), k')"
      using Cons.prems(1) pub True by (auto split: option.splits)
    have "sink_inv k1 (evs @ filter forwarded [ev])" using inv True by auto
    from Cons.IH [OF rest this cl(2)] obtain sent where
      "sink_inv k' (evs @ filter forwarded (ev # sent))" "prefix sent (upto_terminal terminal new)"
      "rejected = None \<longrightarrow> sent = upto_terminal terminal new"
      by (cases "forwarded ev") auto
    then show ?thesis using True by (intro exI [of _ "ev # sent"]) auto
  next
    case False
    then have k': "k' = k1" "rejected = None \<longrightarrow> out = Delivered \<and> terminal ev"
      using Cons.prems(1) pub by (cases out; auto split: if_splits)+
    show ?thesis
    proof (cases "sink_inv k1 (evs @ filter forwarded [ev])")
      case True
      then show ?thesis using k' by (intro exI [of _ "[ev]"]) auto
    next
      case False
      then show ?thesis using inv k' by (intro exI [of _ "[]"]) auto
    qed
  qed
qed simp

lemma flush_inv: "ice_flush k = (r, k') \<Longrightarrow> sink_inv k evs \<Longrightarrow> sink_inv k' evs \<and> ik_data k' = ik_data k"
  unfolding ice_flush_def republish_all_announcements_def
  using send_announcements_inv announcements_announce by blast

section \<open>What the subscriber has seen\<close>

text \<open>
  The held payloads with the events they stand for. All events of one instrument carry the
  same handle, so the buffer lets go of all of them at once.
\<close>

definition ready :: "resolver \<Rightarrow> payload \<times> market_event \<Rightarrow> bool" where
  "ready r pe \<longleftrightarrow> event_instrument (snd pe) = None \<or> r (p_symbol (fst pe)) \<noteq> None"

abbreviation of_instrument :: "instrument option \<Rightarrow> market_event list \<Rightarrow> market_event list" where
  "of_instrument key \<equiv> filter (\<lambda>ev. event_instrument ev = key)"

definition held_inv :: "resolver \<Rightarrow> hold_buffer \<Rightarrow> (payload \<times> market_event) list \<Rightarrow> bool" where
  "held_inv T b hz \<longleftrightarrow>
     hb_resolver b \<subseteq>\<^sub>m T \<and> hb_held b = map fst hz \<and> (\<forall>pe \<in> set hz. encodes T (fst pe) (snd pe))"

definition injective_resolver :: "resolver \<Rightarrow> bool" where
  "injective_resolver T \<longleftrightarrow> (\<forall>s s' i. T s = Some i \<and> T s' = Some i \<longrightarrow> s = s')"

lemma table_resolver_injective: "table_ok t \<Longrightarrow> injective_resolver (table_resolver t)"
  unfolding injective_resolver_def table_resolver_def table_ok_def by (metis option.distinct(1) option.inject)

lemma drain_step:
  "encodes T p ev \<Longrightarrow> r \<subseteq>\<^sub>m T \<Longrightarrow>
   from_pod p r = (if ready r (p, ev) then Inr (recovered ev) else Inl (Unresolved (p_symbol p)))"
  unfolding encodes_def ready_def map_le_def by (auto simp: dom_def)

lemma drain_spec:
  "\<forall>pe \<in> set hz. encodes T (fst pe) (snd pe) \<Longrightarrow> r \<subseteq>\<^sub>m T \<Longrightarrow>
   drain r (map fst hz) = (map (recovered \<circ> snd) (filter (ready r) hz), map fst (filter (\<lambda>pe. \<not> ready r pe) hz))"
  by (induction hz) (auto simp: drain_step)

lemma drain_by_instrument:
  assumes "injective_resolver T" "\<forall>pe \<in> set hz. encodes T (fst pe) (snd pe)"
  shows "of_instrument key (map (recovered \<circ> snd) (filter (ready r) hz))
      @ of_instrument key (map (recovered \<circ> snd) (filter (\<lambda>pe. \<not> ready r pe) hz))
    = of_instrument key (map (recovered \<circ> snd) hz)" (is "?l1 @ ?l2 = ?all")
proof (cases "\<exists>pe \<in> set hz. event_instrument (snd pe) = key \<and> ready r pe")
  case True
  then obtain pe where pe: "pe \<in> set hz" "event_instrument (snd pe) = key" "ready r pe" by blast
  have "ready r qe" if qe: "qe \<in> set hz" "event_instrument (snd qe) = key" for qe
  proof (cases key)
    case (Some i)
    then have "T (p_symbol (fst pe)) = Some i" "T (p_symbol (fst qe)) = Some i"
      using pe qe assms(2) by (auto simp: encodes_def)
    then have "p_symbol (fst pe) = p_symbol (fst qe)" using assms(1) unfolding injective_resolver_def by blast
    then show ?thesis using pe qe Some by (simp add: ready_def)
  qed (use qe in \<open>simp add: ready_def\<close>)
  then have "?l1 = ?all" "?l2 = []"
    by (auto simp: filter_map o_def filter_empty_conv intro!: arg_cong [where f = "map _"] filter_cong)
  then show ?thesis by simp
next
  case False
  then have "?l2 = ?all" "?l1 = []"
    by (auto simp: filter_map o_def filter_empty_conv intro!: arg_cong [where f = "map _"] filter_cong)
  then show ?thesis by simp
qed

text \<open>
  \<open>R\<close> is what the subscriber has handed out, \<open>sent\<close> what it has been given: per instrument,
  the first is the second less what is held, and only unresolved payloads are held.
\<close>

definition sub_inv ::
  "resolver \<Rightarrow> hold_buffer \<Rightarrow> market_event list \<Rightarrow> (payload \<times> market_event) list \<Rightarrow> bool" where
  "sub_inv T b R sent \<longleftrightarrow>
     (\<exists>hz. held_inv T b hz \<and> (\<forall>pe \<in> set hz. \<not> ready (hb_resolver b) pe)
       \<and> (\<forall>key. of_instrument key R @ of_instrument key (map (recovered \<circ> snd) hz)
              = of_instrument key (map (recovered \<circ> snd) sent)) \<and> set hz \<subseteq> set sent)"

lemma sub_new_inv: "sub_inv T hold_buffer_new [] []"
  by (simp add: sub_inv_def held_inv_def hold_buffer_new_def)

lemma drain_resolved_inv:
  assumes "injective_resolver T" "held_inv T b hz" "drain_resolved b = (out, b')" "set hz \<subseteq> set sent"
    and "\<And>key. of_instrument key R @ of_instrument key (map (recovered \<circ> snd) hz)
              = of_instrument key (map (recovered \<circ> snd) sent)"
  shows "sub_inv T b' (R @ out) sent \<and> hb_resolver b' = hb_resolver b"
proof -
  let ?r = "hb_resolver b" let ?keep = "filter (\<lambda>pe. \<not> ready ?r pe) hz"
  have enc: "\<forall>pe \<in> set hz. encodes T (fst pe) (snd pe)" "?r \<subseteq>\<^sub>m T" "hb_held b = map fst hz"
    using assms(2) by (simp_all add: held_inv_def)
  have out: "out = map (recovered \<circ> snd) (filter (ready ?r) hz)" "b' = b\<lparr> hb_held := map fst ?keep \<rparr>"
    using assms(3) drain_spec [OF enc(1,2)] enc(3) by (auto simp: drain_resolved_def)
  have "of_instrument key (R @ out) @ of_instrument key (map (recovered \<circ> snd) ?keep)
      = of_instrument key (map (recovered \<circ> snd) sent)" for key
    using assms(5) [of key] drain_by_instrument [OF assms(1) enc(1), of key ?r]
    by (simp only: out filter_append append_assoc)
  moreover have "held_inv T b' ?keep" using enc out by (simp add: held_inv_def)
  ultimately show ?thesis using out(2) assms(4) unfolding sub_inv_def by (intro conjI exI [of _ ?keep]) auto
qed

definition good_announcement :: "resolver \<Rightarrow> symbol_announcement \<Rightarrow> bool" where
  "good_announcement T a \<longleftrightarrow>
     (\<exists>i. T (an_id a) = Some i \<and> an_instrument a = encode_instrument i \<and> clean_instrument i)"

lemma apply_announcement_inv:
  assumes "injective_resolver T" "good_announcement T a" "sub_inv T b R sent" "apply_announcement a b = (res, b')"
  shows "\<exists>out. res = Inr out \<and> sub_inv T b' (R @ out) sent
    \<and> dom (hb_resolver b') = insert (an_id a) (dom (hb_resolver b))"
proof -
  obtain i where i: "T (an_id a) = Some i" "an_instrument a = encode_instrument i" "clean_instrument i"
    using assms(2) by (auto simp: good_announcement_def)
  obtain hz where hz: "held_inv T b hz" "set hz \<subseteq> set sent"
      "\<And>key. of_instrument key R @ of_instrument key (map (recovered \<circ> snd) hz)
           = of_instrument key (map (recovered \<circ> snd) sent)"
    using assms(3) by (auto simp: sub_inv_def)
  let ?b = "b\<lparr> hb_resolver := (hb_resolver b)(an_id a \<mapsto> i) \<rparr>"
  obtain out b1 where d: "drain_resolved ?b = (out, b1)" by fastforce
  have "held_inv T ?b hz" using hz(1) i(1) by (auto simp: held_inv_def map_le_def)
  from drain_resolved_inv [OF assms(1) this d hz(2,3)]
  have "sub_inv T b1 (R @ out) sent" "hb_resolver b1 = (hb_resolver b)(an_id a \<mapsto> i)" by simp_all
  moreover have "res = Inr out" "b' = b1"
    using assms(4) i d decode_encode_instrument by (simp_all add: apply_announcement_def resolver_apply_def)
  ultimately show ?thesis by simp
qed

lemma hold_offer_inv:
  assumes "injective_resolver T" "encodes T p ev" "sub_inv T b R sent" "hold_offer p b = (out, b')"
  shows "sub_inv T b' (R @ out) (sent @ [(p, ev)]) \<and> hb_resolver b' = hb_resolver b"
proof -
  obtain hz where hz: "held_inv T b hz" "set hz \<subseteq> set sent"
      "\<And>key. of_instrument key R @ of_instrument key (map (recovered \<circ> snd) hz)
           = of_instrument key (map (recovered \<circ> snd) sent)"
    using assms(3) by (auto simp: sub_inv_def)
  let ?b = "b\<lparr> hb_held := hb_held b @ [p] \<rparr>"
  have "held_inv T ?b (hz @ [(p, ev)])" using hz(1) assms(2) by (auto simp: held_inv_def)
  moreover have "of_instrument key R @ of_instrument key (map (recovered \<circ> snd) (hz @ [(p, ev)]))
      = of_instrument key (map (recovered \<circ> snd) (sent @ [(p, ev)]))" for key
    unfolding map_append filter_append append_assoc [symmetric] hz(3) by (rule refl)
  ultimately show ?thesis
    using drain_resolved_inv [OF assms(1), of ?b "hz @ [(p, ev)]" out b' "sent @ [(p, ev)]" R] hz(2) assms(4)
    by (auto simp: hold_offer_def)
qed

lemma poll_announcements_inv:
  "injective_resolver T \<Longrightarrow> \<forall>a \<in> set as. good_announcement T a \<Longrightarrow> sub_inv T b (R @ evs) sent \<Longrightarrow>
   poll_announcements as evs b = (res, b') \<Longrightarrow>
   \<exists>out. res = Inr out \<and> sub_inv T b' (R @ out) sent \<and> dom (hb_resolver b') = an_id ` set as \<union> dom (hb_resolver b)"
proof (induction as arbitrary: evs b)
  case (Cons a as)
  obtain r1 b1 where a: "apply_announcement a b = (r1, b1)" by fastforce
  obtain out where out: "r1 = Inr out" "sub_inv T b1 (R @ (evs @ out)) sent"
      "dom (hb_resolver b1) = insert (an_id a) (dom (hb_resolver b))"
    using apply_announcement_inv [OF Cons.prems(1) _ Cons.prems(3) a] Cons.prems(2) by auto
  moreover have "poll_announcements as (evs @ out) b1 = (res, b')" using Cons.prems(4) a out(1) by simp
  ultimately show ?case using Cons.IH [OF Cons.prems(1) _ out(2)] Cons.prems(2) by auto
qed auto

lemma poll_data_inv:
  "list_all2 (encodes T) ps es \<Longrightarrow> injective_resolver T \<Longrightarrow> sub_inv T b (R @ evs) sent \<Longrightarrow>
   poll_data ps evs b = (out, b') \<Longrightarrow>
   sub_inv T b' (R @ out) (sent @ zip ps es) \<and> hb_resolver b' = hb_resolver b"
proof (induction ps es arbitrary: evs b sent rule: list_all2_induct)
  case (Cons p ps ev es)
  obtain o1 b1 where h: "hold_offer p b = (o1, b1)" by fastforce
  have "sub_inv T b1 (R @ (evs @ o1)) (sent @ [(p, ev)])" "hb_resolver b1 = hb_resolver b"
    using hold_offer_inv [OF Cons.prems(1) Cons.hyps(1) Cons.prems(2) h] by simp_all
  moreover have "poll_data ps (evs @ o1) b1 = (out, b')" using Cons.prems(3) h by simp
  ultimately show ?case using Cons.IH [OF Cons.prems(1), of b1 "evs @ o1" "sent @ [(p, ev)]"] by simp
qed simp

lemma polls_inv:
  "injective_resolver T \<Longrightarrow> list_all2 (encodes T) (concat (map snd ss)) es \<Longrightarrow>
   \<forall>a \<in> set (concat (map fst ss)). good_announcement T a \<Longrightarrow> sub_inv T b R sent \<Longrightarrow> polls ss b = (out, b') \<Longrightarrow>
   sub_inv T b' (R @ out) (sent @ zip (concat (map snd ss)) es)
   \<and> dom (hb_resolver b') = an_id ` set (concat (map fst ss)) \<union> dom (hb_resolver b)"
proof (induction ss arbitrary: es b R sent out)
  case (Cons s ss)
  obtain as ps where s: "s = (as, ps)" by fastforce
  obtain es1 es2 where es: "es = es1 @ es2" "list_all2 (encodes T) ps es1" "list_all2 (encodes T) (concat (map snd ss)) es2"
    using Cons.prems(2) by (auto simp: s list_all2_append1)
  then have len: "length ps = length es1" by (simp add: list_all2_lengthD)
  obtain r1 b1 where pa: "poll_announcements as [] b = (r1, b1)" by fastforce
  then obtain evs where evs: "r1 = Inr evs" "sub_inv T b1 (R @ evs) sent"
      "dom (hb_resolver b1) = an_id ` set as \<union> dom (hb_resolver b)"
    using poll_announcements_inv [OF Cons.prems(1) _ _ pa, of R sent] Cons.prems(3,4) s by auto
  obtain evs2 b2 where pd: "poll_data ps evs b1 = (evs2, b2)" by fastforce
  note dat = poll_data_inv [OF es(2) Cons.prems(1) evs(2) pd]
  obtain out3 b3 where rest: "polls ss b2 = (out3, b3)" by fastforce
  have fin: "out = evs2 @ out3" "b' = b3" using Cons.prems(5) s pa evs(1) pd rest by (simp_all add: poll_def)
  have "sub_inv T b3 ((R @ evs2) @ out3) ((sent @ zip ps es1) @ zip (concat (map snd ss)) es2)
      \<and> dom (hb_resolver b3) = an_id ` set (concat (map fst ss)) \<union> dom (hb_resolver b2)"
    using Cons.IH [OF Cons.prems(1) es(3), of b2 "R @ evs2" "sent @ zip ps es1" out3] rest fin dat Cons.prems(3) by simp
  then show ?case using fin dat evs(3) len by (auto simp: s es(1))
qed simp

section \<open>End to end\<close>

lemma sink_inv_good:
  "sink_inv k evs \<Longrightarrow> a \<in> set (ik_announcements k) \<Longrightarrow> good_announcement (table_resolver (ik_table k)) a"
  by (fastforce simp: sink_inv_def announces_def good_announcement_def table_resolver_def split: if_splits)

lemma pump_inv:
  assumes "pump terminal evs (ice_sink_new faults) = Some ((acked, rejected), k)" "list_all clean_event evs"
  shows "\<exists>sent. sink_inv k (filter forwarded sent) \<and> prefix sent (upto_terminal terminal evs)
    \<and> (rejected = None \<longrightarrow> sent = upto_terminal terminal evs)"
proof -
  obtain k' where p: "pump_loop terminal evs (ice_sink_new faults) = Some ((acked, rejected), k')" "k = snd (ice_flush k')"
    using assms(1) by (auto simp: pump_def split: option.splits)
  then show ?thesis
    using pump_loop_inv [OF p(1) sink_new_inv assms(2)] flush_inv [of k'] by (metis append_Nil prod.collapse)
qed

text \<open>Successive polls of a subscriber that gets the samples of a sink.\<close>

definition subscribed :: "(symbol_announcement list \<times> payload list) list \<Rightarrow> ice_sink \<Rightarrow> bool" where
  "subscribed ss k \<longleftrightarrow>
     concat (map snd ss) = ik_data k \<and> set (concat (map fst ss)) \<subseteq> set (ik_announcements k)"

lemma polls_sink:
  assumes "sink_inv k sent" "subscribed ss k" "polls ss hold_buffer_new = (out, b)"
  shows "sub_inv (table_resolver (ik_table k)) b out (zip (ik_data k) sent)
    \<and> dom (hb_resolver b) = an_id ` set (concat (map fst ss)) \<and> length (ik_data k) = length sent"
proof -
  let ?T = "table_resolver (ik_table k)"
  have sub: "concat (map snd ss) = ik_data k" "set (concat (map fst ss)) \<subseteq> set (ik_announcements k)"
    using assms(2) by (simp_all add: subscribed_def)
  then have enc: "list_all2 (encodes ?T) (concat (map snd ss)) sent" "injective_resolver ?T"
    using assms(1) table_resolver_injective by (auto simp: sink_inv_def)
  have "\<forall>a \<in> set (concat (map fst ss)). good_announcement ?T a" using sink_inv_good [OF assms(1)] sub(2) by blast
  from polls_inv [OF enc(2,1) this sub_new_inv assms(3)] enc(1)
  show ?thesis using sub(1) by (simp add: hold_buffer_new_def list_all2_lengthD)
qed

lemma of_instrument_sent:
  "length ps = length es \<Longrightarrow>
   of_instrument key (map (recovered \<circ> snd) (zip ps es)) = map recovered (of_instrument key es)"
  by (induction ps es rule: list_induct2) auto

lemma prefix_filter_map: "prefix xs ys \<Longrightarrow> prefix (map f (filter P xs)) (map f (filter P ys))"
  by (auto simp: prefix_def)


lemma nothing_held:
  assumes "sink_inv k sent" "held_inv (table_resolver (ik_table k)) b hz" "set hz \<subseteq> set (zip (ik_data k) sent)"
    and "\<forall>pe \<in> set hz. \<not> ready (hb_resolver b) pe" "an_id ` set (ik_announcements k) \<subseteq> dom (hb_resolver b)"
  shows "hz = []"
proof -
  have "ready (hb_resolver b) pe" if pe: "pe \<in> set hz" for pe
  proof (cases "event_instrument (snd pe) = None")
    case False
    have "fst pe \<in> set (ik_data k)" using pe assms(3) by (metis in_set_zipE prod.collapse subsetD)
    moreover have "table_resolver (ik_table k) (p_symbol (fst pe)) \<noteq> None"
      using assms(2) pe False by (auto simp: held_inv_def encodes_def)
    ultimately have "p_symbol (fst pe) \<in> an_id ` set (ik_announcements k)"
      using assms(1) by (auto simp: sink_inv_def table_ok_def table_resolver_def unat_CONNECTION split: if_splits)
    then show ?thesis using assms(5) by (auto simp: ready_def dom_def)
  qed (simp add: ready_def)
  then show ?thesis using assms(4) by (cases hz) auto
qed


section \<open>A concrete run\<close>

text \<open>Two instruments; the samples reach the subscriber before the announcements do.\<close>

definition demo_btc :: instrument where "demo_btc = instrument_new ''alpaca'' Crypto ''BTC''"

definition demo_eth :: instrument where "demo_eth = instrument_new ''alpaca'' Crypto ''ETH''"

definition demo_tick :: "instrument \<Rightarrow> u64 \<Rightarrow> market_event" where
  "demo_tick i n = Trade \<lparr> t_instrument = i, t_source_ts = 5, t_rx_ts = 6, t_seq = n, t_price = 7, t_size = 1 \<rparr>"

definition demo_gap :: market_event where
  "demo_gap = Control \<lparr> c_source_ts = 8, c_rx_ts = 9, c_seq = 2, c_kind = Gap ''alpaca'' demo_btc (gap_span_of 5 8) \<rparr>"

definition demo_transport_events :: "market_event list" where
  "demo_transport_events = [demo_tick demo_btc 0, demo_tick demo_eth 0, demo_tick demo_btc 1, demo_gap,
     Control \<lparr> c_source_ts = 8, c_rx_ts = 9, c_seq = 3, c_kind = ProviderConnected ''alpaca'' \<rparr>]"

definition demo_tick_pod :: "symbol_id \<Rightarrow> u64 \<Rightarrow> payload" where
  "demo_tick_pod s n = (blank 0 s 5 6 n)\<lparr> p_a := 7, p_size0 := 1 \<rparr>"

definition demo_gap_pod :: payload where
  "demo_gap_pod = (blank 3 0 8 9 2)\<lparr> p_a := 5, p_b := 8 \<rparr>"

definition demo_announce :: "symbol_id \<Rightarrow> instrument \<Rightarrow> symbol_announcement" where
  "demo_announce s i = \<lparr> an_id = s, an_instrument = encode_instrument i \<rparr>"

definition demo_ice_sink :: ice_sink where
  "demo_ice_sink =
     \<lparr> ik_table = \<lparr> st_forward = [(demo_btc, 0), (demo_eth, 1)], st_reverse = [demo_btc, demo_eth] \<rparr>,
       ik_announced = [1, 0], ik_data = [demo_tick_pod 0 0, demo_tick_pod 1 0, demo_tick_pod 0 1, demo_gap_pod],
       ik_announcements = [demo_announce 0 demo_btc, demo_announce 1 demo_eth, demo_announce 0 demo_btc, demo_announce 1 demo_eth],
       ik_sends = 4, ik_faults = [] \<rparr>"

definition demo_polls :: "(symbol_announcement list \<times> payload list) list" where
  "demo_polls =
     [([], [demo_tick_pod 0 0, demo_tick_pod 1 0]), ([demo_announce 1 demo_eth], [demo_tick_pod 0 1]),
      ([demo_announce 0 demo_btc], [demo_gap_pod])]"

lemmas demo_transport_defs = demo_transport_events_def demo_tick_def demo_gap_def demo_btc_def demo_eth_def
  demo_ice_sink_def demo_tick_pod_def demo_gap_pod_def demo_announce_def instrument_new_def encode_instrument_def blank_def

lemmas transport_run_defs = spawn_pump_def pump_def ice_publish_def ice_deliver_def with_symbol_def intern_def
  control_to_pod_def ice_sink_new_def symbol_table_new_def Let_def announce_if_new_def send_announcement_def
  send_data_def next_fault_def announcement_def ice_flush_def republish_all_announcements_def announcements_def
  SYMBOL_STRING_CAPACITY_def CONNECTION_def REANNOUNCE_INTERVAL_def

lemma demo_spawn_pump:
  "spawn_pump demo_transport_events (ice_sink_new []) = Some ((demo_transport_events, None), demo_ice_sink)"
  by (simp add: demo_transport_defs transport_run_defs upt_rec)

lemma demo_clean: "list_all clean_event demo_transport_events"
  by code_simp

lemma demo_subscribed:
  "subscribed demo_polls demo_ice_sink"
  "an_id ` set (ik_announcements demo_ice_sink) \<subseteq> an_id ` set (concat (map fst demo_polls))"
  by (simp_all add: subscribed_def demo_polls_def demo_ice_sink_def demo_announce_def)



end
