(* ===== verification/Civil_Time.thy ===== *)
theory Civil_Time
  imports Decimal "HOL-Library.Signed_Division"
begin

text \<open>
  Timestamps in the daemon's configuration file: \<^verbatim>\<open>parse_rfc3339_nanos\<close> and \<^verbatim>\<open>days_from_civil\<close> of
  \<^verbatim>\<open>datamancerd/src/config.rs\<close>, with every plain \<^verbatim>\<open>i64\<close> operation wrapping as a release build
  computes it, against a calendar that counts days one year and one month at a time.
\<close>

section \<open>Plain i64 arithmetic\<close>

definition wrap_i64 :: "int \<Rightarrow> i64" where
  "wrap_i64 x = (x + 2 ^ 63) mod 2 ^ 64 - 2 ^ 63"

lemma wrap_i64_exact [simp]: "in_i64 x \<Longrightarrow> wrap_i64 x = x"
  by (simp add: wrap_i64_def in_i64_def i64_min_def i64_max_def)

text \<open>\<^verbatim>\<open>str::parse::<i64>\<close>: an optional sign, then digits whose value fits.\<close>

definition parse_i64 :: "string \<Rightarrow> i64 option" where
  "parse_i64 s =
     (let (neg, ds) = (case s of
          c # cs \<Rightarrow> if c = CHR ''-'' then (True, cs) else if c = CHR ''+'' then (False, cs) else (False, s)
        | [] \<Rightarrow> (False, []));
        v = (if neg then - int (read_digits ds) else int (read_digits ds)) in
      if all_digits ds then checked_i64 v else None)"

section \<open>The parser\<close>

definition days_from_civil :: "i64 \<Rightarrow> i64 \<Rightarrow> i64 \<Rightarrow> i64 option" where
  "days_from_civil year month day =
     (if \<not> (1 \<le> month \<and> month \<le> 12) then None
      else
        let leap = year smod 4 = 0 \<and> (year smod 100 \<noteq> 0 \<or> year smod 400 = 0);
            max_day = (if month \<in> {1, 3, 5, 7, 8, 10, 12} then 31
                       else if month \<in> {4, 6, 9, 11} then 30
                       else if leap then 29 else 28)
        in
        if \<not> (1 \<le> day \<and> day \<le> max_day) then None
        else
          let y = (if month \<le> 2 then wrap_i64 (year - 1) else year);
              era = (if y \<ge> 0 then y else wrap_i64 (y - 399)) sdiv 400;
              yoe = wrap_i64 (y - wrap_i64 (era * 400));
              mp = (month + 9) smod 12;
              doy = (153 * mp + 2) sdiv 5 + day - 1;
              doe = wrap_i64 (wrap_i64 (wrap_i64 (wrap_i64 (yoe * 365) + yoe sdiv 4) - yoe sdiv 100) + doy)
          in Some (wrap_i64 (wrap_i64 (wrap_i64 (era * 146097) + doe) - 719468)))"

text \<open>The \<^verbatim>\<open>{f:0<9}\<close> padding of the fraction.\<close>

definition pad_right :: "nat \<Rightarrow> string \<Rightarrow> string" where
  "pad_right width f = f @ replicate (width - length f) CHR ''0''"

definition nanos_frac :: "string option \<Rightarrow> i64 option" where
  "nanos_frac frac = (case frac of
     None \<Rightarrow> Some 0
   | Some f \<Rightarrow>
       if f = [] \<or> length f > 9 \<or> \<not> list_all is_ascii_digit f then None
       else parse_i64 (pad_right 9 f))"

text \<open>Exactly three parts, all of which parse, as the two iterator walks require.\<close>

definition three_parts :: "char \<Rightarrow> string \<Rightarrow> (i64 \<times> i64 \<times> i64) option" where
  "three_parts sep s = (case split_on sep s of
     [a, b, c] \<Rightarrow> (case parse_i64 a of None \<Rightarrow> None | Some x \<Rightarrow>
                 (case parse_i64 b of None \<Rightarrow> None | Some y \<Rightarrow>
                  map_option (\<lambda>z. (x, y, z)) (parse_i64 c)))
   | _ \<Rightarrow> None)"

definition instant :: "i64 \<Rightarrow> i64 \<Rightarrow> i64 \<Rightarrow> i64 \<Rightarrow> i64 \<Rightarrow> i64 option" where
  "instant days hour minute second nanos =
     Option.bind (Option.bind (checked_mul_i64 days 86400)
         (\<lambda>s. checked_add_i64 s (hour * 3600 + minute * 60 + second)))
       (\<lambda>secs. Option.bind (checked_mul_i64 secs 1000000000) (\<lambda>n. checked_add_i64 n nanos))"

definition parse_rfc3339_nanos :: "string \<Rightarrow> i64 option" where
  "parse_rfc3339_nanos s =
     Option.bind (strip_suffix ''Z'' s) (\<lambda>s.
     Option.bind (split_once CHR ''T'' s) (\<lambda>(date, time).
     Option.bind (three_parts CHR ''-'' date) (\<lambda>(year, month, day).
     let (hms, frac) = (case split_once CHR ''.'' time of
         Some (hms, frac) \<Rightarrow> (hms, Some frac) | None \<Rightarrow> (time, None)) in
     Option.bind (three_parts CHR '':'' hms) (\<lambda>(hour, minute, second).
     if \<not> (0 \<le> hour \<and> hour \<le> 23) \<or> \<not> (0 \<le> minute \<and> minute \<le> 59) \<or> \<not> (0 \<le> second \<and> second \<le> 59)
     then None
     else
     Option.bind (nanos_frac frac) (\<lambda>nf.
     Option.bind (days_from_civil year month day) (\<lambda>days. instant days hour minute second nf))))))"

section \<open>The calendar, counted\<close>

definition is_leap :: "nat \<Rightarrow> bool" where
  "is_leap y \<longleftrightarrow> 4 dvd y \<and> (\<not> 100 dvd y \<or> 400 dvd y)"

primrec days_before_year :: "nat \<Rightarrow> int" where
  "days_before_year 0 = 0"
| "days_before_year (Suc y) = days_before_year y + (if is_leap y then 366 else 365)"

definition month_lengths :: "bool \<Rightarrow> int list" where
  "month_lengths leap = [31, if leap then 29 else 28, 31, 30, 31, 30, 31, 31, 30, 31, 30, 31]"

definition valid_date :: "nat \<Rightarrow> nat \<Rightarrow> nat \<Rightarrow> bool" where
  "valid_date y m d \<longleftrightarrow> 1 \<le> m \<and> m \<le> 12 \<and> 1 \<le> d \<and> int d \<le> month_lengths (is_leap y) ! (m - 1)"

text \<open>Days from 1970-01-01: whole years, whole months, days of the month.\<close>

definition calendar_days :: "nat \<Rightarrow> nat \<Rightarrow> nat \<Rightarrow> int" where
  "calendar_days y m d =
     days_before_year y + sum_list (take (m - 1) (month_lengths (is_leap y))) + int d - 1 - 719528"

section \<open>Closed form of the calendar\<close>

definition civil :: "int \<Rightarrow> int" where
  "civil y = 365 * y + y div 4 - y div 100 + y div 400"

lemma div_pred_step: "0 < c \<Longrightarrow> y div c - (y - 1) div c = (if c dvd y then 1 else (0 :: int))"
proof -
  assume c: "0 < c"
  show ?thesis
  proof (cases "c dvd y")
    case True
    then obtain k where k: "y = c * k" by auto
    have "(c * k - 1) div c = k - 1"
      using c by (intro int_div_pos_eq [where r = "c - 1"]) (auto simp: algebra_simps)
    then show ?thesis using True c k by simp
  next
    case False
    then have r: "0 < y mod c" using c by (metis dvd_eq_mod_eq_0 pos_mod_sign order_le_less)
    have "(y - 1) div c = y div c"
      using c r pos_mod_bound [OF c, of y]
      by (intro int_div_pos_eq [where r = "y mod c - 1"]) (auto simp: algebra_simps)
    then show ?thesis using False by simp
  qed
qed

lemma int_dvd_numeral [simp]:
  "4 dvd int y \<longleftrightarrow> 4 dvd y" "100 dvd int y \<longleftrightarrow> 100 dvd y" "400 dvd int y \<longleftrightarrow> 400 dvd y"
  using of_nat_dvd_iff [where 'a = int, of 4 y] of_nat_dvd_iff [where 'a = int, of 100 y]
    of_nat_dvd_iff [where 'a = int, of 400 y] by simp_all

lemma leap_dvd: "400 dvd (y :: nat) \<Longrightarrow> 100 dvd y" "100 dvd y \<Longrightarrow> 4 dvd y"
  by presburger+

lemma civil_step: "civil (int y) = civil (int y - 1) + (if is_leap y then 366 else 365)"
  using div_pred_step [of 4 "int y"] div_pred_step [of 100 "int y"] div_pred_step [of 400 "int y"]
  by (auto simp: civil_def is_leap_def algebra_simps dest: leap_dvd split: if_splits)

lemma days_before_year_civil: "days_before_year y = civil (int y - 1) + 366"
proof (induction y)
  case 0
  then show ?case by (simp add: civil_def)
next
  case (Suc y)
  then show ?case using civil_step [of y] by simp
qed

text \<open>Within one 400-year era the source counts the same days.\<close>

lemma civil_era:
  assumes "y = 400 * era + yoe" "0 \<le> yoe" "yoe < 400"
  shows "era * 146097 + (yoe * 365 + yoe div 4 - yoe div 100) = civil y"
proof -
  have "y div 4 = 100 * era + yoe div 4" "y div 100 = 4 * era + yoe div 100" "y div 400 = era"
    using assms by simp_all
  then show ?thesis using assms by (simp add: civil_def)
qed

section \<open>The optimised count is the calendar\<close>

lemma sdiv_nonneg [simp]: "0 \<le> k \<Longrightarrow> 0 < l \<Longrightarrow> k sdiv l = k div (l :: int)"
  by (cases "k = 0") (auto simp: signed_divide_int_def)

lemma smod_nonneg [simp]: "0 \<le> k \<Longrightarrow> 0 < l \<Longrightarrow> k smod l = k mod (l :: int)"
  by (cases "k = 0") (auto simp: signed_modulo_int_def)

text \<open>The era arithmetic of \<^verbatim>\<open>days_from_civil\<close>, from the shifted year on.\<close>

definition era_days :: "i64 \<Rightarrow> i64 \<Rightarrow> i64" where
  "era_days y doy =
     (let era = (if y \<ge> 0 then y else wrap_i64 (y - 399)) sdiv 400;
          yoe = wrap_i64 (y - wrap_i64 (era * 400));
          doe = wrap_i64 (wrap_i64 (wrap_i64 (wrap_i64 (yoe * 365) + yoe sdiv 4) - yoe sdiv 100) + doy)
      in wrap_i64 (wrap_i64 (wrap_i64 (era * 146097) + doe) - 719468))"

lemma era_days_civil:
  assumes "- 1 \<le> y" "y \<le> 10 ^ 16" "0 \<le> doy" "doy \<le> 400"
  shows "era_days y doy = civil y + doy - 719468"
proof -
  have era: "(if y \<ge> 0 then y else wrap_i64 (y - 399)) sdiv 400 = y div 400"
  proof (cases "y \<ge> 0")
    case False
    then have "y = - 1" using assms by simp
    then show ?thesis by (simp add: signed_divide_int_def rust_int)
  qed simp
  define e where "e = y div 400"
  define yoe where "yoe = y mod 400"
  have y: "y = 400 * e + yoe" "0 \<le> yoe" "yoe < 400" by (simp_all add: e_def yoe_def)
  have e: "- 1 \<le> e" "e \<le> 10 ^ 16" using assms y(2,3) unfolding y(1) by simp_all
  have q: "0 \<le> yoe div 4" "yoe div 4 \<le> 100" "0 \<le> yoe div 100" "yoe div 100 \<le> 4"
    using y(2,3) by simp_all
  have e25: "e \<le> 25000000000000" using assms(2) y(1,2) by simp
  have "era_days y doy = e * 146097 + (yoe * 365 + yoe div 4 - yoe div 100) + doy - 719468"
    unfolding era_days_def era Let_def e_def [symmetric]
    using y e e25 q assms(3,4) by (simp add: in_i64_def i64_min_def i64_max_def)
  also have "\<dots> = civil y + doy - 719468" using civil_era [OF y] by simp
  finally show ?thesis .
qed

lemma days_from_civil_alt:
  "days_from_civil year month day =
     (if \<not> (1 \<le> month \<and> month \<le> 12) then None
      else if \<not> (1 \<le> day \<and> day \<le> (if month \<in> {1, 3, 5, 7, 8, 10, 12} then 31
               else if month \<in> {4, 6, 9, 11} then 30
               else if year smod 4 = 0 \<and> (year smod 100 \<noteq> 0 \<or> year smod 400 = 0) then 29 else 28)) then None
      else Some (era_days (if month \<le> 2 then wrap_i64 (year - 1) else year)
             ((153 * ((month + 9) smod 12) + 2) sdiv 5 + day - 1)))"
  unfolding days_from_civil_def era_days_def Let_def by (rule refl)

lemma leap_code:
  "int y smod 4 = 0 \<and> (int y smod 100 \<noteq> 0 \<or> int y smod 400 = 0) \<longleftrightarrow> is_leap y"
  by (simp add: is_leap_def dvd_eq_mod_eq_0 [symmetric])

lemma month_cases:
  "1 \<le> (m :: nat) \<Longrightarrow> m \<le> 12 \<Longrightarrow>
   m = 1 \<or> m = 2 \<or> m = 3 \<or> m = 4 \<or> m = 5 \<or> m = 6 \<or> m = 7 \<or> m = 8 \<or> m = 9 \<or> m = 10 \<or> m = 11 \<or> m = 12"
  by presburger

lemma valid_date_code:
  assumes "1 \<le> m" "m \<le> 12"
  shows "valid_date y m d \<longleftrightarrow> 1 \<le> int d \<and> int d \<le> (if int m \<in> {1, 3, 5, 7, 8, 10, 12} then 31
      else if int m \<in> {4, 6, 9, 11} then 30 else if is_leap y then 29 else 28)"
  using month_cases [OF assms] by (elim disjE) (auto simp: valid_date_def month_lengths_def)

lemma days_from_civil_nat:
  assumes "1 \<le> m" "m \<le> 12"
  shows "days_from_civil (int y) (int m) (int d) =
    (if valid_date y m d
     then Some (era_days (if int m \<le> 2 then wrap_i64 (int y - 1) else int y)
             ((153 * ((int m + 9) smod 12) + 2) sdiv 5 + int d - 1))
     else None)"
proof -
  have m: "1 \<le> int m \<and> int m \<le> 12" using assms by simp
  have *: "(if \<not> A then None else if \<not> V then None else Some x) = (if V then Some x else None)"
    if "A" for A V and x :: int using that by simp
  show ?thesis
    unfolding days_from_civil_alt leap_code valid_date_code [OF assms] by (rule * [OF m])
qed

lemma valid_date_day: "valid_date y m d \<Longrightarrow> 1 \<le> d \<and> d \<le> 31"
  using month_cases [of m] by (auto simp: valid_date_def month_lengths_def split: if_splits)

lemma calendar_days_civil:
  assumes "1 \<le> m" "m \<le> 12"
  shows "calendar_days y m d =
     civil (if m \<le> 2 then int y - 1 else int y) + ((153 * ((int m + 9) mod 12) + 2) div 5 + int d - 1) - 719468"
  using month_cases [OF assms] civil_step [of y]
  by (elim disjE) (simp_all add: calendar_days_def days_before_year_civil month_lengths_def split: if_splits)

lemma days_from_civil_is_calendar_eq:
  "y \<le> 10 ^ 16 \<Longrightarrow>
   days_from_civil (int y) (int m) (int d) = (if valid_date y m d then Some (calendar_days y m d) else None)"
proof -
  assume y: "y \<le> 10 ^ 16"
  show ?thesis
  proof (cases "1 \<le> m \<and> m \<le> 12")
    case False
    then show ?thesis by (auto simp: days_from_civil_def valid_date_def)
  next
    case True
    then have m: "1 \<le> m" "m \<le> 12" by simp_all
    show ?thesis
    proof (cases "valid_date y m d")
      case False
      then show ?thesis by (simp add: days_from_civil_nat [OF m])
    next
      case True
      define doy where "doy = (153 * ((int m + 9) mod 12) + 2) div 5 + int d - 1"
      have doy: "0 \<le> doy" "doy \<le> 400"
        using valid_date_day [OF True] m by (auto simp: doy_def)
      have "days_from_civil (int y) (int m) (int d) =
          Some (era_days (if m \<le> 2 then int y - 1 else int y) doy)"
        using True y by (simp add: days_from_civil_nat [OF m] doy_def rust_int)
      then show ?thesis
        using True m y doy calendar_days_civil [OF m, of y d]
          era_days_civil [of "if m \<le> 2 then int y - 1 else int y" doy]
        by (simp add: doy_def)
    qed
  qed
qed

text \<open>C33: For every year up to ten quadrillion \<^verbatim>\<open>days_from_civil\<close> refuses exactly the dates that are
  not in the calendar and otherwise returns the number of days counted year by year and month by
  month from 1970-01-01.\<close>

theorem days_from_civil_is_calendar:
  "y \<le> 10 ^ 16 \<Longrightarrow>
   days_from_civil (int y) (int m) (int d) = (if valid_date y m d then Some (calendar_days y m d) else None)"
  by (rule days_from_civil_is_calendar_eq)

theorem days_from_civil_is_calendar_witness:
  "(2000 :: nat) \<le> 10 ^ 16 \<and> days_from_civil 2000 2 29 = Some (calendar_days 2000 2 29)"
  using days_from_civil_is_calendar [of 2000 2 29]
  by (simp add: valid_date_def month_lengths_def is_leap_def)

section \<open>Printed timestamps\<close>

definition two_digits :: "nat \<Rightarrow> string" where
  "two_digits n = pad_zeros 2 (show_nat n)"

text \<open>The \<^verbatim>\<open>YYYY-MM-DDTHH:MM:SS[.frac]Z\<close> form.\<close>

definition rfc3339 :: "nat \<Rightarrow> nat \<Rightarrow> nat \<Rightarrow> nat \<Rightarrow> nat \<Rightarrow> nat \<Rightarrow> string option \<Rightarrow> string" where
  "rfc3339 y mo d h mi s frac =
     ((pad_zeros 4 (show_nat y) @ CHR ''-'' # two_digits mo @ CHR ''-'' # two_digits d) @
      CHR ''T'' # (two_digits h @ CHR '':'' # two_digits mi @ CHR '':'' # two_digits s) @
      (case frac of None \<Rightarrow> [] | Some f \<Rightarrow> CHR ''.'' # f)) @ ''Z''"

definition frac_ok :: "string option \<Rightarrow> bool" where
  "frac_ok frac \<longleftrightarrow> (case frac of None \<Rightarrow> True | Some f \<Rightarrow> all_digits f \<and> length f \<le> 9)"

definition frac_nanos :: "string option \<Rightarrow> nat" where
  "frac_nanos frac = (case frac of None \<Rightarrow> 0 | Some f \<Rightarrow> read_digits f * 10 ^ (9 - length f))"

lemma parse_i64_digits: "all_digits s \<Longrightarrow> parse_i64 s = checked_i64 (int (read_digits s))"
  by (auto simp: parse_i64_def all_digits_def is_ascii_digit_def split: list.splits)

lemma padded_digits: "all_digits (pad_zeros w (show_nat n))"
  by (simp add: pad_zeros_digits show_nat_digits)

lemma padded_clean: "\<not> is_ascii_digit c \<Longrightarrow> c \<notin> set (pad_zeros w (show_nat n))"
  using digits_not_in padded_digits by blast

lemma parse_padded [simp]: "parse_i64 (pad_zeros w (show_nat n)) = checked_i64 (int n)"
  by (simp add: parse_i64_digits padded_digits)

lemma marks_not_digits [simp]:
  "\<not> is_ascii_digit CHR ''-''" "\<not> is_ascii_digit CHR '':''" "\<not> is_ascii_digit CHR ''T''" "\<not> is_ascii_digit CHR ''.''"
  by (simp_all add: is_ascii_digit_def)

lemma split_on_three:
  assumes "\<not> is_ascii_digit c"
  shows "split_on c (pad_zeros v (show_nat a) @ c # two_digits b @ c # two_digits e) =
    [pad_zeros v (show_nat a), two_digits b, two_digits e]"
  using assms by (simp add: split_on_append split_on_none padded_clean two_digits_def)

lemma checked_three:
  "three_parts c s = (case split_on c s of
     [a, b, e] \<Rightarrow> Option.bind (parse_i64 a) (\<lambda>x. Option.bind (parse_i64 b) (\<lambda>y.
        Option.bind (parse_i64 e) (\<lambda>z. Some (x, y, z))))
   | _ \<Rightarrow> None)"
  by (auto simp: three_parts_def map_option_case split: list.splits option.splits)

lemma three_parts_text:
  assumes "\<not> is_ascii_digit c"
  shows "three_parts c (pad_zeros v (show_nat a) @ c # two_digits b @ c # two_digits e) =
    (if in_i64 (int a) \<and> in_i64 (int b) \<and> in_i64 (int e) then Some (int a, int b, int e) else None)"
  using assms by (simp add: checked_three split_on_three) (simp add: two_digits_def checked_i64_def)

lemma read_pad_right: "read_digits (f @ replicate k CHR ''0'') = read_digits f * 10 ^ k"
proof (induction k)
  case (Suc k)
  have "f @ replicate (Suc k) CHR ''0'' = (f @ replicate k CHR ''0'') @ [CHR ''0'']"
    by (simp add: replicate_append_same)
  then show ?case using Suc by (simp only: read_digits_snoc) (simp add: digit_value_def)
qed simp

lemma read_digits_bound: "list_all is_ascii_digit s \<Longrightarrow> read_digits s < 10 ^ length s"
proof (induction s rule: rev_induct)
  case (snoc c s)
  then show ?case by (auto simp: digit_value_def is_ascii_digit_def)
qed simp

lemma frac_nanos_bound: "frac_ok frac \<Longrightarrow> frac_nanos frac < 10 ^ 9"
proof (cases frac)
  case (Some f)
  assume "frac_ok frac"
  then have f: "read_digits f < 10 ^ length f" "length f \<le> 9"
    using Some read_digits_bound by (auto simp: frac_ok_def all_digits_def)
  then have "read_digits f * 10 ^ (9 - length f) < 10 ^ length f * 10 ^ (9 - length f)" by simp
  also have "\<dots> = (10 :: nat) ^ 9" using f(2) by (simp flip: power_add)
  finally show ?thesis using Some by (simp add: frac_nanos_def)
qed (simp add: frac_nanos_def)

lemma nanos_frac_text: "frac_ok frac \<Longrightarrow> nanos_frac frac = Some (int (frac_nanos frac))"
proof (cases frac)
  case (Some f)
  assume ok: "frac_ok frac"
  have d: "all_digits (pad_right 9 f)"
    using ok Some by (auto simp: frac_ok_def all_digits_def pad_right_def list_all_iff is_ascii_digit_def)
  have v: "read_digits (pad_right 9 f) = frac_nanos frac"
    using Some by (simp add: frac_nanos_def pad_right_def read_pad_right)
  have "parse_i64 (pad_right 9 f) = Some (int (frac_nanos frac))"
    using frac_nanos_bound [OF ok] by (simp add: parse_i64_digits [OF d] v rust_int)
  then show ?thesis using ok Some by (auto simp: nanos_frac_def frac_ok_def all_digits_def)
qed (simp add: nanos_frac_def frac_nanos_def)

lemma split_time:
  assumes "CHR ''.'' \<notin> set hms"
  shows "(case split_once CHR ''.'' (hms @ (case frac of None \<Rightarrow> [] | Some f \<Rightarrow> CHR ''.'' # f)) of
      Some (hms, frac) \<Rightarrow> (hms, Some frac)
    | None \<Rightarrow> (hms @ (case frac of None \<Rightarrow> [] | Some f \<Rightarrow> CHR ''.'' # f), None)) = (hms, frac)"
  using assms by (cases frac) simp_all

text \<open>What the parser computes on printed text, in terms of \<^verbatim>\<open>days_from_civil\<close>.\<close>

lemma parse_text:
  assumes "frac_ok frac" "in_i64 (int y)"
  shows "parse_rfc3339_nanos (rfc3339 y mo d h mi s frac) =
    (if h \<le> 23 \<and> mi \<le> 59 \<and> s \<le> 59 then
       (case if in_i64 (int mo) \<and> in_i64 (int d) then days_from_civil (int y) (int mo) (int d) else None of
          None \<Rightarrow> None
        | Some days \<Rightarrow> instant days (int h) (int mi) (int s) (int (frac_nanos frac)))
     else None)"
proof -
  define date where "date = pad_zeros 4 (show_nat y) @ CHR ''-'' # two_digits mo @ CHR ''-'' # two_digits d"
  define hms where "hms = two_digits h @ CHR '':'' # two_digits mi @ CHR '':'' # two_digits s"
  have T: "CHR ''T'' \<notin> set date" and dot: "CHR ''.'' \<notin> set hms"
    by (simp_all add: date_def hms_def two_digits_def padded_clean)
  have dt: "three_parts CHR ''-'' date =
      (if in_i64 (int mo) \<and> in_i64 (int d) then Some (int y, int mo, int d) else None)"
    using three_parts_text [of "CHR ''-''" 4 y mo d] assms(2) by (simp add: date_def)
  have hm: "three_parts CHR '':'' hms =
      (if in_i64 (int h) \<and> in_i64 (int mi) \<and> in_i64 (int s) then Some (int h, int mi, int s) else None)"
    using three_parts_text [of "CHR '':''" 2 h mi s] by (simp add: hms_def two_digits_def)
  have small: "in_i64 (int n)" if "n \<le> 59" for n using that by (simp add: rust_int)
  have clock: "h \<le> 23 \<and> mi \<le> 59 \<and> s \<le> 59 \<Longrightarrow> in_i64 (int h) \<and> in_i64 (int mi) \<and> in_i64 (int s)"
    by (simp add: small)
  show ?thesis
    unfolding parse_rfc3339_nanos_def rfc3339_def strip_suffix_append date_def [symmetric] hms_def [symmetric]
      bind.bind_lunit split_once_append [OF T] prod.case split_time [OF dot] Let_def nanos_frac_text [OF assms(1)] dt hm
    using clock by (cases "h \<le> 23 \<and> mi \<le> 59 \<and> s \<le> 59") (auto split: option.splits)
qed

definition calendar_seconds :: "nat \<Rightarrow> nat \<Rightarrow> nat \<Rightarrow> nat \<Rightarrow> nat \<Rightarrow> nat \<Rightarrow> int" where
  "calendar_seconds y mo d h mi s = calendar_days y mo d * 86400 + int h * 3600 + int mi * 60 + int s"

definition valid_clock :: "nat \<Rightarrow> nat \<Rightarrow> nat \<Rightarrow> bool" where
  "valid_clock h mi s \<longleftrightarrow> h \<le> 23 \<and> mi \<le> 59 \<and> s \<le> 59"

text \<open>The intermediate products overflow only when the number of nanoseconds does.\<close>

lemma instant_exact:
  assumes "0 \<le> hour" "hour \<le> 23" "0 \<le> minute" "minute \<le> 59" "0 \<le> second" "second \<le> 59"
  shows "instant days hour minute second nanos =
    (let secs = days * 86400 + hour * 3600 + minute * 60 + second in
     if in_i64 (secs * 1000000000) \<and> in_i64 (secs * 1000000000 + nanos)
     then Some (secs * 1000000000 + nanos) else None)"
proof -
  define clock where "clock = hour * 3600 + minute * 60 + second"
  have c: "0 \<le> clock" "clock < 86400" using assms by (simp_all add: clock_def)
  have "in_i64 (days * 86400) \<and> in_i64 (days * 86400 + clock)"
    if "in_i64 ((days * 86400 + clock) * 1000000000)"
    using that c by (auto simp: rust_int)
  then show ?thesis
    by (auto simp: instant_def clock_def [symmetric] add.assoc [symmetric] Let_def checked_mul_i64_def
        checked_add_i64_def checked_i64_def simp flip: clock_def)
       (auto simp: clock_def algebra_simps)
qed

lemma valid_date_small: "valid_date y mo d \<Longrightarrow> in_i64 (int mo) \<and> in_i64 (int d)"
  using valid_date_day [of y mo d] by (auto simp: valid_date_def rust_int)



lemma era_days_overflow: "era_days 50505469855535200 0 = 44202"
proof -
  have "(50505469855535200 :: int) sdiv 400 = 126263674638838" by simp
  moreover have "wrap_i64 (126263674638838 * 400) = 50505469855535200" by (simp add: wrap_i64_def)
  moreover have "wrap_i64 (126263674638838 * 146097) = 763670" by (simp add: wrap_i64_def)
  ultimately show ?thesis by (simp add: era_days_def Let_def rust_int)
qed

text \<open>A release build accepts a timestamp in the year 50505469855535200 as an instant of the year
  2091: the product of the era with the days of an era wraps before the checked operations see it.\<close>

lemma parse_rfc3339_wraps:
  "parse_rfc3339_nanos (rfc3339 50505469855535200 3 1 0 0 0 None) = Some 3819052800000000000"
proof -
  have "in_i64 (int 50505469855535200)" "frac_ok None" by (simp_all add: rust_int frac_ok_def)
  moreover have "days_from_civil (int 50505469855535200) (int 3) (int 1) = Some 44202"
    by (simp add: days_from_civil_alt era_days_overflow)
  moreover have "in_i64 (int 3)" "in_i64 (int 1)" by (simp_all add: rust_int)
  ultimately have "parse_rfc3339_nanos (rfc3339 50505469855535200 3 1 0 0 0 None) =
      instant 44202 (int 0) (int 0) (int 0) (int (frac_nanos None))"
    by (simp only: parse_text simp_thms if_True option.case zero_le)
  then show ?thesis by (simp add: instant_exact Let_def rust_int frac_nanos_def)
qed

end
