(* ===== verification/Control.thy ===== *)
theory Control
  imports Facade Civil_Time
begin

text \<open>
  The vocabulary of the control surface: the wire selectors and specs of \<^verbatim>\<open>spec.rs\<close>, the error
  codes of \<^verbatim>\<open>codes.rs\<close>, requests and replies of \<^verbatim>\<open>protocol/uds.rs\<close> (all of
  \<^verbatim>\<open>datamancer-client\<close>), and the daemon's mapping of library errors (\<^verbatim>\<open>control.rs\<close>). Documents that
  travel as free-form JSON are values of the datatype \<open>json\<close>.
\<close>

section \<open>Selectors\<close>

datatype asset_class_cfg = EquityCfg | CryptoCfg

datatype event_kind_cfg = TradeCfg | QuoteCfg | Bar1s | Bar1m | Bar5m | Bar15m | Bar1h | Bar1d

datatype scope_cfg = LiveCfg | LiveBackfill

datatype persistence_cfg = NoneCfg | Cached | CachedWithTap | ReadOnly | Refresh | TapOnly

fun asset_class_of :: "asset_class_cfg \<Rightarrow> asset_class" where
  "asset_class_of EquityCfg = Equity"
| "asset_class_of CryptoCfg = Crypto"

text \<open>\<^verbatim>\<open>TryFrom<AssetClass>\<close>: the error carries the class that has no selector.\<close>

fun asset_class_try_from :: "asset_class \<Rightarrow> asset_class + asset_class_cfg" where
  "asset_class_try_from Equity = Inr EquityCfg"
| "asset_class_try_from Crypto = Inr CryptoCfg"
| "asset_class_try_from other = Inl other"

fun event_kind_of :: "event_kind_cfg \<Rightarrow> event_kind" where
  "event_kind_of TradeCfg = KTrade"
| "event_kind_of QuoteCfg = KQuote"
| "event_kind_of Bar1s = KBar OneSecond"
| "event_kind_of Bar1m = KBar OneMinute"
| "event_kind_of Bar5m = KBar FiveMinute"
| "event_kind_of Bar15m = KBar FifteenMinute"
| "event_kind_of Bar1h = KBar OneHour"
| "event_kind_of Bar1d = KBar OneDay"

fun event_kind_cfg_of :: "event_kind \<Rightarrow> event_kind_cfg" where
  "event_kind_cfg_of KTrade = TradeCfg"
| "event_kind_cfg_of KQuote = QuoteCfg"
| "event_kind_cfg_of (KBar OneSecond) = Bar1s"
| "event_kind_cfg_of (KBar OneMinute) = Bar1m"
| "event_kind_cfg_of (KBar FiveMinute) = Bar5m"
| "event_kind_cfg_of (KBar FifteenMinute) = Bar15m"
| "event_kind_cfg_of (KBar OneHour) = Bar1h"
| "event_kind_cfg_of (KBar OneDay) = Bar1d"

section \<open>Specs\<close>

record subscription_spec =
  sp_provider :: string
  sp_asset_class :: asset_class_cfg
  sp_symbol :: string
  sp_kind :: event_kind_cfg
  sp_scope :: scope_cfg
  sp_persistence :: persistence_cfg

record unsubscribe_spec =
  us_provider :: string
  us_asset_class :: asset_class_cfg
  us_symbol :: string
  us_kind :: event_kind_cfg

type_synonym query_id = u64

record query_spec =
  qs_provider :: string
  qs_asset_class :: asset_class_cfg
  qs_symbol :: string
  qs_kind :: event_kind_cfg
  qs_from :: timestamp
  qs_to :: timestamp

definition subscription_spec_new :: "instrument \<Rightarrow> event_kind \<Rightarrow> asset_class + subscription_spec" where
  "subscription_spec_new i k =
     (case asset_class_try_from (i_asset_class i) of
        Inl e \<Rightarrow> Inl e
      | Inr ac \<Rightarrow>
          Inr \<lparr> sp_provider = i_provider i, sp_asset_class = ac, sp_symbol = i_symbol i,
                sp_kind = event_kind_cfg_of k, sp_scope = LiveCfg, sp_persistence = NoneCfg \<rparr>)"

definition unsubscribe_spec_new :: "instrument \<Rightarrow> event_kind \<Rightarrow> asset_class + unsubscribe_spec" where
  "unsubscribe_spec_new i k =
     (case asset_class_try_from (i_asset_class i) of
        Inl e \<Rightarrow> Inl e
      | Inr ac \<Rightarrow>
          Inr \<lparr> us_provider = i_provider i, us_asset_class = ac, us_symbol = i_symbol i,
                us_kind = event_kind_cfg_of k \<rparr>)"

definition unsubscribe_spec_of :: "subscription_spec \<Rightarrow> unsubscribe_spec" where
  "unsubscribe_spec_of s =
     \<lparr> us_provider = sp_provider s, us_asset_class = sp_asset_class s, us_symbol = sp_symbol s, us_kind = sp_kind s \<rparr>"

definition query_spec_new ::
  "instrument \<Rightarrow> event_kind \<Rightarrow> timestamp \<Rightarrow> timestamp \<Rightarrow> asset_class + query_spec" where
  "query_spec_new i k from to =
     (case asset_class_try_from (i_asset_class i) of
        Inl e \<Rightarrow> Inl e
      | Inr ac \<Rightarrow>
          Inr \<lparr> qs_provider = i_provider i, qs_asset_class = ac, qs_symbol = i_symbol i,
                qs_kind = event_kind_cfg_of k, qs_from = from, qs_to = to \<rparr>)"

definition spec_instrument :: "subscription_spec \<Rightarrow> instrument" where
  "spec_instrument s = instrument_new (sp_provider s) (asset_class_of (sp_asset_class s)) (sp_symbol s)"

definition query_instrument :: "query_spec \<Rightarrow> instrument" where
  "query_instrument s = instrument_new (qs_provider s) (asset_class_of (qs_asset_class s)) (qs_symbol s)"

section \<open>Requests and replies\<close>

datatype json = JNull | JBool bool | JNum int | JStr string | JArr "json list" | JObj "(string \<times> json) list"

text \<open>\<^verbatim>\<open>ProviderCredentials\<close>; its other shapes are \<open>OtherCredentials\<close>, told apart by their text.\<close>

datatype provider_credentials = ApiKeyPair string string | OtherCredentials string

datatype request =
    OpenClient string "subscription_spec list"
  | Subscribe string subscription_spec
  | Unsubscribe string unsubscribe_spec
  | CloseClient string
  | OpenQuery query_spec
  | CancelQuery query_id
  | ListQueries
  | ListClients
  | Snapshot
  | Instruments "string option"
  | Capabilities string "string list"
  | Ping
  | SetCredentials string provider_credentials
  | GetCredentials string
  | ClearCredentials string
  | GetConfig
  | ConfigureProvider string json
  | RemoveProvider string
  | Shutdown
  | Health

record reply =
  rp_ok :: bool
  rp_service :: "string option"
  rp_clients :: "string list option"
  rp_query :: "query_id option"
  rp_queries :: "query_id list option"
  rp_snapshot :: "system_snapshot option"
  rp_instruments :: "instrument_info list option"
  rp_capabilities :: "instrument_entry list option"
  rp_version :: "string option"
  rp_credentials :: "provider_credentials option"
  rp_credential_backend :: "string option"
  rp_code :: "string option"
  rp_message :: "string option"
  rp_config :: "json option"
  rp_restart_required :: "bool option"
  rp_applied :: "string option"
  rp_health :: "health_view option"

definition reply_ok :: reply where
  "reply_ok =
     \<lparr> rp_ok = True, rp_service = None, rp_clients = None, rp_query = None, rp_queries = None,
       rp_snapshot = None, rp_instruments = None, rp_capabilities = None, rp_version = None,
       rp_credentials = None, rp_credential_backend = None, rp_code = None, rp_message = None,
       rp_config = None, rp_restart_required = None, rp_applied = None, rp_health = None \<rparr>"

definition reply_service :: "string \<Rightarrow> reply" where
  "reply_service name = reply_ok\<lparr> rp_service := Some name \<rparr>"

definition reply_clients :: "string list \<Rightarrow> reply" where
  "reply_clients names = reply_ok\<lparr> rp_clients := Some names \<rparr>"

definition reply_query :: "query_id \<Rightarrow> string \<Rightarrow> reply" where
  "reply_query q service = reply_ok\<lparr> rp_query := Some q, rp_service := Some service \<rparr>"

definition reply_queries :: "query_id list \<Rightarrow> reply" where
  "reply_queries ids = reply_ok\<lparr> rp_queries := Some ids \<rparr>"

definition reply_snapshot :: "system_snapshot \<Rightarrow> reply" where
  "reply_snapshot s = reply_ok\<lparr> rp_snapshot := Some s \<rparr>"

definition reply_instruments :: "instrument_info list \<Rightarrow> reply" where
  "reply_instruments infos = reply_ok\<lparr> rp_instruments := Some infos \<rparr>"

definition reply_capabilities :: "instrument_entry list \<Rightarrow> reply" where
  "reply_capabilities entries = reply_ok\<lparr> rp_capabilities := Some entries \<rparr>"

definition reply_credentials :: "provider_credentials \<Rightarrow> reply" where
  "reply_credentials creds = reply_ok\<lparr> rp_credentials := Some creds \<rparr>"

definition reply_pong :: "string \<Rightarrow> string \<Rightarrow> reply" where
  "reply_pong version backend = reply_ok\<lparr> rp_version := Some version, rp_credential_backend := Some backend \<rparr>"

definition reply_error :: "string \<Rightarrow> string \<Rightarrow> reply" where
  "reply_error code message =
     reply_ok\<lparr> rp_ok := False, rp_code := Some code, rp_message := Some message \<rparr>"

definition reply_config :: "json \<Rightarrow> bool \<Rightarrow> reply" where
  "reply_config config restart_required =
     reply_ok\<lparr> rp_config := Some config, rp_restart_required := Some restart_required \<rparr>"

definition reply_applied_live :: reply where
  "reply_applied_live = reply_ok\<lparr> rp_applied := Some ''live'' \<rparr>"

definition reply_health :: "health_view \<Rightarrow> reply" where
  "reply_health view = reply_ok\<lparr> rp_health := Some view \<rparr>"

section \<open>Error codes\<close>

fun error_code :: "error \<Rightarrow> string" where
  "error_code (LiveSessionConflict _ _) = ''live_session_conflict''"
| "error_code (UnsupportedEventKind _ _ _) = ''unsupported_event_kind''"
| "error_code PersistenceRequired = ''persistence_required''"
| "error_code UnsupportedClientScope = ''unsupported_client_scope''"
| "error_code (DuplicateSubscription _ _) = ''duplicate_subscription''"
| "error_code (NotSubscribed _ _) = ''not_subscribed''"
| "error_code (UnknownProvider _) = ''unknown_provider''"
| "error_code SessionClosed = ''session_closed''"
| "error_code EventsAlreadyTaken = ''events_already_taken''"
| "error_code (Storage _) = ''storage''"
| "error_code (Config _) = ''config''"
| "error_code (Provider _ _) = ''provider''"
| "error_code (Unauthenticated _ _) = ''provider''"
| "error_code (Io _) = ''provider''"

definition reply_from_library_error :: "error \<Rightarrow> reply" where
  "reply_from_library_error e = reply_error (error_code e) (error_display e)"

text \<open>The codes the daemon's own checks answer with.\<close>

definition SHUTTING_DOWN :: string where "SHUTTING_DOWN = ''shutting_down''"
definition UNKNOWN_CLIENT :: string where "UNKNOWN_CLIENT = ''unknown_client''"
definition DUPLICATE_CLIENT :: string where "DUPLICATE_CLIENT = ''duplicate_client''"
definition SERVICE_CAP_EXCEEDED :: string where "SERVICE_CAP_EXCEEDED = ''service_cap_exceeded''"
definition BAD_REQUEST :: string where "BAD_REQUEST = ''bad_request''"
definition INTERNAL :: string where "INTERNAL = ''internal''"
definition UNKNOWN_QUERY :: string where "UNKNOWN_QUERY = ''unknown_query''"
definition PERMISSION_DENIED :: string where "PERMISSION_DENIED = ''permission_denied''"
definition SESSION_CLOSED :: string where "SESSION_CLOSED = ''session_closed''"
definition UNKNOWN_PROVIDER :: string where "UNKNOWN_PROVIDER = ''unknown_provider''"
definition CREDENTIALS_MISSING :: string where "CREDENTIALS_MISSING = ''credentials_missing''"
definition CREDENTIAL_BACKEND_UNAVAILABLE :: string where
  "CREDENTIAL_BACKEND_UNAVAILABLE = ''credential_backend_unavailable''"
definition UNKNOWN_CONFIG_FIELD :: string where "UNKNOWN_CONFIG_FIELD = ''unknown_config_field''"

lemmas codes = SHUTTING_DOWN_def UNKNOWN_CLIENT_def DUPLICATE_CLIENT_def SERVICE_CAP_EXCEEDED_def
  BAD_REQUEST_def INTERNAL_def UNKNOWN_QUERY_def PERMISSION_DENIED_def SESSION_CLOSED_def
  UNKNOWN_PROVIDER_def CREDENTIALS_MISSING_def CREDENTIAL_BACKEND_UNAVAILABLE_def UNKNOWN_CONFIG_FIELD_def

lemmas reply_defs = reply_ok_def reply_service_def reply_clients_def reply_query_def reply_queries_def
  reply_snapshot_def reply_instruments_def reply_capabilities_def reply_credentials_def reply_pong_def
  reply_error_def reply_config_def reply_applied_live_def reply_health_def reply_from_library_error_def

section \<open>Unknown keys\<close>

text \<open>
  The top-level keys a request serializes to: the tag and the fields of its variant, the spec
  flattened in. \<^verbatim>\<open>reject_unknown_keys\<close> compares the keys of the line's object with them.
\<close>

fun canonical_keys :: "request \<Rightarrow> string list" where
  "canonical_keys (OpenClient _ _) = [''op'', ''client'', ''subscriptions'']"
| "canonical_keys (Subscribe _ _) =
     [''op'', ''client'', ''provider'', ''asset_class'', ''symbol'', ''kind'', ''scope'', ''persistence'']"
| "canonical_keys (Unsubscribe _ _) = [''op'', ''client'', ''provider'', ''asset_class'', ''symbol'', ''kind'']"
| "canonical_keys (CloseClient _) = [''op'', ''client'']"
| "canonical_keys (OpenQuery _) = [''op'', ''provider'', ''asset_class'', ''symbol'', ''kind'', ''from'', ''to'']"
| "canonical_keys (CancelQuery _) = [''op'', ''query'']"
| "canonical_keys (Instruments _) = [''op'', ''provider'']"
| "canonical_keys (Capabilities _ _) = [''op'', ''provider'', ''symbols'']"
| "canonical_keys (SetCredentials _ _) = [''op'', ''provider'', ''credentials'']"
| "canonical_keys (GetCredentials _) = [''op'', ''provider'']"
| "canonical_keys (ClearCredentials _) = [''op'', ''provider'']"
| "canonical_keys (ConfigureProvider _ _) = [''op'', ''provider'', ''settings'']"
| "canonical_keys (RemoveProvider _) = [''op'', ''provider'']"
| "canonical_keys _ = [''op'']"

definition reject_unknown_keys :: "string list \<Rightarrow> request \<Rightarrow> string + unit" where
  "reject_unknown_keys input_keys request =
     (case find (\<lambda>key. key \<notin> set (canonical_keys request)) input_keys of
        Some key \<Rightarrow> Inl (''unknown field `'' @ key @ ''`'')
      | None \<Rightarrow> Inr ())"

section \<open>Facts about the vocabulary\<close>

lemma event_kind_selector [simp]: "event_kind_of (event_kind_cfg_of k) = k"
  by (cases k rule: event_kind_cfg_of.cases) simp_all

lemma event_kind_cfg_selector [simp]: "event_kind_cfg_of (event_kind_of c) = c"
  by (cases c) simp_all

lemma asset_class_selector: "asset_class_try_from a = Inr c \<longleftrightarrow> asset_class_of c = a"
  by (cases a; cases c) simp_all

lemma instrument_eta: "instrument_new (i_provider i) (i_asset_class i) (i_symbol i) = i"
  by (simp add: instrument_new_def)

text \<open>A spec built from an instrument names that instrument, with the kind it was built for.\<close>

lemma spec_new_names:
  "subscription_spec_new i k = Inr s \<Longrightarrow> spec_instrument s = i \<and> event_kind_of (sp_kind s) = k"
  "query_spec_new i k from to = Inr q \<Longrightarrow> query_instrument q = i \<and> event_kind_of (qs_kind q) = k"
  by (auto simp: subscription_spec_new_def query_spec_new_def spec_instrument_def query_instrument_def
      asset_class_selector instrument_eta split: sum.splits)

lemma reject_unknown_keys_spec:
  "reject_unknown_keys keys r = Inr () \<longleftrightarrow> set keys \<subseteq> set (canonical_keys r)"
  by (auto simp: reject_unknown_keys_def find_None_iff split: option.splits)
     (metis find_None_iff option.distinct(1) subsetD)

end
