(* ===== verification/Service_Names.thy ===== *)
theory Service_Names
  imports Transport_Plane
begin

text \<open>
  Per-client service names (\<^verbatim>\<open>naming.rs\<close> of \<^verbatim>\<open>datamancer-transport-iceoryx2\<close>). Whether a string is a
  legal iceoryx2 service name is the parameter \<open>valid\<close> (\<open>None\<close> when it is, else the error's debug
  text); \<open>dbg\<close> is the standard library's debug rendering of a string.
\<close>

definition WIRE_VERSION :: nat where "WIRE_VERSION = 3"

definition show_u64 :: "u64 \<Rightarrow> string" where
  "show_u64 w = show_nat (unat w)"

lemma u64_bound: "unat (w :: u64) < 2 ^ 64"
  using unsigned_less [of w] by simp

type_synonym service_prefix = string
type_synonym boot_scoped_prefix = string

record data_service_name =
  dn_prefix :: service_prefix
  dn_client_id :: u64

definition announcement_string :: "string \<Rightarrow> u64 \<Rightarrow> string" where
  "announcement_string pfx client_id =
     pfx @ ''/v'' @ show_nat WIRE_VERSION @ ''/symbols/'' @ show_u64 client_id"

definition service_prefix_new ::
  "(string \<Rightarrow> string option) \<Rightarrow> (string \<Rightarrow> string) \<Rightarrow> string \<Rightarrow> transport_error + service_prefix" where
  "service_prefix_new valid dbg pfx =
     (if pfx = [] then Inl (BadServiceName ''service prefix is empty'')
      else
        let longest = announcement_string pfx u64_max in
        case valid longest of
          Some e \<Rightarrow> Inl (BadServiceName (''prefix '' @ dbg pfx @ '' makes '' @ dbg longest @ '' invalid: '' @ e))
        | None \<Rightarrow> Inr pfx)"

definition boot_scoped ::
  "(string \<Rightarrow> string option) \<Rightarrow> (string \<Rightarrow> string) \<Rightarrow> u64 \<Rightarrow> u32 \<Rightarrow> service_prefix \<Rightarrow> transport_error + boot_scoped_prefix" where
  "boot_scoped valid dbg unix_secs pid pfx =
     service_prefix_new valid dbg (pfx @ ''/'' @ show_u64 unix_secs @ ''-'' @ show_nat (unat pid))"

definition data_service_name_new :: "boot_scoped_prefix \<Rightarrow> u64 \<Rightarrow> data_service_name" where
  "data_service_name_new pfx client_id = \<lparr> dn_prefix = pfx, dn_client_id = client_id \<rparr>"

definition data_service_name_display :: "data_service_name \<Rightarrow> string" where
  "data_service_name_display n =
     dn_prefix n @ ''/v'' @ show_nat WIRE_VERSION @ ''/data/'' @ show_u64 (dn_client_id n)"

text \<open>The two names; \<open>None\<close> when the \<^verbatim>\<open>expect\<close> panics.\<close>

definition service_names :: "(string \<Rightarrow> string option) \<Rightarrow> data_service_name \<Rightarrow> (string \<times> string) option" where
  "service_names valid n =
     (let announcement = announcement_string (dn_prefix n) (dn_client_id n);
          data = data_service_name_display n in
      if valid data = None \<and> valid announcement = None then Some (data, announcement) else None)"

text \<open>\<^verbatim>\<open>str::rfind\<close>: the last position at which the pattern occurs.\<close>

definition rfind :: "string \<Rightarrow> string \<Rightarrow> nat option" where
  "rfind m s =
     (case filter (\<lambda>i. take (length m) (drop i s) = m) [0..<length s + 1] of
        [] \<Rightarrow> None
      | is \<Rightarrow> Some (last is))"

definition data_service_name_from_str ::
  "(string \<Rightarrow> string option) \<Rightarrow> (string \<Rightarrow> string) \<Rightarrow> string \<Rightarrow> transport_error + data_service_name" where
  "data_service_name_from_str valid dbg name =
     (let bad = Inl (BadServiceName (''not a v'' @ show_nat WIRE_VERSION @ '' data-service name: '' @ name));
          marker = ''/v'' @ show_nat WIRE_VERSION @ ''/data/'' in
      case rfind marker name of
        None \<Rightarrow> bad
      | Some at \<Rightarrow>
          let id = drop (at + length marker) name in
          if id = [] \<or> \<not> list_all is_ascii_digit id then bad
          else case parse_u64 id of
            None \<Rightarrow> bad
          | Some client_id \<Rightarrow>
              (case service_prefix_new valid dbg (take at name) of
                 Inl _ \<Rightarrow> bad
               | Inr pfx \<Rightarrow> Inr \<lparr> dn_prefix = pfx, dn_client_id = client_id \<rparr>))"

section \<open>The marker\<close>

lemma show_wire [simp]: "show_nat WIRE_VERSION = ''3''"
  by code_simp

lemma rfind_last:
  assumes "take (length m) (drop n s) = m" "n \<le> length s"
    "\<And>i. n < i \<Longrightarrow> i \<le> length s \<Longrightarrow> take (length m) (drop i s) \<noteq> m"
  shows "rfind m s = Some n"
proof -
  let ?P = "\<lambda>i. take (length m) (drop i s) = m"
  have "[0..<length s + 1] = [0..<n] @ n # [Suc n..<length s + 1]"
    using assms(2) by (metis le_imp_less_Suc Suc_eq_plus1 upt_add_eq_append less_imp_le_nat zero_le upt_conv_Cons
        le_add_diff_inverse add_0)
  then have f: "filter ?P [0..<length s + 1] = filter ?P [0..<n] @ [n]"
    using assms(1,3) by (auto simp: filter_empty_conv simp del: upt_Suc)
  show ?thesis unfolding rfind_def f by (cases "filter ?P [0..<n]") simp_all
qed

text \<open>After a marker only digits follow, so no later position starts another one.\<close>

lemma marker_last:
  assumes "list_all is_ascii_digit ds"
  shows "rfind ''/v3/data/'' (p @ ''/v3/data/'' @ ds) = Some (length p)"
proof (rule rfind_last)
  fix i assume i: "length p < i" "i \<le> length (p @ ''/v3/data/'' @ ds)"
  define j where "j = i - length p"
  have j: "0 < j" using i by (simp add: j_def)
  have d: "drop i (p @ ''/v3/data/'' @ ds) = drop j (''/v3/data/'' @ ds)" using i by (simp add: j_def)
  show "take (length ''/v3/data/'') (drop i (p @ ''/v3/data/'' @ ds)) \<noteq> ''/v3/data/''"
  proof (cases "j < 9")
    case True
    then have "j = 1 \<or> j = 2 \<or> j = 3 \<or> j = 4 \<or> j = 5 \<or> j = 6 \<or> j = 7 \<or> j = 8" using j by linarith
    then show ?thesis unfolding d using assms
      by (elim disjE; simp; cases ds; auto simp: is_ascii_digit_def)
  next
    case False
    have "set (drop j (''/v3/data/'' @ ds)) \<subseteq> set ds"
      using False by (auto simp: drop_append simp del: append_Cons dest: in_set_dropD)
    moreover have "CHR ''/'' \<notin> set ds" using assms by (auto simp: list_all_iff is_ascii_digit_def)
    ultimately have "CHR ''/'' \<notin> set (take (length ''/v3/data/'') (drop j (''/v3/data/'' @ ds)))"
      by (meson in_set_takeD subsetD)
    then show ?thesis unfolding d by (metis list.set_intros(1))
  qed
qed simp_all

section \<open>Names round-trip\<close>

lemma parse_show_u64 [simp]: "parse_u64 (show_u64 w) = Some w"
  using parse_digits [OF show_nat_digits, of "unat w"] u64_bound [of w] by (simp add: show_u64_def)

lemma show_u64_digits: "list_all is_ascii_digit (show_u64 w) \<and> show_u64 w \<noteq> []"
  using show_nat_digits [of "unat w"] by (simp add: show_u64_def all_digits_def)

text \<open>C36: Every name a daemon derives from a validated prefix and advertises is parsed back to the
  same prefix and client id.\<close>

theorem service_name_roundtrip:
  assumes "service_prefix_new valid dbg pfx = Inr pfx"
  shows "data_service_name_from_str valid dbg (data_service_name_display (data_service_name_new pfx w)) =
    Inr (data_service_name_new pfx w)"
  using assms marker_last [of "show_u64 w" pfx] show_u64_digits [of w]
  by (simp add: data_service_name_from_str_def data_service_name_display_def data_service_name_new_def Let_def)

theorem service_name_roundtrip_witness:
  "data_service_name_from_str (\<lambda>_. None) id (data_service_name_display (data_service_name_new ''d/1-2'' 7)) =
     Inr (data_service_name_new ''d/1-2'' 7)"
  by (rule service_name_roundtrip) (simp add: service_prefix_new_def)

section \<open>Derived names are legal\<close>

text \<open>What iceoryx2 documents of \<^verbatim>\<open>ServiceName::new\<close>: it refuses an empty name, the internal
  namespace and an over-long name, nothing else.\<close>

definition documented_names :: "nat \<Rightarrow> (string \<Rightarrow> string option) \<Rightarrow> bool" where
  "documented_names max_len valid \<longleftrightarrow>
     (\<forall>s. valid s = None \<longleftrightarrow> s \<noteq> [] \<and> take 5 s \<noteq> ''iox2_'' \<and> length s \<le> max_len)"

lemma show_nat_length_mono: "m \<le> n \<Longrightarrow> length (show_nat m) \<le> length (show_nat n)"
proof (induction n arbitrary: m rule: less_induct)
  case (less n)
  show ?case
  proof (cases "m < 10")
    case True
    then show ?thesis by (simp add: show_nat.simps [of m] show_nat.simps [of n])
  next
    case False
    then have "length (show_nat (m div 10)) \<le> length (show_nat (n div 10))"
      using less.prems by (intro less.IH div_le_mono) auto
    then show ?thesis using False less.prems by (subst show_nat.simps [of m], subst show_nat.simps [of n]) simp
  qed
qed

lemma show_nat_length: "n < 10 ^ Suc k \<Longrightarrow> length (show_nat n) \<le> Suc k"
proof (induction k arbitrary: n)
  case (Suc k)
  then have "length (show_nat (n div 10)) \<le> Suc k" by (intro Suc.IH) (simp add: less_mult_imp_div_less)
  then show ?case by (subst show_nat.simps) simp
qed (simp add: show_nat.simps)

lemma show_u64_length: "length (show_u64 w) \<le> length (show_u64 u64_max)"
proof -
  have "unat w \<le> 2 ^ 64 - 1" using u64_bound [of w] by simp
  then show ?thesis unfolding show_u64_def u64_max_unat by (rule show_nat_length_mono)
qed

lemma same_head:
  assumes "p \<noteq> []"
  shows "take 5 (p @ ''/v3/'' @ a) = take 5 (p @ ''/v3/'' @ b)"
proof -
  have "5 \<le> length (p @ ''/v3/'')" using assms by (cases p) simp_all
  then show ?thesis by (metis append.assoc append_same_eq take_append diff_is_0_eq take_0)
qed

text \<open>When iceoryx2 accepts names as documented, the conversion that the sink and the subscriber
  unwrap never fails for a name derived from a boot-scoped prefix, whatever the client id.\<close>

lemma service_names_never_panic:
  assumes "documented_names max_len valid" "boot_scoped valid dbg secs pid configured = Inr pfx"
  shows "\<exists>names. service_names valid (data_service_name_new pfx w) = Some names"
proof -
  let ?n = "data_service_name_new pfx w"
  have p: "pfx \<noteq> []" "valid (announcement_string pfx u64_max) = None"
    using assms(2) by (auto simp: boot_scoped_def service_prefix_new_def Let_def split: if_splits option.splits)
  have longest: "take 5 (announcement_string pfx u64_max) \<noteq> ''iox2_''"
      "length (announcement_string pfx u64_max) \<le> max_len"
    using p(2) assms(1) by (auto simp: documented_names_def)
  have "valid (announcement_string pfx w) = None"
    using assms(1) longest p(1) show_u64_length [of w] same_head [OF p(1)]
    by (auto simp: documented_names_def announcement_string_def)
       (metis append_Cons append_Nil)
  moreover have "valid (data_service_name_display ?n) = None"
    using assms(1) longest p(1) show_u64_length [of w] same_head [OF p(1)]
    by (auto simp: documented_names_def announcement_string_def data_service_name_display_def data_service_name_new_def)
       (metis append_Cons append_Nil)
  ultimately show ?thesis by (simp add: service_names_def data_service_name_new_def Let_def)
qed

lemma service_names_never_panic_witness:
  "\<exists>names. service_names (\<lambda>s. if s \<noteq> [] \<and> take 5 s \<noteq> ''iox2_'' \<and> length s \<le> 255 then None else Some ''bad'')
     (data_service_name_new ''d/1-2'' 7) = Some names"
proof (rule service_names_never_panic)
  let ?valid = "\<lambda>s :: string. if s \<noteq> [] \<and> take 5 s \<noteq> ''iox2_'' \<and> length s \<le> 255 then None else Some ''bad''"
  show "documented_names 255 ?valid" by (simp add: documented_names_def)
  have "show_u64 1 = ''1''" "show_nat (unat (2 :: u32)) = ''2''" by code_simp+
  moreover have "length (show_u64 u64_max) \<le> 20"
    using show_nat_length [of "2 ^ 64 - 1" 19] by (simp add: show_u64_def)
  ultimately show "boot_scoped ?valid id 1 2 ''d'' = Inr ''d/1-2''"
    by (simp add: boot_scoped_def service_prefix_new_def announcement_string_def Let_def)
qed

text \<open>The parser accepts a data-service name with leading zeros in its client id, which no name is
  ever displayed with.\<close>

lemma from_str_accepts_leading_zero:
  "data_service_name_from_str (\<lambda>_. None) id ''d/v3/data/007'' = Inr (data_service_name_new ''d'' 7) \<and>
   data_service_name_display (data_service_name_new ''d'' 7) \<noteq> ''d/v3/data/007''"
proof -
  have "rfind ''/v3/data/'' ''d/v3/data/007'' = Some 1"
    using marker_last [of "''007''" "''d''"] by (simp add: is_ascii_digit_def)
  moreover have "parse_u64 ''007'' = Some 7"
    using parse_digits [of "''007''"]
    by (simp add: all_digits_def is_ascii_digit_def read_digits_def digit_value_def)
  moreover have "show_u64 7 = ''7''" by code_simp
  ultimately show ?thesis
    by (simp add: data_service_name_from_str_def data_service_name_display_def data_service_name_new_def
        service_prefix_new_def is_ascii_digit_def Let_def)
qed

end
