(* ===== verification/Daemon.thy ===== *)
theory Daemon
  imports Control Service_Names
begin

text \<open>
  The daemon's actor (\<^verbatim>\<open>datamancerd/src/server.rs\<close>, the unix build): the client and query
  registries and every request the actor answers, over the library facade. A command is handled
  with what the outside gives while it runs: whether the data sink could be created, what each
  authoritative open meets, the clock, and how strings render for debugging.

  A client's sink and pump tasks are the subject of \<open>Transport_Plane\<close>; an entry here keeps the
  fields the actor itself reads. Two history variables: \<open>sv_closing\<close>, the query sessions handed
  to a spawned close, and \<open>sv_closed\<close>, the client sessions the actor closed.
\<close>

section \<open>State\<close>

record client_entry =
  ce_name :: string
  ce_session :: "client_ctl option"
  ce_service :: string

record 'c query_entry =
  qe_session :: "'c controller"
  qe_service :: string

record 'c server =
  sv_dm :: "'c datamancer"
  sv_anchors :: "'c session_variant list"
  sv_clients :: "(string \<times> client_entry) list"
  sv_queries :: "(query_id \<times> 'c query_entry) list"
  sv_max_queries :: nat
  sv_query_persistence :: persistence_options
  sv_next_client_id :: u64
  sv_service_prefix :: boot_scoped_prefix
  sv_max_clients :: nat
  sv_credential_backend :: string
  sv_draining :: bool
  sv_closing :: "(query_id \<times> 'c controller) list"
  sv_closed :: "(string \<times> client_ctl) list"

record 'c answers =
  aw_debug :: "string \<Rightarrow> string"
  aw_sink :: "string option"
  aw_open :: "nat \<Rightarrow> (registry \<Rightarrow> registry) \<times> open_outcome"
  aw_cid :: u64
  aw_now :: timestamp
  aw_now' :: timestamp
  aw_order :: "(instrument \<times> dropped_span) list \<Rightarrow> (instrument \<times> dropped_span) list"
  aw_catalog :: "'c \<Rightarrow> catalog_entry list res"
  aw_keys :: "sub_key list"
  aw_stats :: "auth_id \<Rightarrow> live_stats"
  aw_version :: string

section \<open>Library calls\<close>

fun persistence_options_of :: "persistence_cfg \<Rightarrow> persistence_options" where
  "persistence_options_of NoneCfg = options_none"
| "persistence_options_of Cached = options_cached"
| "persistence_options_of CachedWithTap = with_tap_log True options_cached"
| "persistence_options_of ReadOnly = options_read_only"
| "persistence_options_of Refresh = options_refresh"
| "persistence_options_of TapOnly = with_tap_log True options_none"

text \<open>
  \<^verbatim>\<open>ClientSession::subscribe\<close> on a running session: the client controller checks its own set and
  the scope, then opens the authoritative session through the facade.
\<close>

definition client_subscribe ::
  "(registry \<Rightarrow> registry) \<times> open_outcome \<Rightarrow> instrument \<Rightarrow> event_kind \<Rightarrow> scope \<Rightarrow> persistence_options \<Rightarrow>
   client_ctl \<times> 'c datamancer \<Rightarrow> unit res \<times> client_ctl \<times> 'c datamancer" where
  "client_subscribe env i k sc opts = (\<lambda>(c, dm).
     if map_of (cl_entries c) (i, k) \<noteq> None then (Inl (DuplicateSubscription i k), c, dm)
     else if sc \<noteq> LiveScope None then (Inl UnsupportedClientScope, c, dm)
     else case open_authoritative (fst env) (snd env) i k sc opts dm of
       (Inl e, dm') \<Rightarrow> (case subscribe i k sc opts (Inl e) c of (r, c') \<Rightarrow> (r, c', dm'))
     | (Inr (a, sid), dm') \<Rightarrow>
         let pid = (case rg_store (dm_live_sessions dm') a of Some s \<Rightarrow> au_provider s | None \<Rightarrow> []) in
         (case subscribe i k sc opts (Inr (sid, pid)) c of (r, c') \<Rightarrow> (r, c', dm')))"

definition client_take_events :: "((instrument \<times> dropped_span) list \<Rightarrow> (instrument \<times> dropped_span) list) \<Rightarrow>
   client_ctl \<Rightarrow> unit res \<times> client_ctl" where
  "client_take_events order c =
     (case client_handle_command order CcTake c of (_, RpTake r, c') \<Rightarrow> (r, c') | (_, _, c') \<Rightarrow> (Inr (), c'))"

text \<open>The counters a client session shares with the facade.\<close>

definition share_stats :: "client_ctl \<Rightarrow> 'c datamancer \<Rightarrow> 'c datamancer" where
  "share_stats c dm =
     dm\<lparr> dm_client_sessions := map (\<lambda>(i, st). (i, if i = cs_id (cl_stats c) then cl_stats c else st)) (dm_client_sessions dm) \<rparr>"

definition forget_stats :: "client_ctl \<Rightarrow> 'c datamancer \<Rightarrow> 'c datamancer" where
  "forget_stats c dm = dm\<lparr> dm_client_sessions := AList.delete (cs_id (cl_stats c)) (dm_client_sessions dm) \<rparr>"

definition show_i64 :: "i64 \<Rightarrow> string" where
  "show_i64 x = (if x < 0 then CHR ''-'' # show_nat (nat (- x)) else show_nat (nat x))"

definition timestamp_debug :: "timestamp \<Rightarrow> string" where
  "timestamp_debug t = ''Timestamp('' @ show_i64 t @ '')''"

section \<open>Clients\<close>

fun apply_seeds ::
  "(nat \<Rightarrow> (registry \<Rightarrow> registry) \<times> open_outcome) \<Rightarrow> nat \<Rightarrow> subscription_spec list \<Rightarrow> client_ctl \<times> 'c datamancer \<Rightarrow>
   unit res \<times> client_ctl \<times> 'c datamancer" where
  "apply_seeds env n [] cd = (Inr (), cd)"
| "apply_seeds env n (s # ss) cd =
     (case client_subscribe (env n) (spec_instrument s) (event_kind_of (sp_kind s)) (LiveScope None)
             (persistence_options_of (sp_persistence s)) cd of
        (Inl e, cd') \<Rightarrow> (Inl e, cd')
      | (Inr _, cd') \<Rightarrow> apply_seeds env (n + 1) ss cd')"

definition open_client :: "'c answers \<Rightarrow> string \<Rightarrow> subscription_spec list \<Rightarrow> 'c server \<Rightarrow> reply \<times> 'c server" where
  "open_client w client subscriptions s =
     (if map_of (sv_clients s) client \<noteq> None then
        (reply_error DUPLICATE_CLIENT (''client '' @ aw_debug w client @ '' already open''), s)
      else if length (sv_clients s) \<ge> sv_max_clients s then
        (reply_error SERVICE_CAP_EXCEEDED (''service cap '' @ show_nat (sv_max_clients s) @ '' exceeded''), s)
      else
        let name = data_service_name_new (sv_service_prefix s) (sv_next_client_id s) in
        case aw_sink w of
          Some e \<Rightarrow> (reply_error INTERNAL (''data sink: '' @ e), s)
        | None \<Rightarrow>
            let service = data_service_name_display name;
                opened = open_client_session (aw_cid w) (sv_dm s) in
            case apply_seeds (aw_open w) 0 subscriptions opened of
              (Inl e, c, dm) \<Rightarrow> (reply_from_library_error e, s\<lparr> sv_dm := forget_stats c dm \<rparr>)
            | (Inr _, c, dm) \<Rightarrow>
                (case client_take_events (aw_order w) c of
                   (Inl e, c') \<Rightarrow> (reply_from_library_error e, s\<lparr> sv_dm := forget_stats c' dm \<rparr>)
                 | (Inr _, c') \<Rightarrow>
                     (reply_service service,
                      s\<lparr> sv_dm := share_stats c' dm,
                         sv_next_client_id := sv_next_client_id s + 1,
                         sv_clients := AList.update client
                           \<lparr> ce_name = client, ce_session = Some c', ce_service = service \<rparr> (sv_clients s) \<rparr>)))"

definition subscribe_client :: "'c answers \<Rightarrow> string \<Rightarrow> subscription_spec \<Rightarrow> 'c server \<Rightarrow> reply \<times> 'c server" where
  "subscribe_client w client spec s =
     (case map_of (sv_clients s) client of
        None \<Rightarrow> (reply_error UNKNOWN_CLIENT (''no such client '' @ aw_debug w client), s)
      | Some entry \<Rightarrow>
          (case ce_session entry of
             None \<Rightarrow> (reply_error SESSION_CLOSED ''client session is closing'', s)
           | Some c \<Rightarrow>
               (case client_subscribe (aw_open w 0) (spec_instrument spec) (event_kind_of (sp_kind spec)) (LiveScope None)
                       (persistence_options_of (sp_persistence spec)) (c, sv_dm s) of
                  (r, c', dm) \<Rightarrow>
                    ((case r of Inr _ \<Rightarrow> reply_ok | Inl e \<Rightarrow> reply_from_library_error e),
                     s\<lparr> sv_dm := share_stats c' dm,
                        sv_clients := AList.update client (entry\<lparr> ce_session := Some c' \<rparr>) (sv_clients s) \<rparr>))))"

definition unsubscribe_client :: "'c answers \<Rightarrow> string \<Rightarrow> instrument \<Rightarrow> event_kind \<Rightarrow> 'c server \<Rightarrow> reply \<times> 'c server" where
  "unsubscribe_client w client i k s =
     (case map_of (sv_clients s) client of
        None \<Rightarrow> (reply_error UNKNOWN_CLIENT (''no such client '' @ aw_debug w client), s)
      | Some entry \<Rightarrow>
          (case ce_session entry of
             None \<Rightarrow> (reply_error SESSION_CLOSED ''client session is closing'', s)
           | Some c \<Rightarrow>
               (case unsubscribe (aw_now w) (aw_now' w) i k c of
                  (r, c') \<Rightarrow>
                    ((case r of Inr _ \<Rightarrow> reply_ok | Inl e \<Rightarrow> reply_from_library_error e),
                     s\<lparr> sv_dm := share_stats c' (sv_dm s),
                        sv_clients := AList.update client (entry\<lparr> ce_session := Some c' \<rparr>) (sv_clients s) \<rparr>))))"

text \<open>\<^verbatim>\<open>ClientEntry::close\<close>: the session's controller announces its end and releases every subscription.\<close>

definition close_entry :: "'c answers \<Rightarrow> client_entry \<Rightarrow> client_ctl option" where
  "close_entry w entry =
     map_option (\<lambda>c. snd (client_run (aw_order w) [CiCommand (CcClose (aw_now w) (aw_now' w))] c)) (ce_session entry)"

definition teardown_client :: "'c answers \<Rightarrow> string \<Rightarrow> 'c server \<Rightarrow> 'c server" where
  "teardown_client w client s =
     (case map_of (sv_clients s) client of
        None \<Rightarrow> s
      | Some entry \<Rightarrow>
          let s' = s\<lparr> sv_clients := AList.delete client (sv_clients s) \<rparr> in
          (case close_entry w entry of
             None \<Rightarrow> s'
           | Some c \<Rightarrow> s'\<lparr> sv_dm := forget_stats c (sv_dm s'), sv_closed := sv_closed s' @ [(client, c)] \<rparr>))"

section \<open>Queries\<close>

definition validate_query_open :: "timestamp \<Rightarrow> timestamp \<Rightarrow> nat \<Rightarrow> nat \<Rightarrow> reply option" where
  "validate_query_open from to in_flight max_q =
     (if from > to then
        Some (reply_error BAD_REQUEST
          (''inverted query range: from='' @ timestamp_debug from @ '' > to='' @ timestamp_debug to))
      else if in_flight \<ge> max_q then
        Some (reply_error SERVICE_CAP_EXCEEDED (''query cap '' @ show_nat max_q @ '' exceeded''))
      else None)"

definition close_query_session :: "query_id \<Rightarrow> 'c controller \<Rightarrow> 'c server \<Rightarrow> 'c server" where
  "close_query_session q c s = s\<lparr> sv_closing := sv_closing s @ [(q, c)] \<rparr>"

text \<open>A historical scope opens a historical session; the other variant does not arise.\<close>

definition open_query :: "'c answers \<Rightarrow> query_spec \<Rightarrow> 'c server \<Rightarrow> reply \<times> 'c server" where
  "open_query w spec s =
     (case validate_query_open (qs_from spec) (qs_to spec) (length (sv_queries s)) (sv_max_queries s) of
        Some r \<Rightarrow> (r, s)
      | None \<Rightarrow>
          (case open_session (fst (aw_open w 0)) (snd (aw_open w 0)) (aw_cid w) (query_instrument spec)
                  (event_kind_of (qs_kind spec)) (Historical (qs_from spec) (qs_to spec)) (sv_query_persistence s) (sv_dm s) of
             (Inl e, dm) \<Rightarrow> (reply_from_library_error e, s\<lparr> sv_dm := dm \<rparr>)
           | (Inr (LiveSession _ _ _ _), dm) \<Rightarrow> (reply_error INTERNAL [], s\<lparr> sv_dm := dm \<rparr>)
           | (Inr (HistoricalSession c), dm) \<Rightarrow>
               let id = sv_next_client_id s;
                   s1 = s\<lparr> sv_dm := dm \<rparr>;
                   name = data_service_name_new (sv_service_prefix s) id in
               (case aw_sink w of
                  Some e \<Rightarrow> (reply_error INTERNAL (''query data sink: '' @ e), close_query_session id c s1)
                | None \<Rightarrow>
                    let service = data_service_name_display name in
                    (case historical_take_events c of
                       (Inl e, c') \<Rightarrow> (reply_from_library_error e, close_query_session id c' s1)
                     | (Inr _, c') \<Rightarrow>
                         (reply_query id service,
                          s1\<lparr> sv_next_client_id := id + 1,
                              sv_queries := AList.update id \<lparr> qe_session = c', qe_service = service \<rparr> (sv_queries s) \<rparr>)))))"

definition remove_query :: "query_id \<Rightarrow> 'c query_entry \<Rightarrow> 'c server \<Rightarrow> 'c server" where
  "remove_query q entry s =
     close_query_session q (qe_session entry) (s\<lparr> sv_queries := AList.delete q (sv_queries s) \<rparr>)"

definition cancel_query :: "query_id \<Rightarrow> 'c server \<Rightarrow> reply \<times> 'c server" where
  "cancel_query q s =
     (case map_of (sv_queries s) q of
        Some entry \<Rightarrow> (reply_ok, remove_query q entry s)
      | None \<Rightarrow>
          (reply_error UNKNOWN_QUERY
             (''no in-flight query '' @ show_u64 q @ '' (already finished or cancelled)''), s))"

definition list_queries :: "'c server \<Rightarrow> reply" where
  "list_queries s = reply_queries (sort (map fst (sv_queries s)))"

definition abort_all_queries :: "'c server \<Rightarrow> 'c server" where
  "abort_all_queries s =
     s\<lparr> sv_queries := [], sv_closing := sv_closing s @ map (\<lambda>(q, e). (q, qe_session e)) (sv_queries s) \<rparr>"

section \<open>Dispatch\<close>

definition stamped_health_view :: "string \<Rightarrow> system_snapshot \<Rightarrow> string \<Rightarrow> health_view" where
  "stamped_health_view version snap backend =
     (let view = health_from_snapshot (ss_captured_at snap) (ss_providers snap) (ss_authoritative_sessions snap)
                   DEFAULT_QUIET_AFTER_NS
      in view\<lparr> hv_daemon := (hv_daemon view)\<lparr> dh_version := Some version, dh_credential_backend := Some backend \<rparr> \<rparr>)"

definition dispatch_capabilities :: "'c datamancer \<Rightarrow> string \<Rightarrow> string list \<Rightarrow> reply" where
  "dispatch_capabilities dm provider symbols =
     (case instrument_capabilities provider (map (instrument_new provider Equity) symbols) dm of
        Inr entries \<Rightarrow> reply_capabilities entries
      | Inl e \<Rightarrow> reply_from_library_error e)"

definition dispatch_instruments :: "'c datamancer \<Rightarrow> string option \<Rightarrow> reply" where
  "dispatch_instruments dm provider =
     (case instrument_catalog provider dm of Inr infos \<Rightarrow> reply_instruments infos | Inl e \<Rightarrow> reply_from_library_error e)"

definition dispatch :: "'c answers \<Rightarrow> request \<Rightarrow> 'c server \<Rightarrow> reply \<times> 'c server" where
  "dispatch w request s =
     (if sv_draining s then (reply_error SHUTTING_DOWN ''daemon is shutting down'', s)
      else case request of
        OpenClient client subscriptions \<Rightarrow> open_client w client subscriptions s
      | Subscribe client spec \<Rightarrow> subscribe_client w client spec s
      | Unsubscribe client spec \<Rightarrow>
          unsubscribe_client w client
            (instrument_new (us_provider spec) (asset_class_of (us_asset_class spec)) (us_symbol spec))
            (event_kind_of (us_kind spec)) s
      | CloseClient client \<Rightarrow>
          if map_of (sv_clients s) client \<noteq> None then (reply_ok, teardown_client w client s)
          else (reply_error UNKNOWN_CLIENT (''no such client '' @ aw_debug w client), s)
      | ListClients \<Rightarrow> (reply_clients (map fst (sv_clients s)), s)
      | Ping \<Rightarrow> (reply_pong (aw_version w) (sv_credential_backend s), s)
      | Snapshot \<Rightarrow>
          ((case snapshot (aw_catalog w) (aw_now w) (aw_keys w) (aw_stats w) (sv_dm s) of
              Inr snap \<Rightarrow> reply_snapshot snap
            | Inl e \<Rightarrow> reply_from_library_error e), s)
      | Instruments provider \<Rightarrow> (dispatch_instruments (sv_dm s) provider, s)
      | Capabilities provider symbols \<Rightarrow> (dispatch_capabilities (sv_dm s) provider symbols, s)
      | SetCredentials _ _ \<Rightarrow> (reply_error INTERNAL ''credential ops are dispatched off-actor; this arm is unreachable'', s)
      | GetCredentials _ \<Rightarrow> (reply_error INTERNAL ''credential ops are dispatched off-actor; this arm is unreachable'', s)
      | ClearCredentials _ \<Rightarrow> (reply_error INTERNAL ''credential ops are dispatched off-actor; this arm is unreachable'', s)
      | GetConfig \<Rightarrow> (reply_error INTERNAL ''config ops are dispatched off-actor; this arm is unreachable'', s)
      | ConfigureProvider _ _ \<Rightarrow> (reply_error INTERNAL ''config ops are dispatched off-actor; this arm is unreachable'', s)
      | RemoveProvider _ \<Rightarrow> (reply_error INTERNAL ''config ops are dispatched off-actor; this arm is unreachable'', s)
      | Shutdown \<Rightarrow> (reply_error SHUTTING_DOWN ''daemon is shutting down'', s)
      | OpenQuery spec \<Rightarrow> open_query w spec s
      | CancelQuery query \<Rightarrow> cancel_query query s
      | ListQueries \<Rightarrow> (list_queries s, s)
      | Health \<Rightarrow>
          (reply_health (stamped_health_view (aw_version w)
             (snapshot_live (aw_now w) (aw_keys w) (aw_stats w) (sv_dm s)) (sv_credential_backend s)), s))"

text \<open>
  Commands of the actor's queue; a request carries the connection that awaits its reply. The
  first component of \<open>handle\<close> is false when the run loop breaks.
\<close>

datatype server_command =
    CmdRequest nat request
  | Disconnect string
  | QueryFinished query_id
  | CancelQueries "query_id list"

definition handle :: "'c answers \<Rightarrow> server_command \<Rightarrow> 'c server \<Rightarrow> bool \<times> (nat \<times> reply) option \<times> 'c server" where
  "handle w cmd s =
     (case cmd of
        CmdRequest from request \<Rightarrow>
          if request = Shutdown \<and> \<not> sv_draining s then (False, Some (from, reply_ok), s)
          else (case dispatch w request s of (r, s') \<Rightarrow> (True, Some (from, r), s'))
      | Disconnect client \<Rightarrow> (True, None, teardown_client w client s)
      | QueryFinished q \<Rightarrow>
          (True, None, case map_of (sv_queries s) q of Some entry \<Rightarrow> remove_query q entry s | None \<Rightarrow> s)
      | CancelQueries qs \<Rightarrow> (True, None, foldl (\<lambda>s q. snd (cancel_query q s)) s qs))"

end
