(* ===== verification/Daemon_Inv.thy ===== *)
theory Daemon_Inv
  imports Daemon
begin

text \<open>
  What the actor's registries promise. The abstract view of a server is its clients and queries
  with their service names and the next id; every command refines either one opening of the view
  or a sequence of closings. The invariant of the view (caps, unique names, ids and services) is
  proved once on these steps.
\<close>

section \<open>The abstract registry\<close>

definition svc :: "boot_scoped_prefix \<Rightarrow> u64 \<Rightarrow> string" where
  "svc p i = data_service_name_display (data_service_name_new p i)"

type_synonym view = "(string \<times> string) list \<times> (query_id \<times> string) list \<times> u64"

definition view_of :: "'c server \<Rightarrow> view" where
  "view_of s = (map (\<lambda>(n, e). (n, ce_service e)) (sv_clients s), map (\<lambda>(q, e). (q, qe_service e)) (sv_queries s),
                sv_next_client_id s)"

inductive view_close :: "view \<Rightarrow> view \<Rightarrow> bool" where
  close_client: "view_close (cv, qv, n) (filter (\<lambda>(m, _). m \<noteq> name) cv, qv, n)"
| end_query: "view_close (cv, qv, n) (cv, filter (\<lambda>(r, _). r \<noteq> q) qv, n)"

inductive view_open :: "boot_scoped_prefix \<Rightarrow> nat \<Rightarrow> nat \<Rightarrow> view \<Rightarrow> view \<Rightarrow> bool"
  for p :: boot_scoped_prefix and mc :: nat and mq :: nat where
  open_client: "name \<notin> fst ` set cv \<Longrightarrow> length cv < mc \<Longrightarrow>
    view_open p mc mq (cv, qv, n) (cv @ [(name, svc p n)], qv, n + 1)"
| open_query: "length qv < mq \<Longrightarrow> view_open p mc mq (cv, qv, n) (cv, AList.update n (svc p n) qv, n + 1)"

text \<open>What no command changes.\<close>

definition same_config :: "'c server \<Rightarrow> 'c server \<Rightarrow> bool" where
  "same_config s s' \<longleftrightarrow> sv_service_prefix s' = sv_service_prefix s \<and> sv_max_clients s' = sv_max_clients s \<and>
     sv_max_queries s' = sv_max_queries s \<and> sv_draining s' = sv_draining s \<and>
     sv_query_persistence s' = sv_query_persistence s \<and> sv_anchors s' = sv_anchors s \<and>
     sv_credential_backend s' = sv_credential_backend s"

lemma same_config_refl [simp]: "same_config s s"
  by (simp add: same_config_def)

lemma same_config_trans: "same_config a b \<Longrightarrow> same_config b c \<Longrightarrow> same_config a c"
  by (simp add: same_config_def)

lemma map_update_new:
  "map_of xs k = None \<Longrightarrow> map (\<lambda>(k, v). (k, f v)) (AList.update k v xs) = map (\<lambda>(k, v). (k, f v)) xs @ [(k, f v)]"
  by (induction xs) (auto split: if_splits)

lemma map_update_same:
  "map_of xs k = Some v \<Longrightarrow> f v' = f v \<Longrightarrow>
   map (\<lambda>(k, v). (k, f v)) (AList.update k v' xs) = map (\<lambda>(k, v). (k, f v)) xs"
  by (induction xs) (auto split: if_splits)

lemma map_update: "map (\<lambda>(k, v). (k, f v)) (AList.update k v xs) = AList.update k (f v) (map (\<lambda>(k, v). (k, f v)) xs)"
  by (induction xs) auto

lemma map_delete: "map (\<lambda>(k, v). (k, f v)) (AList.delete k xs) = filter (\<lambda>(m, _). m \<noteq> k) (map (\<lambda>(k, v). (k, f v)) xs)"
  by (induction xs) auto

lemma delete_absent: "map_of xs k = None \<Longrightarrow> AList.delete k xs = xs"
  by (simp add: map_of_eq_None_iff AList.delete_id)

section \<open>Each operation refines a step of the view\<close>

text \<open>An operation that answers an error, or changes neither registry, leaves the view alone.\<close>

lemma open_client_effect:
  assumes "open_client w client subs s = (r, s')"
  shows "same_config s s' \<and> sv_queries s' = sv_queries s \<and> rp_query r = None \<and>
    (if rp_ok r then map_of (sv_clients s) client = None \<and> length (sv_clients s) < sv_max_clients s \<and>
        sv_next_client_id s' = sv_next_client_id s + 1 \<and>
        (\<exists>c. sv_clients s' = AList.update client
           \<lparr> ce_name = client, ce_session = Some c, ce_service = svc (sv_service_prefix s) (sv_next_client_id s) \<rparr> (sv_clients s))
     else sv_clients s' = sv_clients s \<and> sv_next_client_id s' = sv_next_client_id s)"
  using assms unfolding open_client_def same_config_def svc_def Let_def
  by (auto simp: reply_defs split: if_splits option.splits prod.splits sum.splits)

lemma client_subscribe_error: "client_subscribe env i k sc opts (c, dm) = (Inl e, c', dm') \<Longrightarrow> c' = c"
  by (auto simp: client_subscribe_def subscribe_def Let_def split: if_splits prod.splits sum.splits)

lemma subscribe_client_effect:
  assumes "subscribe_client w client spec s = (r, s')"
  shows "same_config s s' \<and> sv_queries s' = sv_queries s \<and> rp_query r = None \<and> sv_next_client_id s' = sv_next_client_id s \<and>
    (sv_clients s' = sv_clients s \<or> (\<exists>e c. map_of (sv_clients s) client = Some e \<and>
        sv_clients s' = AList.update client (e\<lparr> ce_session := Some c \<rparr>) (sv_clients s)))"
  using assms unfolding subscribe_client_def same_config_def
  by (auto simp: reply_defs split: option.splits prod.splits sum.splits)

lemma unsubscribe_client_effect:
  assumes "unsubscribe_client w client i k s = (r, s')"
  shows "same_config s s' \<and> sv_queries s' = sv_queries s \<and> rp_query r = None \<and> sv_next_client_id s' = sv_next_client_id s \<and>
    (sv_clients s' = sv_clients s \<or> (\<exists>e c. map_of (sv_clients s) client = Some e \<and>
        sv_clients s' = AList.update client (e\<lparr> ce_session := Some c \<rparr>) (sv_clients s)))"
  using assms unfolding unsubscribe_client_def same_config_def
  by (auto simp: reply_defs split: option.splits prod.splits sum.splits)

lemma teardown_client_effect:
  "same_config s (teardown_client w client s) \<and> sv_queries (teardown_client w client s) = sv_queries s \<and>
   sv_next_client_id (teardown_client w client s) = sv_next_client_id s \<and>
   sv_clients (teardown_client w client s) = AList.delete client (sv_clients s)"
  by (auto simp: teardown_client_def same_config_def Let_def delete_absent split: option.splits)

lemma open_query_effect:
  assumes "open_query w spec s = (r, s')"
  shows "same_config s s' \<and> sv_clients s' = sv_clients s \<and>
    (if rp_ok r then rp_query r = Some (sv_next_client_id s) \<and> length (sv_queries s) < sv_max_queries s \<and>
        sv_next_client_id s' = sv_next_client_id s + 1 \<and>
        (\<exists>c. sv_queries s' = AList.update (sv_next_client_id s)
           \<lparr> qe_session = c, qe_service = svc (sv_service_prefix s) (sv_next_client_id s) \<rparr> (sv_queries s))
     else sv_queries s' = sv_queries s \<and> sv_next_client_id s' = sv_next_client_id s)"
  using assms unfolding open_query_def validate_query_open_def same_config_def svc_def Let_def
  by (auto simp: reply_defs close_query_session_def
      split: if_splits option.splits prod.splits sum.splits session_variant.splits)

lemma remove_query_fields [simp]:
  "sv_queries (remove_query q e s) = AList.delete q (sv_queries s)" "sv_clients (remove_query q e s) = sv_clients s"
  "sv_next_client_id (remove_query q e s) = sv_next_client_id s" "same_config s (remove_query q e s)"
  by (simp_all add: remove_query_def close_query_session_def same_config_def)

lemma cancel_query_effect:
  assumes "cancel_query q s = (r, s')"
  shows "same_config s s' \<and> sv_clients s' = sv_clients s \<and> sv_next_client_id s' = sv_next_client_id s \<and>
    sv_queries s' = AList.delete q (sv_queries s) \<and> rp_query r = None \<and>
    (rp_ok r \<or> rp_code r = Some UNKNOWN_QUERY)"
  using assms unfolding cancel_query_def
  by (auto simp: reply_defs delete_absent split: option.splits)

section \<open>Commands\<close>

lemma view_same:
  "sv_clients s' = sv_clients s \<Longrightarrow> sv_queries s' = sv_queries s \<Longrightarrow> sv_next_client_id s' = sv_next_client_id s \<Longrightarrow>
   view_of s' = view_of s"
  by (simp add: view_of_def)

lemma view_session_update:
  "map_of (sv_clients s) client = Some e \<Longrightarrow> sv_clients s' = AList.update client (e\<lparr> ce_session := c \<rparr>) (sv_clients s) \<Longrightarrow>
   sv_queries s' = sv_queries s \<Longrightarrow> sv_next_client_id s' = sv_next_client_id s \<Longrightarrow> view_of s' = view_of s"
  by (simp add: view_of_def map_update_same [where f = ce_service])

lemma view_delete_client:
  "sv_clients s' = AList.delete client (sv_clients s) \<Longrightarrow> sv_queries s' = sv_queries s \<Longrightarrow>
   sv_next_client_id s' = sv_next_client_id s \<Longrightarrow> view_close (view_of s) (view_of s')"
  using view_close.close_client by (simp add: view_of_def map_delete [where f = ce_service])

lemma view_delete_query:
  "sv_queries s' = AList.delete q (sv_queries s) \<Longrightarrow> sv_clients s' = sv_clients s \<Longrightarrow>
   sv_next_client_id s' = sv_next_client_id s \<Longrightarrow> view_close (view_of s) (view_of s')"
  using view_close.end_query by (simp add: view_of_def map_delete [where f = qe_service])

abbreviation opens :: "'c server \<Rightarrow> view \<Rightarrow> view \<Rightarrow> bool" where
  "opens s \<equiv> view_open (sv_service_prefix s) (sv_max_clients s) (sv_max_queries s)"

definition refines_view :: "'c server \<Rightarrow> 'c server \<Rightarrow> bool" where
  "refines_view s s' \<longleftrightarrow> same_config s s' \<and>
     (opens s (view_of s) (view_of s') \<or> view_close\<^sup>*\<^sup>* (view_of s) (view_of s'))"

lemma refines_same: "same_config s s' \<Longrightarrow> view_of s' = view_of s \<Longrightarrow> refines_view s s'"
  by (simp add: refines_view_def)

lemma refines_close: "same_config s s' \<Longrightarrow> view_close (view_of s) (view_of s') \<Longrightarrow> refines_view s s'"
  by (auto simp: refines_view_def)

lemma open_client_refines:
  assumes "open_client w client subs s = (r, s')"
  shows "refines_view s s'"
proof (cases "rp_ok r")
  case True
  let ?cv = "map (\<lambda>(n, e). (n, ce_service e)) (sv_clients s)"
  have eff: "map_of (sv_clients s) client = None" "length (sv_clients s) < sv_max_clients s"
    using open_client_effect [OF assms] True by simp_all
  then have "client \<notin> fst ` set ?cv" by (force simp: map_of_eq_None_iff)
  then have "opens s (view_of s) (view_of s')"
    using open_client_effect [OF assms] True eff view_open.open_client [of client ?cv "sv_max_clients s"]
    by (auto simp: view_of_def map_update_new [OF eff(1), where f = ce_service])
  then show ?thesis using open_client_effect [OF assms] by (simp add: refines_view_def)
next
  case False
  then show ?thesis using open_client_effect [OF assms] by (auto intro: refines_same view_same)
qed

lemma open_query_refines:
  assumes "open_query w spec s = (r, s')"
  shows "refines_view s s'"
proof (cases "rp_ok r")
  case True
  then have "opens s (view_of s) (view_of s')"
    using open_query_effect [OF assms]
      view_open.open_query [of "map (\<lambda>(q, e). (q, qe_service e)) (sv_queries s)" "sv_max_queries s"]
    by (auto simp: view_of_def map_update [where f = qe_service])
  then show ?thesis using open_query_effect [OF assms] by (simp add: refines_view_def)
next
  case False
  then show ?thesis using open_query_effect [OF assms] by (auto intro: refines_same view_same)
qed

lemma remove_query_refines: "refines_view s (remove_query q e s)"
  by (rule refines_close) (auto intro: view_delete_query)

lemma dispatch_refines:
  assumes "dispatch w request s = (r, s')"
  shows "refines_view s s'"
proof (cases "sv_draining s")
  case True
  then show ?thesis using assms by (auto simp: dispatch_def intro: refines_same)
next
  case False
  show ?thesis
  proof (cases request)
    case (OpenClient c subs)
    then show ?thesis using assms False open_client_refines by (auto simp: dispatch_def)
  next
    case (Subscribe c spec)
    then show ?thesis
      using assms False subscribe_client_effect [of w c spec s r s']
      by (auto simp: dispatch_def intro: refines_same view_same view_session_update)
  next
    case (Unsubscribe c spec)
    then show ?thesis
      using assms False unsubscribe_client_effect [of w c _ _ s r s']
      by (fastforce simp: dispatch_def intro: refines_same view_same view_session_update)
  next
    case (CloseClient c)
    then show ?thesis
      using assms False teardown_client_effect [of s w c]
      by (auto simp: dispatch_def intro: refines_same refines_close view_delete_client split: if_splits)
  next
    case (OpenQuery spec)
    then show ?thesis using assms False open_query_refines by (auto simp: dispatch_def)
  next
    case (CancelQuery q)
    then show ?thesis
      using assms False cancel_query_effect [of q s r s']
      by (auto simp: dispatch_def intro: refines_close view_delete_query)
  qed (use assms False in \<open>auto simp: dispatch_def intro: refines_same\<close>)
qed

lemma cancel_all_closes:
  "view_close\<^sup>*\<^sup>* (view_of s) (view_of (foldl (\<lambda>s q. snd (cancel_query q s)) s qs)) \<and>
   same_config s (foldl (\<lambda>s q. snd (cancel_query q s)) s qs)"
proof (induction qs arbitrary: s)
  case (Cons q qs)
  obtain r s' where c: "cancel_query q s = (r, s')" by fastforce
  have "view_close (view_of s) (view_of s')" "same_config s s'"
    using cancel_query_effect [OF c] by (auto intro: view_delete_query)
  then show ?case using Cons [of s'] c by (auto intro: converse_rtranclp_into_rtranclp same_config_trans)
qed simp

text \<open>Every command the actor handles refines the abstract registry: it performs one opening, of a
  client whose name is free below the client cap or of a query below the query cap, under the
  service name of the next id, or it only closes; caps, prefix and the draining flag stay.\<close>

lemma handle_refines:
  "handle w cmd s = (go, out, s') \<Longrightarrow> refines_view s s'"
proof (cases cmd)
  case (CmdRequest conn request)
  assume "handle w cmd s = (go, out, s')"
  then show ?thesis
    using CmdRequest dispatch_refines [of w request s]
    by (auto simp: handle_def intro: refines_same split: if_splits prod.splits)
next
  case (Disconnect client)
  assume "handle w cmd s = (go, out, s')"
  then show ?thesis
    using Disconnect teardown_client_effect [of s w client]
    by (auto simp: handle_def intro: refines_close view_delete_client)
next
  case (QueryFinished q)
  assume "handle w cmd s = (go, out, s')"
  then show ?thesis
    using QueryFinished
    by (auto simp: handle_def intro: refines_same remove_query_refines split: option.splits)
next
  case (CancelQueries qs)
  assume "handle w cmd s = (go, out, s')"
  then show ?thesis
    using CancelQueries cancel_all_closes [of s qs] by (auto simp: handle_def refines_view_def)
qed

section \<open>The registry invariant\<close>

definition view_ok :: "boot_scoped_prefix \<Rightarrow> nat \<Rightarrow> nat \<Rightarrow> nat \<Rightarrow> view \<Rightarrow> bool" where
  "view_ok p mc mq bound = (\<lambda>(cv, qv, n).
     distinct (map fst cv) \<and> distinct (map fst qv) \<and> length cv \<le> mc \<and> length qv \<le> mq \<and> unat n \<le> bound \<and>
     distinct (map snd cv @ map snd qv) \<and>
     (\<forall>(_, s) \<in> set cv. \<exists>i < n. s = svc p i) \<and> (\<forall>(q, s) \<in> set qv. q < n \<and> s = svc p q))"

lemma svc_inj [simp]: "svc p i = svc p j \<longleftrightarrow> i = j"
proof
  assume "svc p i = svc p j"
  then have "parse_u64 (show_u64 i) = parse_u64 (show_u64 j)"
    by (simp add: svc_def data_service_name_display_def data_service_name_new_def del: parse_show_u64)
  then show "i = j" by simp
qed simp

lemma view_ok_filter:
  assumes "view_ok p mc mq b (cv, qv, n)"
  shows "view_ok p mc mq b (filter P cv, filter Q qv, n)"
proof -
  have "snd ` set (filter P cv) \<inter> snd ` set (filter Q qv) \<subseteq> snd ` set cv \<inter> snd ` set qv" by auto
  moreover have "snd ` set cv \<inter> snd ` set qv = {}" using assms by (simp add: view_ok_def)
  ultimately have "snd ` set (filter P cv) \<inter> snd ` set (filter Q qv) = {}" by blast
  then show ?thesis
    using assms order_trans [OF length_filter_le, of cv mc P] order_trans [OF length_filter_le, of qv mq Q]
    by (simp add: view_ok_def distinct_map_filter) blast
qed

lemma view_ok_close: "view_close v v' \<Longrightarrow> view_ok p mc mq b v \<Longrightarrow> view_ok p mc mq b v'"
proof (induction rule: view_close.induct)
  case (close_client cv qv n name)
  then show ?case using view_ok_filter [where Q = "\<lambda>_. True"] by simp
next
  case (end_query cv qv n q)
  then show ?case using view_ok_filter [where P = "\<lambda>_. True"] by simp
qed

lemma view_ok_closes: "view_close\<^sup>*\<^sup>* v v' \<Longrightarrow> view_ok p mc mq b v \<Longrightarrow> view_ok p mc mq b v'"
  by (induction rule: rtranclp_induct) (auto intro: view_ok_close)

lemma view_ok_mono: "view_ok p mc mq b v \<Longrightarrow> b \<le> b' \<Longrightarrow> view_ok p mc mq b' v"
  by (auto simp: view_ok_def)

lemma u64_next: "unat (n :: u64) < 2 ^ 64 - 1 \<Longrightarrow> unat (n + 1) = unat n + 1 \<and> n < n + 1"
  by (simp add: unat_word_ariths word_less_nat_alt)

lemma view_ok_open:
  assumes "view_open p mc mq v v'" "view_ok p mc mq b v" "b < 2 ^ 64 - 1"
  shows "view_ok p mc mq (b + 1) v'"
  using assms(1)
proof cases
  case (open_client name cv qv n)
  have n: "unat (n + 1) = unat n + 1" "n < n + 1" using assms(2,3) open_client u64_next [of n] by (auto simp: view_ok_def)
  then have "i < n \<Longrightarrow> i < n + 1" for i by (metis order_less_trans)
  then show ?thesis using assms(2) open_client n by (fastforce simp: view_ok_def)
next
  case (open_query qv cv n)
  have n: "unat (n + 1) = unat n + 1" "n < n + 1" using assms(2,3) open_query u64_next [of n] by (auto simp: view_ok_def)
  then have mono: "i < n \<Longrightarrow> i < n + 1" for i by (metis order_less_trans)
  have "n \<notin> fst ` set qv" using assms(2) open_query by (force simp: view_ok_def)
  then have "AList.update n (svc p n) qv = qv @ [(n, svc p n)]"
    using map_update_new [where f = id, of qv n] by (simp add: map_of_eq_None_iff)
  then show ?thesis using assms(2) open_query n mono by (fastforce simp: view_ok_def)
qed

definition registry_ok :: "nat \<Rightarrow> 'c server \<Rightarrow> bool" where
  "registry_ok b s \<longleftrightarrow> view_ok (sv_service_prefix s) (sv_max_clients s) (sv_max_queries s) b (view_of s)"

lemma registry_ok_refines:
  assumes "refines_view s s'" "registry_ok b s" "b < 2 ^ 64 - 1"
  shows "registry_ok (b + 1) s'"
  using assms view_ok_open view_ok_closes view_ok_mono [of _ _ _ b _ "b + 1"]
  unfolding refines_view_def registry_ok_def same_config_def by (metis le_add1)

end
