(* ===== verification/Daemon_Config.thy ===== *)
theory Daemon_Config
  imports Daemon
begin

text \<open>
  The daemon's configuration (\<^verbatim>\<open>datamancerd/src/config.rs\<close>): the document, its defaults and
  cross-section validation, the resolution of startup sessions and of the query policy, and the
  lexical path comparison. A path is its text with forward slashes; the platform data directory
  is the parameter \<open>data_dir\<close>.
\<close>

section \<open>The document\<close>

datatype account_type_cfg = Paper | LiveAccount
datatype history_feed_cfg = IexFeed | SipFeed
datatype crypto_venue_cfg = Us | UsKraken | EuKraken
datatype storage_backend = Embedded | Memory
datatype log_format = TextLog | JsonLog

record alpaca_section =
  al_account_type :: account_type_cfg
  al_history_feed :: "history_feed_cfg option"

record alpaca_crypto_section =
  ac_account_type :: account_type_cfg
  ac_venue :: crypto_venue_cfg

record provider_config =
  pc_alpaca :: "alpaca_section option"
  pc_alpaca_crypto :: "alpaca_crypto_section option"

record storage_config =
  sc_backend :: storage_backend
  sc_path :: "string option"

record session_config =
  sn_resume_buffer_events :: nat
  sn_adjustment :: adjustment
  sn_query_persistence :: persistence_cfg

record server_config =
  sr_admin_socket :: string
  sr_service_prefix :: string
  sr_shutdown_timeout_secs :: nat
  sr_allow_any_integrity :: bool

record diagnostics_config =
  dg_publish_interval_ms :: nat
  dg_cache_catalog_interval_ms :: nat

record iceoryx2_config =
  ic_max_clients :: nat
  ic_max_queries :: nat

record web_ui_config =
  wu_enabled :: bool
  wu_bind :: string
  wu_port :: nat
  wu_assets_dir :: "string option"
  wu_live_state_cadence_ms :: nat
  wu_cache_catalog_cadence_ms :: nat

record ws_config =
  ws_enabled :: bool
  ws_bind :: string
  ws_port :: nat
  ws_auth_token :: "string option"
  ws_channel_depth :: nat
  ws_max_connections :: nat
  ws_keepalive_secs :: nat

record startup_session =
  st_provider :: string
  st_asset_class :: asset_class_cfg
  st_symbol :: string
  st_kind :: event_kind_cfg
  st_scope :: scope_cfg
  st_backfill_from :: "string option"
  st_persistence :: persistence_cfg
  st_always_on :: bool

record log_config =
  lg_level :: string
  lg_format :: log_format

record config =
  cf_provider :: provider_config
  cf_cache :: "storage_config option"
  cf_tap_log :: "storage_config option"
  cf_session :: session_config
  cf_server :: server_config
  cf_diagnostics :: diagnostics_config
  cf_iceoryx2 :: iceoryx2_config
  cf_web_ui :: "web_ui_config option"
  cf_ws :: "ws_config option"
  cf_startup_session :: "startup_session list"
  cf_log :: log_config

section \<open>Defaults\<close>

definition session_default :: session_config where
  "session_default = \<lparr> sn_resume_buffer_events = 65536, sn_adjustment = All, sn_query_persistence = Cached \<rparr>"

text \<open>\<open>control_socket\<close> is the well-known path of the client library, when there is one.\<close>

definition server_default :: "string option \<Rightarrow> server_config" where
  "server_default control_socket =
     \<lparr> sr_admin_socket = (case control_socket of Some p \<Rightarrow> p | None \<Rightarrow> ''/run/datamancer/control.sock''),
       sr_service_prefix = ''datamancerd'', sr_shutdown_timeout_secs = 30, sr_allow_any_integrity = False \<rparr>"

definition diagnostics_default :: diagnostics_config where
  "diagnostics_default = \<lparr> dg_publish_interval_ms = 1000, dg_cache_catalog_interval_ms = 30000 \<rparr>"

definition iceoryx2_default :: iceoryx2_config where
  "iceoryx2_default = \<lparr> ic_max_clients = 64, ic_max_queries = 2 \<rparr>"

definition log_default :: log_config where
  "log_default = \<lparr> lg_level = ''info'', lg_format = TextLog \<rparr>"

text \<open>The document an empty file parses to.\<close>

definition config_default :: "string option \<Rightarrow> config" where
  "config_default control_socket =
     \<lparr> cf_provider = \<lparr> pc_alpaca = None, pc_alpaca_crypto = None \<rparr>, cf_cache = None, cf_tap_log = None,
       cf_session = session_default, cf_server = server_default control_socket, cf_diagnostics = diagnostics_default,
       cf_iceoryx2 = iceoryx2_default, cf_web_ui = None, cf_ws = None, cf_startup_session = [], cf_log = log_default \<rparr>"

section \<open>Errors\<close>

datatype daemon_error =
    ConfigRead string
  | ConfigParse string
  | ConfigInvalid string
  | ConfigSerialize string
  | Library error
  | TransportFailed string
  | CredentialStoreFailed string
  | IoFailed string
  | AlreadyRunning "nat option"

type_synonym 'a dres = "daemon_error + 'a"

section \<open>Paths\<close>

datatype path_component = RootDir | CurDir | ParentDir | Normal string

text \<open>
  \<^verbatim>\<open>Path::components\<close>: a leading slash is the root; empty parts and single dots are skipped, except
  a dot that starts the path.
\<close>

definition component_of :: "string \<Rightarrow> path_component option" where
  "component_of part =
     (if part = [] \<or> part = ''.'' then None else if part = ''..'' then Some ParentDir else Some (Normal part))"

definition path_components :: "string \<Rightarrow> path_component list" where
  "path_components path =
     (case split_on CHR ''/'' path of
        [] \<Rightarrow> []
      | first # rest \<Rightarrow>
          (if first = [] \<and> path \<noteq> [] then [RootDir]
           else if first = ''.'' then [CurDir]
           else case component_of first of None \<Rightarrow> [] | Some c \<Rightarrow> [c]) @ List.map_filter component_of rest)"

text \<open>\<^verbatim>\<open>PathBuf::pop\<close>: the root and the empty path have no parent.\<close>

definition path_pop :: "path_component list \<Rightarrow> path_component list" where
  "path_pop out = (if out = [] \<or> out = [RootDir] then out else butlast out)"

definition path_push :: "path_component \<Rightarrow> path_component list \<Rightarrow> path_component list" where
  "path_push c out = (if c = RootDir then [RootDir] else out @ [c])"

definition lexically_normalize :: "string \<Rightarrow> path_component list" where
  "lexically_normalize path =
     foldl (\<lambda>out c. case c of CurDir \<Rightarrow> out | ParentDir \<Rightarrow> path_pop out | other \<Rightarrow> path_push other out) []
       (path_components path)"

definition path_join :: "string \<Rightarrow> string \<Rightarrow> string" where
  "path_join dir name = (if dir = [] \<or> last dir = CHR ''/'' then dir @ name else dir @ ''/'' @ name)"

definition embedded_path :: "string option \<Rightarrow> string \<Rightarrow> string \<Rightarrow> storage_config \<Rightarrow> string dres" where
  "embedded_path data_dir sect file_name cfg =
     (case sc_path cfg of
        Some path \<Rightarrow> Inr path
      | None \<Rightarrow>
          (case data_dir of
             None \<Rightarrow> Inl (ConfigInvalid (''['' @ sect @
               ''] embedded needs a `path`: no home directory to derive a default''))
           | Some dir \<Rightarrow> Inr (path_join dir file_name)))"

definition cache_db_path :: "string option \<Rightarrow> storage_config \<Rightarrow> string dres" where
  "cache_db_path data_dir cfg = embedded_path data_dir ''cache'' ''cache.db'' cfg"

definition tap_db_path :: "string option \<Rightarrow> storage_config \<Rightarrow> string dres" where
  "tap_db_path data_dir cfg = embedded_path data_dir ''tap_log'' ''taplog.db'' cfg"

text \<open>\<^verbatim>\<open>storage_to_cache_config\<close> and \<^verbatim>\<open>storage_to_tap_config\<close>: no path for the in-memory backend.\<close>

definition storage_to_cache_config :: "string option \<Rightarrow> storage_config \<Rightarrow> string option dres" where
  "storage_to_cache_config data_dir cfg =
     (case sc_backend cfg of Memory \<Rightarrow> Inr None | Embedded \<Rightarrow> map_sum id Some (cache_db_path data_dir cfg))"

definition storage_to_tap_config :: "string option \<Rightarrow> storage_config \<Rightarrow> string option dres" where
  "storage_to_tap_config data_dir cfg =
     (case sc_backend cfg of Memory \<Rightarrow> Inr None | Embedded \<Rightarrow> map_sum id Some (tap_db_path data_dir cfg))"

section \<open>Startup sessions and the query policy\<close>

definition session_instrument :: "startup_session \<Rightarrow> instrument" where
  "session_instrument s = instrument_new (st_provider s) (asset_class_of (st_asset_class s)) (st_symbol s)"

definition resolve_scope :: "(string \<Rightarrow> string) \<Rightarrow> startup_session \<Rightarrow> scope dres" where
  "resolve_scope dbg s =
     (case st_scope s of
        LiveCfg \<Rightarrow> Inr (LiveScope None)
      | LiveBackfill \<Rightarrow>
          (case st_backfill_from s of
             None \<Rightarrow> Inl (ConfigInvalid (''startup_session '' @ st_symbol s @ ''/'' @ st_provider s @
                       '' uses scope=live_backfill but has no backfill_from''))
           | Some raw \<Rightarrow>
               (case parse_rfc3339_nanos raw of
                  None \<Rightarrow> Inl (ConfigInvalid (''startup_session '' @ st_symbol s @ '' backfill_from '' @ dbg raw @
                            '' is not an RFC3339 timestamp''))
                | Some ts \<Rightarrow> Inr (LiveScope (Some ts)))))"

definition resolve_query_persistence :: "config \<Rightarrow> persistence_options" where
  "resolve_query_persistence c =
     (let options = persistence_options_of (sn_query_persistence (cf_session c)) in
      if uses_cache options \<and> cf_cache c = None then options_none else options)"

section \<open>Validation\<close>

definition check_distinct_files :: "string option \<Rightarrow> config \<Rightarrow> unit dres" where
  "check_distinct_files data_dir c =
     (case (cf_cache c, cf_tap_log c) of
        (Some cache_cfg, Some tap_cfg) \<Rightarrow>
          if sc_backend cache_cfg = Embedded \<and> sc_backend tap_cfg = Embedded then
            (case cache_db_path data_dir cache_cfg of
               Inl e \<Rightarrow> Inl e
             | Inr cache_path \<Rightarrow>
                 (case tap_db_path data_dir tap_cfg of
                    Inl e \<Rightarrow> Inl e
                  | Inr tap_path \<Rightarrow>
                      if lexically_normalize cache_path = lexically_normalize tap_path then
                        Inl (ConfigInvalid (''[cache] and [tap_log] both resolve to the same embedded database file ('' @
                          cache_path @ ''); the cache and tap log must use distinct paths''))
                      else Inr ()))
          else Inr ()
      | _ \<Rightarrow> Inr ())"

definition check_session :: "(string \<Rightarrow> string) \<Rightarrow> config \<Rightarrow> startup_session \<Rightarrow> unit dres" where
  "check_session dbg c s =
     (let options = persistence_options_of (st_persistence s) in
      if uses_cache options \<and> cf_cache c = None then
        Inl (ConfigInvalid (''startup_session '' @ st_symbol s @
          '' uses a cache persistence preset but no [cache] is configured''))
      else if write_tap_log options \<and> cf_tap_log c = None then
        Inl (ConfigInvalid (''startup_session '' @ st_symbol s @
          '' writes the tap log but no [tap_log] is configured''))
      else case resolve_scope dbg s of Inl e \<Rightarrow> Inl e | Inr _ \<Rightarrow> Inr ())"

fun check_sessions :: "(string \<Rightarrow> string) \<Rightarrow> config \<Rightarrow> startup_session list \<Rightarrow> unit dres" where
  "check_sessions dbg c [] = Inr ()"
| "check_sessions dbg c (s # ss) =
     (case check_session dbg c s of Inl e \<Rightarrow> Inl e | Inr _ \<Rightarrow> check_sessions dbg c ss)"

definition check_knobs :: "config \<Rightarrow> unit dres" where
  "check_knobs c =
     (if dg_publish_interval_ms (cf_diagnostics c) = 0 then
        Inl (ConfigInvalid ''[diagnostics].publish_interval_ms must be greater than 0'')
      else case cf_ws c of
        None \<Rightarrow> Inr ()
      | Some ws \<Rightarrow>
          if ws_channel_depth ws = 0 then Inl (ConfigInvalid ''[ws].channel_depth must be greater than 0'')
          else if ws_max_connections ws = 0 then Inl (ConfigInvalid ''[ws].max_connections must be greater than 0'')
          else Inr ())"

definition validate :: "string option \<Rightarrow> (string \<Rightarrow> string) \<Rightarrow> config \<Rightarrow> unit dres" where
  "validate data_dir dbg c =
     (case check_distinct_files data_dir c of
        Inl e \<Rightarrow> Inl e
      | Inr _ \<Rightarrow>
          (case check_sessions dbg c (cf_startup_session c) of
             Inl e \<Rightarrow> Inl e
           | Inr _ \<Rightarrow> check_knobs c))"

definition ALPACA :: string where "ALPACA = ''alpaca''"
definition ALPACA_CRYPTO :: string where "ALPACA_CRYPTO = ''alpaca-crypto''"

definition compiled_provider_ids :: "string list" where
  "compiled_provider_ids = [ALPACA, ALPACA_CRYPTO]"

definition configured_providers :: "config \<Rightarrow> (string \<times> account_type_cfg) list" where
  "configured_providers c =
     (case pc_alpaca (cf_provider c) of None \<Rightarrow> [] | Some a \<Rightarrow> [(ALPACA, al_account_type a)]) @
     (case pc_alpaca_crypto (cf_provider c) of None \<Rightarrow> [] | Some a \<Rightarrow> [(ALPACA_CRYPTO, ac_account_type a)])"

section \<open>Bootstrap\<close>

fun transport_error_display :: "transport_error \<Rightarrow> string" where
  "transport_error_display (BadServiceName m) = ''invalid iceoryx2 service name: '' @ m"
| "transport_error_display (Service m) = ''iceoryx2 service error: '' @ m"
| "transport_error_display (StaleService name) = ''iceoryx2 service '' @ name @
     '' is marked for destruction with no live owner (a previous owner was killed while removing it); it cannot be opened until its stale resources are removed''"
| "transport_error_display (Send m) = ''iceoryx2 send error: '' @ m"
| "transport_error_display (Interning m) = ''symbol interning error: '' @ m"
| "transport_error_display (Unsupported m) = ''unsupported event for transport: '' @ m"

definition effective_service_prefix ::
  "(string \<Rightarrow> string option) \<Rightarrow> (string \<Rightarrow> string) \<Rightarrow> u64 \<Rightarrow> u32 \<Rightarrow> string \<Rightarrow> boot_scoped_prefix dres" where
  "effective_service_prefix valid dbg secs pid configured =
     (let invalid = (\<lambda>e. ConfigInvalid (''[server].service_prefix: '' @ transport_error_display e)) in
      case service_prefix_new valid dbg configured of
        Inl e \<Rightarrow> Inl (invalid e)
      | Inr pfx \<Rightarrow> map_sum invalid id (boot_scoped valid dbg secs pid pfx))"

text \<open>
  What the outside gives at boot: the two compiled-in providers, the storage backends opened at
  their paths (none for the in-memory backend), the node, and what each anchor's open meets.
\<close>

record 'c boot_world =
  bw_valid :: "string \<Rightarrow> string option"
  bw_debug :: "string \<Rightarrow> string"
  bw_secs :: u64
  bw_pid :: u32
  bw_data_dir :: "string option"
  bw_alpaca :: provider
  bw_alpaca_crypto :: provider
  bw_open_cache :: "string option \<Rightarrow> 'c res"
  bw_open_tap :: "string option \<Rightarrow> market_event list res"
  bw_node :: "string option"
  bw_open :: "nat \<Rightarrow> (registry \<Rightarrow> registry) \<times> open_outcome"
  bw_cid :: "nat \<Rightarrow> u64"
  bw_backend :: "string dres"

definition build_runtime :: "'c boot_world \<Rightarrow> config \<Rightarrow> 'c datamancer dres" where
  "build_runtime bw c =
     (let b0 = builder_provider (bw_alpaca_crypto bw) (builder_provider (bw_alpaca bw)
          (builder_adjustment (sn_adjustment (cf_session c))
            (builder_resume_buffer_events (sn_resume_buffer_events (cf_session c)) builder_default)));
          with_cache = (case cf_cache c of
            None \<Rightarrow> Inr b0
          | Some cfg \<Rightarrow>
              (case storage_to_cache_config (bw_data_dir bw) cfg of
                 Inl e \<Rightarrow> Inl e
               | Inr path \<Rightarrow>
                   (case bw_open_cache bw path of
                      Inl e \<Rightarrow> Inl (Library e)
                    | Inr cache \<Rightarrow> Inr (builder_historical_cache cache b0))));
          with_tap = (\<lambda>b. case cf_tap_log c of
            None \<Rightarrow> Inr b
          | Some cfg \<Rightarrow>
              (case storage_to_tap_config (bw_data_dir bw) cfg of
                 Inl e \<Rightarrow> Inl e
               | Inr path \<Rightarrow>
                   (case bw_open_tap bw path of Inl e \<Rightarrow> Inl (Library e) | Inr log \<Rightarrow> Inr (builder_tap_log log b))))
      in case with_cache of
           Inl e \<Rightarrow> Inl e
         | Inr b1 \<Rightarrow>
             (case with_tap b1 of
                Inl e \<Rightarrow> Inl e
              | Inr b2 \<Rightarrow> map_sum Library id (build b2)))"

text \<open>The anchors: only \<^verbatim>\<open>always_on\<close> sessions are held.\<close>

fun open_anchors ::
  "'c boot_world \<Rightarrow> nat \<Rightarrow> startup_session list \<Rightarrow> 'c datamancer \<Rightarrow> ('c session_variant list \<times> 'c datamancer) dres" where
  "open_anchors bw n [] dm = Inr ([], dm)"
| "open_anchors bw n (s # ss) dm =
     (if \<not> st_always_on s then open_anchors bw n ss dm
      else case resolve_scope (bw_debug bw) s of
        Inl e \<Rightarrow> Inl e
      | Inr sc \<Rightarrow>
          (case open_session (fst (bw_open bw n)) (snd (bw_open bw n)) (bw_cid bw n) (session_instrument s)
                  (event_kind_of (st_kind s)) sc (persistence_options_of (st_persistence s)) dm of
             (Inl e, _) \<Rightarrow> Inl (Library e)
           | (Inr session, dm') \<Rightarrow>
               (case open_anchors bw (n + 1) ss dm' of
                  Inl e \<Rightarrow> Inl e
                | Inr (anchors, dm'') \<Rightarrow> Inr (session # anchors, dm''))))"

definition bootstrap :: "'c boot_world \<Rightarrow> config \<Rightarrow> 'c server dres" where
  "bootstrap bw c =
     (case effective_service_prefix (bw_valid bw) (bw_debug bw) (bw_secs bw) (bw_pid bw) (sr_service_prefix (cf_server c)) of
        Inl e \<Rightarrow> Inl e
      | Inr service_prefix \<Rightarrow>
          (case bw_backend bw of
             Inl e \<Rightarrow> Inl e
           | Inr backend \<Rightarrow>
               (case build_runtime bw c of
                  Inl e \<Rightarrow> Inl e
                | Inr dm \<Rightarrow>
                    (case bw_node bw of
                       Some e \<Rightarrow> Inl (TransportFailed (''node create: '' @ e))
                     | None \<Rightarrow>
                         (case open_anchors bw 0 (cf_startup_session c) dm of
                            Inl e \<Rightarrow> Inl e
                          | Inr (anchors, dm') \<Rightarrow>
                              Inr \<lparr> sv_dm = dm', sv_anchors = anchors, sv_clients = [], sv_queries = [],
                                    sv_max_queries = ic_max_queries (cf_iceoryx2 c),
                                    sv_query_persistence = resolve_query_persistence c, sv_next_client_id = 0,
                                    sv_service_prefix = service_prefix,
                                    sv_max_clients = ic_max_clients (cf_iceoryx2 c),
                                    sv_credential_backend = backend, sv_draining = False,
                                    sv_closing = [], sv_closed = [] \<rparr>)))))"

section \<open>A valid configuration serves its own sessions\<close>

lemma build_runtime_storage:
  assumes "build_runtime bw c = Inr dm"
  shows "(dm_historical_cache dm = None \<longleftrightarrow> cf_cache c = None) \<and> (dm_tap_log dm = None \<longleftrightarrow> cf_tap_log c = None)"
  using assms
  by (auto simp: build_runtime_def build_def Let_def builder_historical_cache_def builder_tap_log_def
      builder_provider_def builder_adjustment_def builder_resume_buffer_events_def builder_default_def
      split: option.splits sum.splits)

lemma open_session_storage:
  assumes "open_session env out cid i k sc opts dm = (r, dm')"
  shows "dm_historical_cache dm' = dm_historical_cache dm \<and> dm_tap_log dm' = dm_tap_log dm"
  using assms
  by (auto simp: open_session_def open_authoritative_def set_accounting_def Let_def
      split: if_splits scope.splits sum.splits prod.splits)

lemma authoritative_error:
  assumes "authoritative env out routed key sc opts acct g = (Inl e, acct', g')"
  shows "e = SessionClosed \<or> open_error out = Some e \<or> routed = Inl e"
  using assms
  by (auto simp: authoritative_def create_authoritative_def auth_add_subscriber_def Let_def
      split: sum.splits option.splits prod.splits if_splits)

lemma open_session_not_persistence:
  assumes "open_session env out cid i k sc opts dm = (Inl e, dm')"
    "uses_cache opts \<Longrightarrow> dm_historical_cache dm \<noteq> None" "write_tap_log opts \<Longrightarrow> dm_tap_log dm \<noteq> None"
    "open_error out \<noteq> Some PersistenceRequired"
  shows "e \<noteq> PersistenceRequired"
  using assms authoritative_error [of env out]
  by (fastforce simp: open_session_def open_authoritative_def route_def Let_def
      split: if_splits scope.splits sum.splits prod.splits option.splits)

lemma check_sessions_all:
  "check_sessions dbg c ss = Inr () \<Longrightarrow> s \<in> set ss \<Longrightarrow> check_session dbg c s = Inr ()"
  by (induction ss) (auto split: sum.splits)

lemma check_session_ok:
  assumes "check_session dbg c s = Inr ()"
  shows "(\<exists>sc. resolve_scope dbg s = Inr sc) \<and>
    (uses_cache (persistence_options_of (st_persistence s)) \<longrightarrow> cf_cache c \<noteq> None) \<and>
    (write_tap_log (persistence_options_of (st_persistence s)) \<longrightarrow> cf_tap_log c \<noteq> None)"
  using assms by (auto simp: check_session_def Let_def split: if_splits sum.splits)

lemma open_anchors_error:
  assumes "open_anchors bw n ss dm = Inl e" "\<And>s. s \<in> set ss \<Longrightarrow> check_session (bw_debug bw) c s = Inr ()"
    "dm_historical_cache dm = None \<longleftrightarrow> cf_cache c = None" "dm_tap_log dm = None \<longleftrightarrow> cf_tap_log c = None"
    "\<And>n. open_error (snd (bw_open bw n)) \<noteq> Some PersistenceRequired"
  shows "\<exists>le. e = Library le \<and> le \<noteq> PersistenceRequired"
  using assms
proof (induction ss arbitrary: n dm)
  case (Cons s ss)
  obtain sc where sc: "resolve_scope (bw_debug bw) s = Inr sc" using Cons.prems(2) check_session_ok by fastforce
  obtain r dm' where o: "open_session (fst (bw_open bw n)) (snd (bw_open bw n)) (bw_cid bw n) (session_instrument s)
      (event_kind_of (st_kind s)) sc (persistence_options_of (st_persistence s)) dm = (r, dm')" by fastforce
  have keep: "dm_historical_cache dm' = dm_historical_cache dm" "dm_tap_log dm' = dm_tap_log dm"
    using open_session_storage [OF o] by simp_all
  have pers: "le \<noteq> PersistenceRequired" if "r = Inl le" for le
    using open_session_not_persistence [OF o [unfolded that]] Cons.prems(2-5) check_session_ok by (meson list.set_intros(1))
  show ?case
    using Cons.prems Cons.IH [of n dm] Cons.IH [of "n + 1" dm'] sc o keep pers
    by (auto split: if_splits sum.splits)
qed simp

text \<open>C35: When a configuration passes validation and the storage it names was opened, bringing up its
  startup sessions can fail only with what a provider or a shared session answers: never for a
  scope that does not resolve and never for a cache or tap log the configuration lacks.\<close>

theorem valid_config_anchors:
  assumes "validate (bw_data_dir bw) (bw_debug bw) c = Inr ()" "build_runtime bw c = Inr dm"
    "\<And>n. open_error (snd (bw_open bw n)) \<noteq> Some PersistenceRequired"
    "open_anchors bw 0 (cf_startup_session c) dm = Inl e"
  shows "\<exists>le. e = Library le \<and> le \<noteq> PersistenceRequired"
proof (rule open_anchors_error [OF assms(4)])
  show "check_session (bw_debug bw) c s = Inr ()" if "s \<in> set (cf_startup_session c)" for s
    using assms(1) check_sessions_all that by (fastforce simp: validate_def split: sum.splits)
qed (use build_runtime_storage [OF assms(2)] assms(3) in auto)

section \<open>Concrete configurations\<close>

definition demo_bw :: "unit boot_world" where
  "demo_bw =
     \<lparr> bw_valid = (\<lambda>_. None), bw_debug = id, bw_secs = 1, bw_pid = 2, bw_data_dir = None,
       bw_alpaca = demo_provider ''alpaca'' [History], bw_alpaca_crypto = demo_provider ''alpaca-crypto'' [],
       bw_open_cache = (\<lambda>_. Inr ()), bw_open_tap = (\<lambda>_. Inr []), bw_node = None,
       bw_open = (\<lambda>_. (id, OpenOk)), bw_cid = (\<lambda>_. 0), bw_backend = Inr ''file'' \<rparr>"

definition memory_storage :: storage_config where
  "memory_storage = \<lparr> sc_backend = Memory, sc_path = None \<rparr>"

definition demo_anchor :: startup_session where
  "demo_anchor =
     \<lparr> st_provider = ''alpaca'', st_asset_class = EquityCfg, st_symbol = ''AAPL'', st_kind = TradeCfg,
       st_scope = LiveCfg, st_backfill_from = None, st_persistence = Cached, st_always_on = True \<rparr>"

definition anchor_config :: config where
  "anchor_config = (config_default None)\<lparr> cf_cache := Some memory_storage, cf_startup_session := [demo_anchor] \<rparr>"

lemma demo_build:
  assumes "cf_cache c = Some memory_storage" "cf_tap_log c = None"
  shows "\<exists>dm. build_runtime demo_bw c = Inr dm \<and> dm_providers dm = [bw_alpaca demo_bw, bw_alpaca_crypto demo_bw] \<and>
    dm_instrument_provider dm = []"
proof -
  have "adjacent_duplicate (sort [''alpaca'', ''alpaca-crypto'']) = None" by code_simp
  then show ?thesis
    using assms
    by (auto simp: build_runtime_def build_def Let_def builder_historical_cache_def builder_tap_log_def
        builder_provider_def builder_adjustment_def builder_resume_buffer_events_def builder_default_def demo_bw_def
        memory_storage_def storage_to_cache_config_def demo_provider_def simp del: sort_key_simps)
qed

theorem valid_config_anchors_witness:
  "\<exists>dm e. build_runtime demo_bw anchor_config = Inr dm \<and>
     open_anchors demo_bw 0 (cf_startup_session anchor_config) dm = Inl (Library e) \<and> e \<noteq> PersistenceRequired"
proof -
  obtain dm where dm: "build_runtime demo_bw anchor_config = Inr dm"
      "dm_providers dm = [bw_alpaca demo_bw, bw_alpaca_crypto demo_bw]" "dm_instrument_provider dm = []"
    using demo_build [of anchor_config] by (auto simp: anchor_config_def config_default_def)
  have v: "validate (bw_data_dir demo_bw) (bw_debug demo_bw) anchor_config = Inr ()"
    by (simp add: validate_def check_distinct_files_def anchor_config_def config_default_def check_session_def
        demo_anchor_def uses_cache_def options_cached_def resolve_scope_def check_knobs_def diagnostics_default_def Let_def
        memory_storage_def)
  have "route (session_instrument demo_anchor) KTrade [Live] dm =
      Inl (UnsupportedEventKind KTrade (session_instrument demo_anchor) Live)"
    using dm by (simp add: route_def pinned_def serves_all_def missing_surface_def demo_bw_def demo_provider_def)
  then obtain e where "open_anchors demo_bw 0 (cf_startup_session anchor_config) dm = Inl e"
    using dm build_runtime_storage [OF dm(1)]
    by (auto simp: anchor_config_def demo_anchor_def resolve_scope_def open_session_def open_authoritative_def
        live_surfaces_def options_cached_def uses_cache_def split: if_splits)
  then show ?thesis using valid_config_anchors [OF v dm(1)] dm(1) by (fastforce simp: demo_bw_def open_error_def)
qed

definition tap_query_config :: config where
  "tap_query_config =
     (config_default None)\<lparr> cf_cache := Some memory_storage,
                             cf_session := session_default\<lparr> sn_query_persistence := CachedWithTap \<rparr> \<rparr>"

text \<open>A configuration whose query policy writes the tap log, with a cache but no tap log, passes
  validation and boots, and the daemon then refuses every historical query.\<close>

lemma query_policy_needs_tap_log:
  "validate None id tap_query_config = Inr () \<and>
   (\<exists>s. bootstrap demo_bw tap_query_config = Inr s \<and> (\<forall>w spec. \<not> rp_ok (fst (open_query w spec s))))"
proof
  show "validate None id tap_query_config = Inr ()"
    by (simp add: validate_def check_distinct_files_def tap_query_config_def config_default_def check_knobs_def
        diagnostics_default_def memory_storage_def)
  obtain dm where dm: "build_runtime demo_bw tap_query_config = Inr dm"
    using demo_build [of tap_query_config] by (auto simp: tap_query_config_def config_default_def)
  have tap: "dm_tap_log dm = None"
    using build_runtime_storage [OF dm] by (simp add: tap_query_config_def config_default_def)
  obtain s where s: "bootstrap demo_bw tap_query_config = Inr s"
    using dm
    by (simp add: bootstrap_def effective_service_prefix_def service_prefix_new_def boot_scoped_def demo_bw_def
        tap_query_config_def config_default_def server_default_def Let_def)
  have "sv_dm s = dm" "write_tap_log (sv_query_persistence s)"
    using s dm
    by (auto simp: bootstrap_def tap_query_config_def config_default_def resolve_query_persistence_def session_default_def
        with_tap_log_def options_cached_def Let_def split: sum.splits option.splits)
  then have "\<not> rp_ok (fst (open_query w spec s))" for w spec
    using tap by (auto simp: open_query_def validate_query_open_def open_session_def reply_defs split: if_splits)
  then show "\<exists>s. bootstrap demo_bw tap_query_config = Inr s \<and> (\<forall>w spec. \<not> rp_ok (fst (open_query w spec s)))"
    using s by blast
qed

definition parent_config :: config where
  "parent_config =
     (config_default None)\<lparr> cf_cache := Some \<lparr> sc_backend = Embedded, sc_path = Some ''../x.db'' \<rparr>,
                             cf_tap_log := Some \<lparr> sc_backend = Embedded, sc_path = Some ''x.db'' \<rparr> \<rparr>"

text \<open>A leading parent directory is lost by the lexical comparison: a cache at \<^verbatim>\<open>../x.db\<close> and a tap
  log at \<^verbatim>\<open>x.db\<close>, two different files, are refused as the same one.\<close>

lemma leading_parent_is_lost: "\<exists>m. validate None id parent_config = Inl (ConfigInvalid m)"
proof -
  have "lexically_normalize ''../x.db'' = lexically_normalize ''x.db''" by code_simp
  then show ?thesis
    by (simp add: validate_def check_distinct_files_def parent_config_def config_default_def cache_db_path_def tap_db_path_def
        embedded_path_def)
qed

end
