(* ===== verification/Config_Class.thy ===== *)
theory Config_Class
  imports Daemon_Config
begin

text \<open>
  The JSON form of the configuration (the derived \<^verbatim>\<open>Serialize\<close> of \<^verbatim>\<open>config.rs\<close>, objects in key order)
  and the hot/cold classification of its fields (\<^verbatim>\<open>config_class.rs\<close>).
\<close>

section \<open>Serialization\<close>

text \<open>An object whose optional fields are left out when absent.\<close>

definition jobj :: "(string \<times> json option) list \<Rightarrow> json" where
  "jobj fs = JObj (List.map_filter (\<lambda>(k, v). map_option (Pair k) v) fs)"

definition jnat :: "nat \<Rightarrow> json option" where "jnat n = Some (JNum (int n))"
definition jstr :: "string \<Rightarrow> json option" where "jstr s = Some (JStr s)"
definition jbool :: "bool \<Rightarrow> json option" where "jbool b = Some (JBool b)"

text \<open>An optional field that is written as null when absent.\<close>

definition jnull :: "json option \<Rightarrow> json option" where
  "jnull v = Some (case v of None \<Rightarrow> JNull | Some j \<Rightarrow> j)"

fun account_type_str :: "account_type_cfg \<Rightarrow> string" where
  "account_type_str Paper = ''paper''"
| "account_type_str LiveAccount = ''live''"

fun history_feed_str :: "history_feed_cfg \<Rightarrow> string" where
  "history_feed_str IexFeed = ''iex''"
| "history_feed_str SipFeed = ''sip''"

fun venue_str :: "crypto_venue_cfg \<Rightarrow> string" where
  "venue_str Us = ''us''"
| "venue_str UsKraken = ''us_kraken''"
| "venue_str EuKraken = ''eu_kraken''"

fun backend_str :: "storage_backend \<Rightarrow> string" where
  "backend_str Embedded = ''embedded''"
| "backend_str Memory = ''memory''"

fun adjustment_cfg_str :: "adjustment \<Rightarrow> string" where
  "adjustment_cfg_str Raw = ''raw''"
| "adjustment_cfg_str Split = ''split''"
| "adjustment_cfg_str Dividend = ''dividend''"
| "adjustment_cfg_str SpinOff = ''spin_off''"
| "adjustment_cfg_str All = ''all''"

fun persistence_str :: "persistence_cfg \<Rightarrow> string" where
  "persistence_str NoneCfg = ''none''"
| "persistence_str Cached = ''cached''"
| "persistence_str CachedWithTap = ''cached_with_tap''"
| "persistence_str ReadOnly = ''read_only''"
| "persistence_str Refresh = ''refresh''"
| "persistence_str TapOnly = ''tap_only''"

fun asset_class_str :: "asset_class_cfg \<Rightarrow> string" where
  "asset_class_str EquityCfg = ''equity''"
| "asset_class_str CryptoCfg = ''crypto''"

fun kind_str :: "event_kind_cfg \<Rightarrow> string" where
  "kind_str TradeCfg = ''trade''"
| "kind_str QuoteCfg = ''quote''"
| "kind_str Bar1s = ''bar1s''"
| "kind_str Bar1m = ''bar1m''"
| "kind_str Bar5m = ''bar5m''"
| "kind_str Bar15m = ''bar15m''"
| "kind_str Bar1h = ''bar1h''"
| "kind_str Bar1d = ''bar1d''"

fun scope_str :: "scope_cfg \<Rightarrow> string" where
  "scope_str LiveCfg = ''live''"
| "scope_str LiveBackfill = ''live_backfill''"

fun log_format_str :: "log_format \<Rightarrow> string" where
  "log_format_str TextLog = ''text''"
| "log_format_str JsonLog = ''json''"

definition alpaca_json :: "alpaca_section \<Rightarrow> json" where
  "alpaca_json a =
     jobj [(''account_type'', jstr (account_type_str (al_account_type a))),
           (''history_feed'', Option.bind (al_history_feed a) (jstr \<circ> history_feed_str))]"

definition alpaca_crypto_json :: "alpaca_crypto_section \<Rightarrow> json" where
  "alpaca_crypto_json a =
     jobj [(''account_type'', jstr (account_type_str (ac_account_type a))), (''venue'', jstr (venue_str (ac_venue a)))]"

definition provider_json :: "provider_config \<Rightarrow> json" where
  "provider_json p =
     jobj [(''alpaca'', jnull (map_option alpaca_json (pc_alpaca p))),
           (''alpaca_crypto'', jnull (map_option alpaca_crypto_json (pc_alpaca_crypto p)))]"

definition storage_json :: "storage_config \<Rightarrow> json" where
  "storage_json s = jobj [(''backend'', jstr (backend_str (sc_backend s))), (''path'', Option.bind (sc_path s) jstr)]"

definition session_json :: "session_config \<Rightarrow> json" where
  "session_json s =
     jobj [(''adjustment'', jstr (adjustment_cfg_str (sn_adjustment s))),
           (''query_persistence'', jstr (persistence_str (sn_query_persistence s))),
           (''resume_buffer_events'', jnat (sn_resume_buffer_events s))]"

definition server_json :: "server_config \<Rightarrow> json" where
  "server_json s =
     jobj [(''admin_socket'', jstr (sr_admin_socket s)), (''allow_any_integrity'', jbool (sr_allow_any_integrity s)),
           (''service_prefix'', jstr (sr_service_prefix s)), (''shutdown_timeout_secs'', jnat (sr_shutdown_timeout_secs s))]"

definition diagnostics_json :: "diagnostics_config \<Rightarrow> json" where
  "diagnostics_json d =
     jobj [(''cache_catalog_interval_ms'', jnat (dg_cache_catalog_interval_ms d)),
           (''publish_interval_ms'', jnat (dg_publish_interval_ms d))]"

definition iceoryx2_json :: "iceoryx2_config \<Rightarrow> json" where
  "iceoryx2_json i = jobj [(''max_clients'', jnat (ic_max_clients i)), (''max_queries'', jnat (ic_max_queries i))]"

definition web_ui_json :: "web_ui_config \<Rightarrow> json" where
  "web_ui_json u =
     jobj [(''assets_dir'', Option.bind (wu_assets_dir u) jstr), (''bind'', jstr (wu_bind u)),
           (''cache_catalog_cadence_ms'', jnat (wu_cache_catalog_cadence_ms u)), (''enabled'', jbool (wu_enabled u)),
           (''live_state_cadence_ms'', jnat (wu_live_state_cadence_ms u)), (''port'', jnat (wu_port u))]"

definition ws_json :: "ws_config \<Rightarrow> json" where
  "ws_json u =
     jobj [(''auth_token'', Option.bind (ws_auth_token u) jstr), (''bind'', jstr (ws_bind u)),
           (''channel_depth'', jnat (ws_channel_depth u)), (''enabled'', jbool (ws_enabled u)),
           (''keepalive_secs'', jnat (ws_keepalive_secs u)), (''max_connections'', jnat (ws_max_connections u)),
           (''port'', jnat (ws_port u))]"

definition startup_json :: "startup_session \<Rightarrow> json" where
  "startup_json s =
     jobj [(''always_on'', jbool (st_always_on s)), (''asset_class'', jstr (asset_class_str (st_asset_class s))),
           (''backfill_from'', Option.bind (st_backfill_from s) jstr), (''kind'', jstr (kind_str (st_kind s))),
           (''persistence'', jstr (persistence_str (st_persistence s))), (''provider'', jstr (st_provider s)),
           (''scope'', jstr (scope_str (st_scope s))), (''symbol'', jstr (st_symbol s))]"

definition log_json :: "log_config \<Rightarrow> json" where
  "log_json l = jobj [(''format'', jstr (log_format_str (lg_format l))), (''level'', jstr (lg_level l))]"

definition config_fields :: "config \<Rightarrow> (string \<times> json option) list" where
  "config_fields c =
     [(''cache'', map_option storage_json (cf_cache c)), (''diagnostics'', Some (diagnostics_json (cf_diagnostics c))),
      (''iceoryx2'', Some (iceoryx2_json (cf_iceoryx2 c))), (''log'', Some (log_json (cf_log c))),
      (''provider'', Some (provider_json (cf_provider c))), (''server'', Some (server_json (cf_server c))),
      (''session'', Some (session_json (cf_session c))),
      (''startup_session'', Some (JArr (map startup_json (cf_startup_session c)))),
      (''tap_log'', map_option storage_json (cf_tap_log c)), (''web_ui'', map_option web_ui_json (cf_web_ui c)),
      (''ws'', map_option ws_json (cf_ws c))]"

definition config_json :: "config \<Rightarrow> json" where
  "config_json c = jobj (config_fields c)"

section \<open>Classification\<close>

datatype field_class = Hot | Cold

definition CLASSIFICATION :: "(string \<times> field_class) list" where
  "CLASSIFICATION =
     [(''provider.'', Hot), (''cache.'', Cold), (''tap_log.'', Cold), (''session.'', Cold), (''server.'', Cold),
      (''diagnostics.'', Cold), (''iceoryx2.'', Cold), (''web_ui.'', Cold), (''ws.'', Cold),
      (''startup_session.'', Cold), (''log.'', Cold)]"

text \<open>\<^verbatim>\<open>Iterator::max_by_key\<close>: the last element of greatest key.\<close>

definition max_by_key :: "('a \<Rightarrow> nat) \<Rightarrow> 'a list \<Rightarrow> 'a option" where
  "max_by_key key xs =
     foldl (\<lambda>acc x. case acc of None \<Rightarrow> Some x | Some m \<Rightarrow> if key m \<le> key x then Some x else Some m) None xs"

definition trim_end_dots :: "string \<Rightarrow> string" where
  "trim_end_dots s = rev (dropWhile (\<lambda>c. c = CHR ''.'') (rev s))"

definition classify :: "string \<Rightarrow> field_class option" where
  "classify path =
     map_option snd
       (max_by_key (length \<circ> fst)
          (filter (\<lambda>(pfx, _). take (length pfx) path = pfx \<or> path = trim_end_dots pfx) CLASSIFICATION))"

fun leaf_paths :: "json \<Rightarrow> string \<Rightarrow> string list" where
  "leaf_paths (JObj kvs) pre =
     concat (map (\<lambda>(k, v). leaf_paths v (if pre = [] then k else pre @ ''.'' @ k)) kvs)"
| "leaf_paths v pre = [pre]"

text \<open>\<^verbatim>\<open>Value::get\<close> with a key: only objects have one.\<close>

definition json_get :: "string \<Rightarrow> json \<Rightarrow> json option" where
  "json_get seg v = (case v of JObj kvs \<Rightarrow> map_of kvs seg | _ \<Rightarrow> None)"

definition json_lookup :: "json \<Rightarrow> string \<Rightarrow> json option" where
  "json_lookup v path = foldl (\<lambda>acc seg. Option.bind acc (json_get seg)) (Some v) (split_on CHR ''.'' path)"

definition cold_divergence :: "config \<Rightarrow> config \<Rightarrow> string list" where
  "cold_divergence baseline current =
     (let a = config_json baseline;
          b = config_json current;
          paths = remdups_adj (sort (leaf_paths a [] @ leaf_paths b []))
      in filter (\<lambda>p. json_lookup a p \<noteq> json_lookup b p \<and> classify p = Some Cold) paths)"

section \<open>Leaves and lookups\<close>

lemma leaf_paths_under:
  "k \<noteq> [] \<Longrightarrow> pre \<noteq> [] \<Longrightarrow> leaf_paths v (pre @ ''.'' @ k) = map (\<lambda>r. pre @ ''.'' @ r) (leaf_paths v k)"
proof (induction v k arbitrary: pre rule: leaf_paths.induct)
  case (1 kvs k)
  have "leaf_paths v (pre @ ''.'' @ k @ ''.'' @ key) = map (\<lambda>r. pre @ ''.'' @ r) (leaf_paths v (k @ ''.'' @ key))"
    if "(key, v) \<in> set kvs" for key v
    using "1.IH" [OF that refl, of pre] "1.prems" by simp
  then show ?case using "1.prems" by (auto simp: map_concat intro!: arg_cong [where f = concat])
qed simp_all

lemma leaf_paths_head: "k \<noteq> [] \<Longrightarrow> p \<in> set (leaf_paths v k) \<Longrightarrow> p = k \<or> (\<exists>r. p = k @ CHR ''.'' # r)"
proof (induction v k arbitrary: p rule: leaf_paths.induct)
  case (1 kvs k)
  then obtain key v where "(key, v) \<in> set kvs" "p \<in> set (leaf_paths v (k @ ''.'' @ key))" by auto
  then show ?case using "1.IH" [of "(key, v)" key v p] "1.prems" by auto
qed simp_all

lemma foldl_bind_None [simp]: "foldl (\<lambda>acc seg. Option.bind acc (g seg)) None xs = None"
  by (induction xs) simp_all

lemma lookup_key: "CHR ''.'' \<notin> set k \<Longrightarrow> json_lookup A k = json_get k A"
  by (simp add: json_lookup_def split_on_none)

lemma lookup_under:
  "CHR ''.'' \<notin> set k \<Longrightarrow> json_lookup A (k @ CHR ''.'' # r) = Option.bind (json_get k A) (\<lambda>v. json_lookup v r)"
  by (cases "json_get k A") (simp_all add: json_lookup_def split_on_append)

lemma lookup_missing:
  assumes "k \<noteq> []" "CHR ''.'' \<notin> set k" "p \<in> set (leaf_paths v k)" "json_get k A = None"
  shows "json_lookup A p = None"
  using leaf_paths_head [OF assms(1,3)] assms(2,4) by (auto simp: lookup_key lookup_under)

text \<open>Objects as the serializer builds them: not empty, with dot-free keys in order.\<close>

fun jwf :: "json \<Rightarrow> bool" where
  "jwf (JObj kvs) \<longleftrightarrow> kvs \<noteq> [] \<and> sorted_wrt (<) (map fst kvs) \<and>
     list_all (\<lambda>(k, v). k \<noteq> [] \<and> CHR ''.'' \<notin> set k \<and> jwf v) kvs"
| "jwf v \<longleftrightarrow> True"

lemma jwf_entry: "jwf (JObj kvs) \<Longrightarrow> (k, v) \<in> set kvs \<Longrightarrow> k \<noteq> [] \<and> CHR ''.'' \<notin> set k \<and> jwf v"
  by (auto simp: list_all_iff)

lemma jwf_distinct: "jwf (JObj kvs) \<Longrightarrow> distinct (map fst kvs)"
  using strict_sorted_iff by simp blast

lemma leaf_paths_nonempty: "jwf v \<Longrightarrow> leaf_paths v k \<noteq> []"
proof (induction v k rule: leaf_paths.induct)
  case (1 kvs k)
  then obtain key v rest where "kvs = (key, v) # rest" by (cases kvs) auto
  then show ?case using 1 by auto
qed simp_all

lemma json_child_size: "(k, u) \<in> set kvs \<Longrightarrow> size u < size (JObj kvs)"
  by (induction kvs) auto

lemma lookup_leaf:
  "jwf v \<Longrightarrow> k \<noteq> [] \<Longrightarrow> CHR ''.'' \<notin> set k \<Longrightarrow> p \<in> set (leaf_paths v k) \<Longrightarrow> json_get k A = Some v \<Longrightarrow>
   json_lookup A p \<noteq> None"
proof (induction "size v" arbitrary: v k p A rule: less_induct)
  case less
  show ?case
  proof (cases v)
    case (JObj kvs)
    then obtain key u where u: "(key, u) \<in> set kvs" "p \<in> set (leaf_paths u (k @ ''.'' @ key))"
      using less.prems by auto
    note wf = jwf_entry [OF less.prems(1) [unfolded JObj] u(1)]
    obtain r where r: "p = k @ CHR ''.'' # r" "r \<in> set (leaf_paths u key)"
      using u(2) leaf_paths_under [of key k u] wf less.prems(2) by auto
    have "json_get key v = Some u"
      using u(1) JObj jwf_distinct [OF less.prems(1) [unfolded JObj]] by (simp add: json_get_def)
    moreover have "size u < size v" using json_child_size [OF u(1)] JObj by simp
    ultimately have "json_lookup v r \<noteq> None" using less.hyps [of u key r v] wf r(2) by simp
    then show ?thesis using r(1) less.prems by (simp add: lookup_under)
  qed (use less.prems in \<open>auto simp: lookup_key\<close>)
qed

lemma sorted_maps_unique:
  assumes "sorted_wrt (<) (map fst xs)" "sorted_wrt (<) (map fst ys)" "map_of xs = map_of ys"
  shows "xs = (ys :: (string \<times> json) list)"
proof -
  have d: "distinct (map fst xs)" "distinct (map fst ys)" using assms(1,2) strict_sorted_iff by blast+
  have "set (map fst xs) = set (map fst ys)" using assms(3) by (metis dom_map_of_conv_image_fst list.set_map)
  then have "map fst xs = map fst ys"
    using assms(1,2) d strict_sorted_iff sorted_distinct_set_unique by metis
  moreover have rebuild: "zs = map (\<lambda>k. (k, the (map_of zs k))) (map fst zs)" if "distinct (map fst zs)"
    for zs :: "(string \<times> json) list"
    using that by (auto intro!: map_idI [symmetric] simp: comp_def)
  ultimately show ?thesis using rebuild [OF d(1)] rebuild [OF d(2)] assms(3) by metis
qed

text \<open>Two different well-formed values stored under the same key differ at one of their leaves.\<close>

lemma leaf_separates:
  "jwf a \<Longrightarrow> jwf b \<Longrightarrow> a \<noteq> b \<Longrightarrow> k \<noteq> [] \<Longrightarrow> CHR ''.'' \<notin> set k \<Longrightarrow> json_get k A = Some a \<Longrightarrow> json_get k B = Some b \<Longrightarrow>
   \<exists>p \<in> set (leaf_paths a k) \<union> set (leaf_paths b k). json_lookup A p \<noteq> json_lookup B p"
proof (induction "size a" arbitrary: a b k A B rule: less_induct)
  case less
  note kk = less.prems(4,5)
  show ?case
  proof (cases "(\<exists>xs. a = JObj xs) \<and> (\<exists>ys. b = JObj ys)")
    case False
    then have "k \<in> set (leaf_paths a k) \<union> set (leaf_paths b k)" by (cases a; cases b) auto
    then show ?thesis using less.prems by (auto simp: lookup_key intro!: bexI [of _ k])
  next
    case True
    then obtain xs ys where ab: "a = JObj xs" "b = JObj ys" by auto
    note wf = less.prems(1) [unfolded ab] less.prems(2) [unfolded ab]
    have "map_of xs \<noteq> map_of ys" using sorted_maps_unique [of xs ys] wf less.prems(3) ab by auto
    then obtain key where key: "map_of xs key \<noteq> map_of ys key" by auto
    have lift: "\<exists>p \<in> set (leaf_paths a k) \<union> set (leaf_paths b k). json_lookup A p \<noteq> json_lookup B p"
      if "(key, u) \<in> set xs \<union> set ys" "r \<in> set (leaf_paths u key)" "json_lookup a r \<noteq> json_lookup b r" for u r
    proof -
      have "key \<noteq> []" using that(1) jwf_entry [OF wf(1)] jwf_entry [OF wf(2)] by auto
      then have "k @ ''.'' @ r \<in> set (leaf_paths u (k @ ''.'' @ key))" using that(2) kk leaf_paths_under [of key k u] by auto
      then have "k @ CHR ''.'' # r \<in> set (leaf_paths a k) \<union> set (leaf_paths b k)" using that(1) kk ab by force
      moreover have "json_lookup A (k @ CHR ''.'' # r) \<noteq> json_lookup B (k @ CHR ''.'' # r)"
        using that(3) less.prems by (simp add: lookup_under)
      ultimately show ?thesis by blast
    qed
    have get: "json_get key a = map_of xs key" "json_get key b = map_of ys key" by (simp_all add: ab json_get_def)
    consider (left) u where "map_of xs key = Some u" "map_of ys key = None"
      | (right) v where "map_of xs key = None" "map_of ys key = Some v"
      | (both) u v where "map_of xs key = Some u" "map_of ys key = Some v" "u \<noteq> v"
      using key by (cases "map_of xs key"; cases "map_of ys key") auto
    then show ?thesis
    proof cases
      case left
      note e = jwf_entry [OF wf(1) map_of_SomeD [OF left(1)]]
      obtain r where r: "r \<in> set (leaf_paths u key)" using leaf_paths_nonempty [of u key] e by (metis list.set_intros(1) neq_Nil_conv)
      then show ?thesis
        using lift [of u r] map_of_SomeD [OF left(1)] lookup_leaf [of u key r a] lookup_missing [of key r u b] e get left by auto
    next
      case right
      note e = jwf_entry [OF wf(2) map_of_SomeD [OF right(2)]]
      obtain r where r: "r \<in> set (leaf_paths v key)" using leaf_paths_nonempty [of v key] e by (metis list.set_intros(1) neq_Nil_conv)
      then show ?thesis
        using lift [of v r] map_of_SomeD [OF right(2)] lookup_leaf [of v key r b] lookup_missing [of key r v a] e get right by auto
    next
      case both
      note e = jwf_entry [OF wf(1) map_of_SomeD [OF both(1)]] jwf_entry [OF wf(2) map_of_SomeD [OF both(2)]]
      have "size u < size a" using json_child_size [OF map_of_SomeD [OF both(1)]] ab by simp
      then obtain r where "r \<in> set (leaf_paths u key) \<union> set (leaf_paths v key)" "json_lookup a r \<noteq> json_lookup b r"
        using less.hyps [of u v key a b] e both get by auto
      then show ?thesis using lift map_of_SomeD [OF both(1)] map_of_SomeD [OF both(2)] by blast
    qed
  qed
qed

section \<open>The serializer builds well-formed objects\<close>

lemma jobj_get:
  "distinct (map fst fs) \<Longrightarrow> json_get k (jobj fs) = Option.bind (map_of fs k) id"
proof -
  have "k \<notin> fst ` set fs \<Longrightarrow> map_of (List.map_filter (\<lambda>(k, v). map_option (Pair k) v) fs) k = None" for fs :: "(string \<times> json option) list"
    by (force simp: List.map_filter_def map_of_eq_None_iff)
  then show "distinct (map fst fs) \<Longrightarrow> json_get k (jobj fs) = Option.bind (map_of fs k) id"
    by (induction fs) (auto simp: jobj_def json_get_def map_filter_simps split: option.splits)
qed

lemma jobj_inject:
  assumes "jobj fs = jobj gs" "map fst fs = map fst gs" "distinct (map fst fs)"
  shows "fs = gs"
proof (rule nth_equalityI)
  show len: "length fs = length gs" using assms(2) by (metis length_map)
  fix i assume i: "i < length fs"
  have f: "fst (fs ! i) = fst (gs ! i)" using assms(2) i len by (metis nth_map)
  have "map_of fs (fst (fs ! i)) = Some (snd (fs ! i))" "map_of gs (fst (gs ! i)) = Some (snd (gs ! i))"
    using assms(2,3) i len by (simp_all add: map_of_eq_Some_iff)
  moreover have "Option.bind (map_of fs k) id = Option.bind (map_of gs k) id" for k
    using jobj_get [of fs k] jobj_get [of gs k] assms by simp
  ultimately have "snd (fs ! i) = snd (gs ! i)" using f by (metis bind.bind_lunit id_apply)
  then show "fs ! i = gs ! i" using f by (simp add: prod_eq_iff)
qed

lemma jwf_jobj:
  assumes "sorted_wrt (<) (map fst fs)" "list_ex (\<lambda>(_, v). v \<noteq> None) fs"
    "list_all (\<lambda>(k, v). k \<noteq> [] \<and> CHR ''.'' \<notin> set k \<and> pred_option jwf v) fs"
  shows "jwf (jobj fs)"
proof -
  let ?g = "List.map_filter (\<lambda>(k, v). map_option (Pair k) v) fs"
  have keys: "map fst ?g = map fst (filter (\<lambda>(_, v). v \<noteq> None) fs)"
    by (induction fs) (auto simp: map_filter_simps)
  have "sorted_wrt (<) (map fst ?g)"
    using assms(1) unfolding keys by (simp add: sorted_wrt_map sorted_wrt_filter)
  moreover have "?g \<noteq> []" using assms(2) by (force simp: List.map_filter_def filter_empty_conv list_ex_iff)
  moreover have "list_all (\<lambda>(k, v). k \<noteq> [] \<and> CHR ''.'' \<notin> set k \<and> jwf v) ?g"
    using assms(3) by (fastforce simp: List.map_filter_def list_all_iff)
  ultimately show ?thesis by (simp add: jobj_def)
qed

lemmas j_defs = jnat_def jstr_def jbool_def jnull_def

lemma sections_wf [simp]:
  "jwf (alpaca_json a)" "jwf (alpaca_crypto_json x)" "jwf (storage_json s)" "jwf (session_json n)" "jwf (server_json v)"
  "jwf (diagnostics_json d)" "jwf (iceoryx2_json i)" "jwf (web_ui_json u)" "jwf (ws_json w)" "jwf (log_json l)"
  unfolding alpaca_json_def alpaca_crypto_json_def storage_json_def session_json_def server_json_def
    diagnostics_json_def iceoryx2_json_def web_ui_json_def ws_json_def log_json_def
  by (rule jwf_jobj; (simp add: j_defs split: Option.bind_splits; fail)?; (simp, code_simp)?)+

lemma provider_wf [simp]: "jwf (provider_json p)"
proof -
  have "sorted_wrt (<) [''alpaca'', ''alpaca_crypto'']" by code_simp
  then show ?thesis unfolding provider_json_def
    by (intro jwf_jobj) (simp_all add: j_defs split: option.splits)
qed

lemma config_wf: "(k, Some v) \<in> set (config_fields c) \<Longrightarrow> jwf v"
  by (auto simp: config_fields_def eq_commute [of "Some v"])

section \<open>Which fields need a restart\<close>

definition cold_keys :: "string list" where
  "cold_keys = [''cache'', ''diagnostics'', ''iceoryx2'', ''log'', ''server'', ''session'', ''startup_session'', ''tap_log'',
                ''web_ui'', ''ws'']"

lemma config_keys: "map fst (config_fields c) = [''cache'', ''diagnostics'', ''iceoryx2'', ''log'', ''provider'', ''server'',
    ''session'', ''startup_session'', ''tap_log'', ''web_ui'', ''ws'']"
  by (simp add: config_fields_def)

lemma config_keys_distinct: "distinct (map fst (config_fields c))"
  unfolding config_keys by simp

lemma match_key:
  assumes "CHR ''.'' \<notin> set x" "CHR ''.'' \<notin> set k" "p = k \<or> p = k @ CHR ''.'' # r"
  shows "take (length (x @ ''.'')) p = x @ ''.'' \<or> p = trim_end_dots (x @ ''.'') \<longleftrightarrow> x = k"
proof -
  have trim: "trim_end_dots (x @ ''.'') = x"
    using assms(1) by (cases x rule: rev_cases) (auto simp: trim_end_dots_def)
  have "x = k" if "take (length (x @ ''.'')) p = x @ ''.''"
  proof -
    have "p = x @ CHR ''.'' # drop (length (x @ ''.'')) p"
      using append_take_drop_id [of "length (x @ ''.'')" p] unfolding that by simp
    then have "hd (split_on CHR ''.'' p) = x" using assms(1) split_on_append [of "CHR ''.''" x] by (metis list.sel(1))
    moreover have "hd (split_on CHR ''.'' p) = k"
      using assms(2,3) by (auto simp: split_on_append split_on_none)
    ultimately show ?thesis by simp
  qed
  moreover have "x = k" if "p = x" using that assms by auto
  moreover have "take (length (k @ ''.'')) p = k @ ''.'' \<or> p = k" using assms(3) by auto
  ultimately show ?thesis unfolding trim by blast
qed

lemma classify_key:
  assumes "CHR ''.'' \<notin> set k" "p = k \<or> p = k @ CHR ''.'' # r"
  shows "classify p = map_option snd (max_by_key (length \<circ> fst) (filter (\<lambda>(pfx, _). pfx = k @ ''.'') CLASSIFICATION))"
proof -
  have "\<exists>x. pfx = x @ ''.'' \<and> CHR ''.'' \<notin> set x" if "(pfx, c) \<in> set CLASSIFICATION" for pfx c
  proof -
    have "list_all (\<lambda>(pfx, c). pfx = butlast pfx @ ''.'' \<and> CHR ''.'' \<notin> set (butlast pfx)) CLASSIFICATION" by code_simp
    then show ?thesis using that by (force simp: list_all_iff)
  qed
  then have "filter (\<lambda>(pfx, _). take (length pfx) p = pfx \<or> p = trim_end_dots pfx) CLASSIFICATION =
      filter (\<lambda>(pfx, _). pfx = k @ ''.'') CLASSIFICATION"
    using match_key [OF _ assms] by (intro filter_cong) fastforce+
  then show ?thesis by (simp add: classify_def)
qed

lemma classify_provider: "p = ''provider'' \<or> p = ''provider'' @ CHR ''.'' # r \<Longrightarrow> classify p = Some Hot"
  using classify_key [of "''provider''" p r] by (simp add: CLASSIFICATION_def max_by_key_def)

lemma classify_cold: "k \<in> set cold_keys \<Longrightarrow> p = k \<or> p = k @ CHR ''.'' # r \<Longrightarrow> classify p = Some Cold"
proof -
  assume k: "k \<in> set cold_keys" and p: "p = k \<or> p = k @ CHR ''.'' # r"
  have "list_all (\<lambda>k. CHR ''.'' \<notin> set k \<and> map_option snd (max_by_key (length \<circ> fst)
      (filter (\<lambda>(pfx, _). pfx = k @ ''.'') CLASSIFICATION)) = Some Cold) cold_keys" by code_simp
  then show ?thesis using k classify_key [OF _ p] by (simp add: list_all_iff)
qed

text \<open>The top-level sections.\<close>

lemma config_get: "json_get k (config_json c) = Option.bind (map_of (config_fields c) k) id"
  unfolding config_json_def by (rule jobj_get [OF config_keys_distinct])

lemma config_leaf:
  "p \<in> set (leaf_paths (config_json c) []) \<longleftrightarrow> (\<exists>k v. (k, Some v) \<in> set (config_fields c) \<and> p \<in> set (leaf_paths v k))"
  by (auto simp: config_json_def jobj_def List.map_filter_def) force+

lemma config_key_cases: "(k, v) \<in> set (config_fields c) \<Longrightarrow> k \<noteq> [] \<and> CHR ''.'' \<notin> set k \<and> (k = ''provider'' \<or> k \<in> set cold_keys)"
  by (auto simp: config_fields_def cold_keys_def)

lemma config_fields_get: "(k, v) \<in> set (config_fields c) \<longleftrightarrow> map_of (config_fields c) k = Some v"
  using config_keys_distinct by simp

definition sections_agree :: "config \<Rightarrow> config \<Rightarrow> bool" where
  "sections_agree a b \<longleftrightarrow> list_all (\<lambda>k. map_of (config_fields a) k = map_of (config_fields b) k) cold_keys"

lemma cold_divergence_Nil:
  "cold_divergence a b = [] \<longleftrightarrow>
   (\<forall>p \<in> set (leaf_paths (config_json a) []) \<union> set (leaf_paths (config_json b) []).
      json_lookup (config_json a) p \<noteq> json_lookup (config_json b) p \<longrightarrow> classify p \<noteq> Some Cold)"
  by (auto simp: cold_divergence_def Let_def filter_empty_conv)

lemma agree_no_divergence:
  assumes "sections_agree a b"
  shows "cold_divergence a b = []"
  unfolding cold_divergence_Nil
proof (intro ballI impI)
  fix p
  assume p: "p \<in> set (leaf_paths (config_json a) []) \<union> set (leaf_paths (config_json b) [])"
    and d: "json_lookup (config_json a) p \<noteq> json_lookup (config_json b) p"
  then obtain k v c where k: "(k, Some v) \<in> set (config_fields c)" "p \<in> set (leaf_paths v k)" by (auto simp: config_leaf)
  note kc = config_key_cases [OF k(1)]
  obtain r where r: "p = k \<or> p = k @ CHR ''.'' # r" using leaf_paths_head [of k p v] kc k(2) by blast
  have "k = ''provider''"
  proof (rule ccontr)
    assume "k \<noteq> ''provider''"
    then have "map_of (config_fields a) k = map_of (config_fields b) k" using kc assms by (auto simp: sections_agree_def list_all_iff)
    then have "json_get k (config_json a) = json_get k (config_json b)" by (simp add: config_get)
    then show False using d r conjunct1 [OF conjunct2 [OF kc]] by (elim disjE) (simp_all add: lookup_key lookup_under)
  qed
  then show "classify p \<noteq> Some Cold" using classify_provider r by auto
qed

lemma config_leafI:
  "map_of (config_fields c) k = Some (Some x) \<Longrightarrow> p \<in> set (leaf_paths x k) \<Longrightarrow> p \<in> set (leaf_paths (config_json c) [])"
  using config_leaf config_fields_get by blast

lemma missing_section_leaf:
  assumes "map_of (config_fields a) k = Some None" "map_of (config_fields b) k = Some (Some x)" "k \<noteq> []" "CHR ''.'' \<notin> set k"
  shows "\<exists>p \<in> set (leaf_paths (config_json b) []). json_lookup (config_json a) p \<noteq> json_lookup (config_json b) p \<and>
    (p = k \<or> (\<exists>r. p = k @ CHR ''.'' # r))"
proof -
  have wf: "jwf x" using config_wf config_fields_get assms(2) by metis
  then obtain p where p: "p \<in> set (leaf_paths x k)" using leaf_paths_nonempty by (metis list.set_intros(1) neq_Nil_conv)
  then have "json_lookup (config_json b) p \<noteq> None" "json_lookup (config_json a) p = None"
    using lookup_leaf [OF wf assms(3,4) p] lookup_missing [OF assms(3,4) p] assms(1,2) by (simp_all add: config_get)
  then show ?thesis using config_leafI [OF assms(2) p] leaf_paths_head [OF assms(3) p] by metis
qed

lemma changed_section_leaf:
  assumes "map_of (config_fields a) k = Some (Some x)" "map_of (config_fields b) k = Some (Some y)" "x \<noteq> y"
    "k \<noteq> []" "CHR ''.'' \<notin> set k"
  shows "\<exists>p \<in> set (leaf_paths (config_json a) []) \<union> set (leaf_paths (config_json b) []).
    json_lookup (config_json a) p \<noteq> json_lookup (config_json b) p \<and> (p = k \<or> (\<exists>r. p = k @ CHR ''.'' # r))"
proof -
  have wf: "jwf x" "jwf y" using config_wf config_fields_get assms(1,2) by metis+
  then obtain p where p: "p \<in> set (leaf_paths x k) \<union> set (leaf_paths y k)"
      "json_lookup (config_json a) p \<noteq> json_lookup (config_json b) p"
    using leaf_separates [OF wf assms(3-5), of "config_json a" "config_json b"] assms(1,2) by (auto simp: config_get)
  then show ?thesis
    using config_leafI [OF assms(1)] config_leafI [OF assms(2)] leaf_paths_head [OF assms(4)] by (metis UnE UnI1 UnI2)
qed

lemma no_divergence_agree:
  assumes "cold_divergence a b = []"
  shows "sections_agree a b"
  unfolding sections_agree_def list_all_iff
proof (rule ballI, rule ccontr)
  fix k assume k: "k \<in> set cold_keys" and d: "map_of (config_fields a) k \<noteq> map_of (config_fields b) k"
  have dot: "k \<noteq> []" "CHR ''.'' \<notin> set k" using k by (auto simp: cold_keys_def)
  have some: "\<exists>v. map_of (config_fields c) k = Some v" for c
    using k by (auto simp: cold_keys_def config_fields_def)
  obtain u v where uv: "map_of (config_fields a) k = Some u" "map_of (config_fields b) k = Some v" "u \<noteq> v"
    using some d by metis
  have "\<exists>p \<in> set (leaf_paths (config_json a) []) \<union> set (leaf_paths (config_json b) []).
      json_lookup (config_json a) p \<noteq> json_lookup (config_json b) p \<and> (p = k \<or> (\<exists>r. p = k @ CHR ''.'' # r))"
    using missing_section_leaf [OF _ _ dot, of a b] missing_section_leaf [OF _ _ dot, of b a]
      changed_section_leaf [OF _ _ _ dot, of a _ b] uv
    by (cases u; cases v) (metis UnI1 UnI2)+
  then show False using assms classify_cold [OF k] unfolding cold_divergence_Nil by blast
qed

lemma backend_str_inj [simp]: "backend_str x = backend_str y \<longleftrightarrow> x = y"
  by (cases x; cases y) simp_all

lemma adjustment_cfg_str_inj [simp]: "adjustment_cfg_str x = adjustment_cfg_str y \<longleftrightarrow> x = y"
  by (cases x; cases y) simp_all

lemma persistence_str_inj [simp]: "persistence_str x = persistence_str y \<longleftrightarrow> x = y"
  by (cases x; cases y) simp_all

lemma asset_class_str_inj [simp]: "asset_class_str x = asset_class_str y \<longleftrightarrow> x = y"
  by (cases x; cases y) simp_all

lemma kind_str_inj [simp]: "kind_str x = kind_str y \<longleftrightarrow> x = y"
  by (cases x; cases y) simp_all

lemma scope_str_inj [simp]: "scope_str x = scope_str y \<longleftrightarrow> x = y"
  by (cases x; cases y) simp_all

lemma log_format_str_inj [simp]: "log_format_str x = log_format_str y \<longleftrightarrow> x = y"
  by (cases x; cases y) simp_all

lemma bind_jstr_inj [simp]: "Option.bind x jstr = Option.bind y jstr \<longleftrightarrow> x = y"
  by (cases x; cases y) (simp_all add: jstr_def)

lemma section_inj:
  "storage_json s = storage_json s' \<Longrightarrow> s = s'" "session_json n = session_json n' \<Longrightarrow> n = n'"
  "server_json v = server_json v' \<Longrightarrow> v = v'" "diagnostics_json d = diagnostics_json d' \<Longrightarrow> d = d'"
  "iceoryx2_json i = iceoryx2_json i' \<Longrightarrow> i = i'" "web_ui_json u = web_ui_json u' \<Longrightarrow> u = u'"
  "ws_json w = ws_json w' \<Longrightarrow> w = w'" "startup_json t = startup_json t' \<Longrightarrow> t = t'" "log_json l = log_json l' \<Longrightarrow> l = l'"
  unfolding storage_json_def session_json_def server_json_def diagnostics_json_def iceoryx2_json_def web_ui_json_def
    ws_json_def startup_json_def log_json_def
  by (drule jobj_inject; simp; auto simp: jnat_def jstr_def jbool_def)+

lemma agree_provider: "sections_agree a (a\<lparr> cf_provider := p \<rparr>)"
  by (simp add: sections_agree_def cold_keys_def config_fields_def)

lemma agree_iff: "sections_agree a b \<longleftrightarrow> a\<lparr> cf_provider := cf_provider b \<rparr> = b"
proof
  assume "sections_agree a b"
  then have eqs:
    "map_option storage_json (cf_cache a) = map_option storage_json (cf_cache b)"
    "map_option storage_json (cf_tap_log a) = map_option storage_json (cf_tap_log b)"
    "map_option web_ui_json (cf_web_ui a) = map_option web_ui_json (cf_web_ui b)"
    "map_option ws_json (cf_ws a) = map_option ws_json (cf_ws b)"
    "map startup_json (cf_startup_session a) = map startup_json (cf_startup_session b)"
    "diagnostics_json (cf_diagnostics a) = diagnostics_json (cf_diagnostics b)"
    "iceoryx2_json (cf_iceoryx2 a) = iceoryx2_json (cf_iceoryx2 b)" "log_json (cf_log a) = log_json (cf_log b)"
    "server_json (cf_server a) = server_json (cf_server b)" "session_json (cf_session a) = session_json (cf_session b)"
    by (simp_all add: sections_agree_def cold_keys_def config_fields_def)
  have opt: "x = y" if "map_option f x = map_option f y" "\<And>u v. f u = f v \<Longrightarrow> u = v" for f :: "'x \<Rightarrow> json" and x y
    using that by (cases x; cases y) auto
  have "cf_cache a = cf_cache b" "cf_tap_log a = cf_tap_log b" "cf_web_ui a = cf_web_ui b" "cf_ws a = cf_ws b"
      "cf_diagnostics a = cf_diagnostics b" "cf_iceoryx2 a = cf_iceoryx2 b" "cf_log a = cf_log b"
      "cf_server a = cf_server b" "cf_session a = cf_session b"
    using eqs by (metis opt section_inj)+
  moreover have "cf_startup_session a = cf_startup_session b"
    using eqs(5) section_inj(8) by (metis injI map_injective)
  ultimately show "a\<lparr> cf_provider := cf_provider b \<rparr> = b" by simp
next
  assume "a\<lparr> cf_provider := cf_provider b \<rparr> = b"
  then show "sections_agree a b" using agree_provider [of a "cf_provider b"] by simp
qed

text \<open>C32: The daemon asks for a restart exactly when some field outside the provider sections differs
  from the configuration it booted with.\<close>

theorem restart_iff_cold_change:
  "cold_divergence boot current = [] \<longleftrightarrow> boot\<lparr> cf_provider := cf_provider current \<rparr> = current"
  using agree_iff agree_no_divergence no_divergence_agree by blast

end
