(* ===== verification/Watch_Channel.thy ===== *)
theory Watch_Channel
  imports DM_Prelude
begin

text \<open>
  The watch channels of \<^verbatim>\<open>tokio::sync::watch\<close> as the daemon and the providers use them: a value with
  a version, the versions its receivers have seen, and whether the sender is gone.
\<close>

section \<open>The sender's side\<close>

text \<open>A watch channel: its value and how often it woke its receivers.\<close>

record 'v watch =
  wt_value :: 'v
  wt_version :: nat

definition send_replace :: "'v \<Rightarrow> 'v watch \<Rightarrow> 'v watch" where
  "send_replace v w = \<lparr> wt_value = v, wt_version = wt_version w + 1 \<rparr>"

section \<open>The receiver's side\<close>

text \<open>A channel whose sender can go away; a receiver is the version it has seen.\<close>

record 'v channel = "'v watch" +
  wt_closed :: bool

definition channel_send :: "'v \<Rightarrow> 'v channel \<Rightarrow> 'v channel" where
  "channel_send v w = (if wt_closed w then w else w\<lparr> wt_value := v, wt_version := wt_version w + 1 \<rparr>)"

definition channel_close :: "'v channel \<Rightarrow> 'v channel" where
  "channel_close w = w\<lparr> wt_closed := True \<rparr>"

text \<open>\<^verbatim>\<open>has_changed\<close>: \<open>None\<close> on a closed channel, whatever is pending.\<close>

definition has_changed :: "nat \<Rightarrow> 'v channel \<Rightarrow> bool option" where
  "has_changed seen w = (if wt_closed w then None else Some (seen \<noteq> wt_version w))"

text \<open>\<^verbatim>\<open>changed().await\<close>: pending (\<open>None\<close>), an unseen value, or the error that the sender is gone.\<close>

definition changed :: "nat \<Rightarrow> 'v channel \<Rightarrow> bool option" where
  "changed seen w =
     (if seen \<noteq> wt_version w then Some True else if wt_closed w then Some False else None)"

lemma changed_simps [simp]:
  "changed seen w = Some True \<longleftrightarrow> seen \<noteq> wt_version w"
  "changed seen w = Some False \<longleftrightarrow> seen = wt_version w \<and> wt_closed w"
  by (simp_all add: changed_def)

lemma channel_fields [simp]:
  "wt_closed (channel_send v w) = wt_closed w" "wt_value (channel_close w) = wt_value w"
  "wt_version (channel_close w) = wt_version w" "wt_closed (channel_close w)"
  by (simp_all add: channel_send_def channel_close_def)

text \<open>A version names one value: sending leaves the version behind, or the value as it was.\<close>

lemma channel_send_version: "wt_version (channel_send v w) = wt_version w \<Longrightarrow> channel_send v w = w"
  by (simp add: channel_send_def split: if_splits)

lemma channel_send_mono: "wt_version w \<le> wt_version (channel_send v w)"
  by (simp add: channel_send_def)

end
