(* ===== verification/Hubs.thy ===== *)
theory Hubs
  imports Config_Class Watch_Channel
begin

text \<open>
  The daemon's two services that persist and then apply: the configuration hub
  (\<^verbatim>\<open>config_hub.rs\<close>, with the atomic file replacement of \<^verbatim>\<open>paths.rs\<close>) and the credential hub
  (\<^verbatim>\<open>credentials.rs\<close>). Each operation holds its lock from the write to the apply, so it is one
  step. The TOML printer, the settings deserializer and the credential store's failures are
  parameters.
\<close>

section \<open>The shared contract\<close>

text \<open>
  A step reports whether it was accepted. A refused step has changed nothing a reader or a
  provider can see, and every step keeps what is stored and what is applied coherent.
\<close>

locale persist_then_apply =
  fixes perform :: "'op \<Rightarrow> 's \<Rightarrow> bool \<times> 's"
    and visible :: "'s \<Rightarrow> 'v"
    and coherent :: "'s \<Rightarrow> bool"
  assumes refused: "perform r s = (False, s') \<Longrightarrow> visible s' = visible s"
    and keeps: "perform r s = (ok, s') \<Longrightarrow> coherent s \<Longrightarrow> coherent s'"
begin

lemma run_coherent: "coherent s \<Longrightarrow> coherent (foldl (\<lambda>s r. snd (perform r s)) s rs)"
proof (induction rs arbitrary: s)
  case (Cons r rs)
  obtain ok s1 where p: "perform r s = (ok, s1)" by fastforce
  show ?case using Cons.IH [OF keeps [OF p Cons.prems]] p by simp
qed simp

lemma change_accepted: "visible (snd (perform r s)) \<noteq> visible s \<Longrightarrow> fst (perform r s)"
  using refused [of r s "snd (perform r s)"] by (cases "perform r s") auto

end

section \<open>Replacing a file\<close>

type_synonym files = "string \<rightharpoonup> string"

datatype write_fault = CreateFails string | WriteFails nat string | SyncFails string | RenameFails string

text \<open>
  \<^verbatim>\<open>atomic_write\<close>: create, write and sync a sibling, then rename it over the target; after a failure
  the sibling is removed, when that works.
\<close>

definition tmp_name :: "string \<Rightarrow> string" where
  "tmp_name path = path @ ''.tmp''"

definition atomic_write :: "write_fault option \<Rightarrow> bool \<Rightarrow> string \<Rightarrow> string \<Rightarrow> files \<Rightarrow> unit dres \<times> files" where
  "atomic_write fault removable path contents fs =
     (let tmp = tmp_name path;
          cleanup = (\<lambda>fs. if removable then fs(tmp := None) else fs)
      in case fault of
           None \<Rightarrow> (Inr (), fs(tmp := None, path \<mapsto> contents))
         | Some (CreateFails m) \<Rightarrow> (Inl (IoFailed m), cleanup fs)
         | Some (WriteFails n m) \<Rightarrow> (Inl (IoFailed m), cleanup (fs(tmp \<mapsto> take n contents)))
         | Some (SyncFails m) \<Rightarrow> (Inl (IoFailed m), cleanup (fs(tmp \<mapsto> contents)))
         | Some (RenameFails m) \<Rightarrow> (Inl (IoFailed m), cleanup (fs(tmp \<mapsto> contents))))"

section \<open>The configuration hub\<close>

definition REDACTED_SECRET :: string where "REDACTED_SECRET = ''<redacted>''"

record config_hub =
  ch_path :: string
  ch_boot :: config
  ch_current :: config
  ch_alpaca :: "alpaca_section option watch"
  ch_alpaca_crypto :: "alpaca_crypto_section option watch"
  ch_files :: files

text \<open>The outside during one operation: printer, deserializers, and how the write fares.\<close>

record hub_world =
  hw_data_dir :: "string option"
  hw_debug :: "string \<Rightarrow> string"
  hw_to_toml :: "config \<Rightarrow> string + string"
  hw_de_alpaca :: "json \<Rightarrow> string + alpaca_section"
  hw_de_alpaca_crypto :: "json \<Rightarrow> string + alpaca_crypto_section"
  hw_fault :: "write_fault option"
  hw_removable :: bool

fun daemon_error_display :: "daemon_error \<Rightarrow> string" where
  "daemon_error_display (ConfigRead m) = ''failed to read config file '' @ m"
| "daemon_error_display (ConfigParse m) = ''failed to parse config: '' @ m"
| "daemon_error_display (ConfigInvalid m) = ''invalid config: '' @ m"
| "daemon_error_display (ConfigSerialize m) = ''failed to serialize config: '' @ m"
| "daemon_error_display (Library e) = error_display e"
| "daemon_error_display (TransportFailed m) = ''transport: '' @ m"
| "daemon_error_display (CredentialStoreFailed m) = ''credential store: '' @ m"
| "daemon_error_display (IoFailed m) = m"
| "daemon_error_display (AlreadyRunning pid) = ''another datamancerd is already running'' @
     (case pid of None \<Rightarrow> [] | Some p \<Rightarrow> '' (pid '' @ show_nat p @ '')'')"

text \<open>Seed the watches from the boot document, with its file as it was read.\<close>

definition hub_bootstrap :: "config \<Rightarrow> string \<Rightarrow> files \<Rightarrow> config_hub" where
  "hub_bootstrap c path fs =
     \<lparr> ch_path = path, ch_boot = c, ch_current = c,
       ch_alpaca = \<lparr> wt_value = pc_alpaca (cf_provider c), wt_version = 0 \<rparr>,
       ch_alpaca_crypto = \<lparr> wt_value = pc_alpaca_crypto (cf_provider c), wt_version = 0 \<rparr>, ch_files = fs \<rparr>"

definition redact :: "config \<Rightarrow> config" where
  "redact c =
     c\<lparr> cf_ws := map_option (\<lambda>ws. if ws_auth_token ws \<noteq> None then ws\<lparr> ws_auth_token := Some REDACTED_SECRET \<rparr> else ws) (cf_ws c) \<rparr>"

definition get_config :: "config_hub \<Rightarrow> reply" where
  "get_config h =
     reply_config (config_json (redact (ch_current h))) (cold_divergence (ch_boot h) (ch_current h) \<noteq> [])"

text \<open>\<^verbatim>\<open>Config::save\<close>: nothing is written when validation or serialization fails.\<close>

definition save :: "hub_world \<Rightarrow> string \<Rightarrow> config \<Rightarrow> files \<Rightarrow> unit dres \<times> files" where
  "save w path c fs =
     (case validate (hw_data_dir w) (hw_debug w) c of
        Inl e \<Rightarrow> (Inl e, fs)
      | Inr _ \<Rightarrow>
          (case hw_to_toml w c of
             Inl m \<Rightarrow> (Inl (ConfigSerialize m), fs)
           | Inr contents \<Rightarrow> atomic_write (hw_fault w) (hw_removable w) path contents fs))"

definition persist :: "hub_world \<Rightarrow> config \<Rightarrow> config_hub \<Rightarrow> (reply + unit) \<times> config_hub" where
  "persist w candidate h =
     (case save w (ch_path h) candidate (ch_files h) of
        (Inr _, fs) \<Rightarrow> (Inr (), h\<lparr> ch_files := fs, ch_current := candidate \<rparr>)
      | (Inl (ConfigInvalid m), fs) \<Rightarrow> (Inl (reply_error BAD_REQUEST (''config rejected: '' @ m)), h\<lparr> ch_files := fs \<rparr>)
      | (Inl e, fs) \<Rightarrow>
          (Inl (reply_error INTERNAL (''config persist failed: '' @ daemon_error_display e)), h\<lparr> ch_files := fs \<rparr>))"

text \<open>Wake a watch only when its value changed.\<close>

definition refresh :: "'v \<Rightarrow> 'v watch \<Rightarrow> 'v watch" where
  "refresh v w = (if wt_value w \<noteq> v then send_replace v w else w)"

definition apply_config :: "config_hub \<Rightarrow> config_hub" where
  "apply_config h =
     h\<lparr> ch_alpaca := refresh (pc_alpaca (cf_provider (ch_current h))) (ch_alpaca h),
        ch_alpaca_crypto := refresh (pc_alpaca_crypto (cf_provider (ch_current h))) (ch_alpaca_crypto h) \<rparr>"

definition persist_and_apply :: "hub_world \<Rightarrow> config \<Rightarrow> config_hub \<Rightarrow> reply \<times> config_hub" where
  "persist_and_apply w candidate h =
     (case persist w candidate h of
        (Inr _, h') \<Rightarrow> (reply_applied_live, apply_config h')
      | (Inl r, h') \<Rightarrow> (r, h'))"

definition str_contains :: "string \<Rightarrow> string \<Rightarrow> bool" where
  "str_contains pat s \<longleftrightarrow> list_ex (\<lambda>i. take (length pat) (drop i s) = pat) [0..<length s + 1]"

definition settings_error :: "string \<Rightarrow> reply" where
  "settings_error msg =
     (if str_contains ''unknown field'' msg then reply_error UNKNOWN_CONFIG_FIELD msg
      else reply_error BAD_REQUEST (''invalid settings: '' @ msg))"

definition unknown_provider :: "hub_world \<Rightarrow> string \<Rightarrow> reply" where
  "unknown_provider w provider = reply_error UNKNOWN_PROVIDER (''no compiled-in provider '' @ hw_debug w provider)"

definition configure_provider :: "hub_world \<Rightarrow> string \<Rightarrow> json \<Rightarrow> config_hub \<Rightarrow> reply \<times> config_hub" where
  "configure_provider w provider settings0 h =
     (let settings = (if settings0 = JNull then JObj [] else settings0);
          candidate = ch_current h in
      if provider = ALPACA then
        (case hw_de_alpaca w settings of
           Inl m \<Rightarrow> (settings_error m, h)
         | Inr sect \<Rightarrow>
             persist_and_apply w (candidate\<lparr> cf_provider := (cf_provider candidate)\<lparr> pc_alpaca := Some sect \<rparr> \<rparr>) h)
      else if provider = ALPACA_CRYPTO then
        (case hw_de_alpaca_crypto w settings of
           Inl m \<Rightarrow> (settings_error m, h)
         | Inr sect \<Rightarrow>
             persist_and_apply w (candidate\<lparr> cf_provider := (cf_provider candidate)\<lparr> pc_alpaca_crypto := Some sect \<rparr> \<rparr>) h)
      else (unknown_provider w provider, h))"

definition remove_provider :: "hub_world \<Rightarrow> string \<Rightarrow> config_hub \<Rightarrow> reply \<times> config_hub" where
  "remove_provider w provider h =
     (let candidate = ch_current h in
      if provider = ALPACA then
        persist_and_apply w (candidate\<lparr> cf_provider := (cf_provider candidate)\<lparr> pc_alpaca := None \<rparr> \<rparr>) h
      else if provider = ALPACA_CRYPTO then
        persist_and_apply w (candidate\<lparr> cf_provider := (cf_provider candidate)\<lparr> pc_alpaca_crypto := None \<rparr> \<rparr>) h
      else (unknown_provider w provider, h))"

text \<open>The whole-document replacement of the web interface; the answer is whether a restart is needed.\<close>

definition apply_full :: "hub_world \<Rightarrow> config \<Rightarrow> config_hub \<Rightarrow> bool dres \<times> config_hub" where
  "apply_full w new h =
     (case save w (ch_path h) new (ch_files h) of
        (Inl e, fs) \<Rightarrow> (Inl e, h\<lparr> ch_files := fs \<rparr>)
      | (Inr _, fs) \<Rightarrow>
          let h' = apply_config (h\<lparr> ch_files := fs, ch_current := new \<rparr>) in
          (Inr (cold_divergence (ch_boot h') (ch_current h') \<noteq> []), h'))"

datatype config_op = ConfigureOp string json | RemoveOp string | ReplaceOp config

text \<open>One locked operation; how its write fares comes with it.\<close>

definition config_step ::
  "hub_world \<Rightarrow> write_fault option \<times> bool \<times> config_op \<Rightarrow> config_hub \<Rightarrow> bool \<times> config_hub" where
  "config_step w0 = (\<lambda>(fault, removable, op) h.
     let w = w0\<lparr> hw_fault := fault, hw_removable := removable \<rparr> in
     case op of
       ConfigureOp provider settings \<Rightarrow> (case configure_provider w provider settings h of (r, h') \<Rightarrow> (rp_ok r, h'))
     | RemoveOp provider \<Rightarrow> (case remove_provider w provider h of (r, h') \<Rightarrow> (rp_ok r, h'))
     | ReplaceOp new \<Rightarrow> (case apply_full w new h of (r, h') \<Rightarrow> (\<not> isl r, h')))"

section \<open>The credential hub\<close>

type_synonym alpaca_credentials = "string \<times> string"

record credential_hub =
  kh_store :: "string \<rightharpoonup> provider_credentials"
  kh_senders :: "string \<rightharpoonup> alpaca_credentials option watch"

fun to_alpaca :: "provider_credentials \<Rightarrow> alpaca_credentials option" where
  "to_alpaca (ApiKeyPair key_id secret) = Some (key_id, secret)"
| "to_alpaca (OtherCredentials _) = None"

text \<open>A store call may fail, or the blocking task that runs it.\<close>

datatype store_fault = StoreError string | TaskFailed string

definition store_fault_reply :: "store_fault \<Rightarrow> reply" where
  "store_fault_reply f = (case f of
     StoreError m \<Rightarrow> reply_error CREDENTIAL_BACKEND_UNAVAILABLE m
   | TaskFailed m \<Rightarrow> reply_error INTERNAL (''credential task failed: '' @ m))"

definition unknown_credential_provider :: "(string \<Rightarrow> string) \<Rightarrow> string \<Rightarrow> reply" where
  "unknown_credential_provider dbg provider = reply_error UNKNOWN_PROVIDER (''no configured provider '' @ dbg provider)"

definition set_credentials ::
  "(string \<Rightarrow> string) \<Rightarrow> store_fault option \<Rightarrow> string \<Rightarrow> provider_credentials \<Rightarrow> credential_hub \<Rightarrow> reply \<times> credential_hub" where
  "set_credentials dbg fault provider creds k =
     (case kh_senders k provider of
        None \<Rightarrow> (unknown_credential_provider dbg provider, k)
      | Some sender \<Rightarrow>
          (case to_alpaca creds of
             None \<Rightarrow> (reply_error BAD_REQUEST (''provider '' @ dbg provider @ '' takes an api_key_pair credential''), k)
           | Some alpaca \<Rightarrow>
               (case fault of
                  Some f \<Rightarrow> (store_fault_reply f, k)
                | None \<Rightarrow>
                    (reply_ok, k\<lparr> kh_store := (kh_store k)(provider \<mapsto> creds),
                                  kh_senders := (kh_senders k)(provider \<mapsto> send_replace (Some alpaca) sender) \<rparr>))))"

definition get_credentials ::
  "(string \<Rightarrow> string) \<Rightarrow> store_fault option \<Rightarrow> string \<Rightarrow> credential_hub \<Rightarrow> reply" where
  "get_credentials dbg fault provider k =
     (if kh_senders k provider = None then unknown_credential_provider dbg provider
      else case fault of
        Some f \<Rightarrow> store_fault_reply f
      | None \<Rightarrow>
          (case kh_store k provider of
             Some creds \<Rightarrow> reply_credentials creds
           | None \<Rightarrow> reply_error CREDENTIALS_MISSING (''no stored credentials for provider '' @ dbg provider)))"

definition clear_credentials ::
  "(string \<Rightarrow> string) \<Rightarrow> store_fault option \<Rightarrow> string \<Rightarrow> credential_hub \<Rightarrow> reply \<times> credential_hub" where
  "clear_credentials dbg fault provider k =
     (if kh_senders k provider = None then (unknown_credential_provider dbg provider, k)
      else case fault of
        Some f \<Rightarrow> (store_fault_reply f, k)
      | None \<Rightarrow> (reply_ok, k\<lparr> kh_store := (kh_store k)(provider := None) \<rparr>))"

text \<open>
  \<^verbatim>\<open>with_store\<close>: one watch per compiled-in provider, seeded from the store; a failed read leaves the
  provider unprovisioned. \<^verbatim>\<open>bootstrap\<close> then applies the environment fallback to the configured
  providers whose watch is still empty.
\<close>

definition with_store ::
  "(string \<Rightarrow> store_fault option) \<Rightarrow> (string \<rightharpoonup> provider_credentials) \<Rightarrow> string list \<Rightarrow> credential_hub" where
  "with_store read_fault stored ids =
     \<lparr> kh_store = stored,
       kh_senders = map_of (map (\<lambda>i. (i, \<lparr> wt_value = (if read_fault i = None then Option.bind (stored i) to_alpaca else None),
                                           wt_version = 0 \<rparr>)) ids) \<rparr>"

definition credential_bootstrap ::
  "(string \<Rightarrow> store_fault option) \<Rightarrow> (account_type_cfg \<Rightarrow> alpaca_credentials option) \<Rightarrow> (string \<rightharpoonup> provider_credentials) \<Rightarrow>
   string list \<Rightarrow> (string \<times> account_type_cfg) list \<Rightarrow> credential_hub" where
  "credential_bootstrap read_fault env stored ids env_fallback =
     foldl (\<lambda>k (i, acct). case kh_senders k i of
          None \<Rightarrow> k
        | Some sender \<Rightarrow>
            if wt_value sender \<noteq> None then k
            else (case env acct of
                    None \<Rightarrow> k
                  | Some creds \<Rightarrow> k\<lparr> kh_senders := (kh_senders k)(i \<mapsto> send_replace (Some creds) sender) \<rparr>))
       (with_store read_fault stored ids) env_fallback"

definition privileged_op_permitted :: "u32 option \<Rightarrow> u32 \<Rightarrow> bool" where
  "privileged_op_permitted peer_uid own_euid \<longleftrightarrow> peer_uid = Some own_euid"

datatype credential_op = SetOp string provider_credentials | ClearOp string

definition credential_step ::
  "(string \<Rightarrow> string) \<Rightarrow> store_fault option \<times> credential_op \<Rightarrow> credential_hub \<Rightarrow> bool \<times> credential_hub" where
  "credential_step dbg = (\<lambda>(fault, op) k. case op of
     SetOp provider creds \<Rightarrow> (case set_credentials dbg fault provider creds k of (r, k') \<Rightarrow> (rp_ok r, k'))
   | ClearOp provider \<Rightarrow> (case clear_credentials dbg fault provider k of (r, k') \<Rightarrow> (rp_ok r, k')))"

section \<open>The hubs keep the contract\<close>

lemma tmp_name_ne [simp]: "tmp_name p \<noteq> p" "p \<noteq> tmp_name p"
  by (simp_all add: tmp_name_def)

text \<open>Replacing the configuration file either succeeds, and the file holds the new contents, or
  fails and leaves the file exactly as it was; no other file but the sibling is touched.\<close>

lemma atomic_write_all_or_nothing:
  "atomic_write fault removable path contents fs = (r, fs') \<Longrightarrow>
   fs' path = (if r = Inr () then Some contents else fs path) \<and> (\<forall>f. f = path \<or> f = tmp_name path \<or> fs' f = fs f)"
  by (auto simp: atomic_write_def Let_def split: option.splits write_fault.splits if_splits)

lemma atomic_write_target:
  "atomic_write fault removable path contents fs = (r, fs') \<Longrightarrow>
   fs' path = (if r = Inr () then Some contents else fs path)"
  by (auto simp: atomic_write_def Let_def split: option.splits write_fault.splits if_splits)

lemma save_target:
  assumes "save w path c fs = (r, fs')"
  shows "(\<exists>e. r = Inl e \<and> fs' path = fs path) \<or>
    (r = Inr () \<and> validate (hw_data_dir w) (hw_debug w) c = Inr () \<and> (\<exists>text. hw_to_toml w c = Inr text \<and> fs' path = Some text))"
proof (cases "\<exists>text. validate (hw_data_dir w) (hw_debug w) c = Inr () \<and> hw_to_toml w c = Inr text")
  case True
  then obtain doc where t: "validate (hw_data_dir w) (hw_debug w) c = Inr ()" "hw_to_toml w c = Inr doc" by blast
  then have "atomic_write (hw_fault w) (hw_removable w) path doc fs = (r, fs')" using assms by (simp add: save_def)
  then show ?thesis using atomic_write_target [of _ _ path doc fs r fs'] t by (cases r) auto
next
  case False
  show ?thesis
  proof (cases "validate (hw_data_dir w) (hw_debug w) c")
    case (Inl e)
    have "(Inl e, fs) = (r, fs')" using assms unfolding save_def by (simp only: Inl sum.case)
    then show ?thesis by auto
  next
    case (Inr u)
    then obtain m where "hw_to_toml w c = Inl m" using False by (cases "hw_to_toml w c") auto
    then show ?thesis using assms Inr unfolding save_def by auto
  qed
qed

definition config_visible :: "config_hub \<Rightarrow> config_hub \<times> string option" where
  "config_visible h = (h\<lparr> ch_files := Map.empty \<rparr>, ch_files h (ch_path h))"

definition config_coherent :: "hub_world \<Rightarrow> config_hub \<Rightarrow> bool" where
  "config_coherent w h \<longleftrightarrow>
     wt_value (ch_alpaca h) = pc_alpaca (cf_provider (ch_current h)) \<and>
     wt_value (ch_alpaca_crypto h) = pc_alpaca_crypto (cf_provider (ch_current h)) \<and>
     validate (hw_data_dir w) (hw_debug w) (ch_current h) = Inr () \<and>
     (\<exists>text. hw_to_toml w (ch_current h) = Inr text \<and> ch_files h (ch_path h) = Some text)"

lemma refresh_value [simp]: "wt_value (refresh v w) = v"
  by (simp add: refresh_def send_replace_def)

lemma apply_config_coherent:
  assumes "save w (ch_path h) c (ch_files h) = (Inr (), fs)"
  shows "config_coherent w (apply_config (h\<lparr> ch_files := fs, ch_current := c \<rparr>))"
  using save_target [OF assms] by (auto simp: config_coherent_def apply_config_def)

lemma persist_and_apply_cases:
  assumes "persist_and_apply w c h = (r, h')"
  shows "(rp_ok r \<and> config_coherent w h') \<or> (\<not> rp_ok r \<and> config_visible h' = config_visible h)"
proof -
  obtain res fs where s: "save w (ch_path h) c (ch_files h) = (res, fs)" by fastforce
  show ?thesis
  proof (cases res)
    case (Inl e)
    then have "fs (ch_path h) = ch_files h (ch_path h)" using save_target [OF s] by auto
    then show ?thesis using assms s Inl
      by (auto simp: persist_and_apply_def persist_def reply_defs config_visible_def split: daemon_error.splits)
  next
    case (Inr u)
    then show ?thesis using assms s apply_config_coherent [of w h c fs]
      by (auto simp: persist_and_apply_def persist_def reply_defs)
  qed
qed

lemma settings_error_refuses [simp]: "\<not> rp_ok (settings_error m)" "\<not> rp_ok (unknown_provider w p)"
  by (simp_all add: settings_error_def unknown_provider_def reply_defs)

lemma config_coherent_world [simp]: "config_coherent (w\<lparr> hw_fault := f, hw_removable := b \<rparr>) = config_coherent w"
  by (simp add: config_coherent_def fun_eq_iff)

lemma config_step_cases:
  assumes "config_step w r h = (ok, h')"
  shows "(ok \<and> config_coherent w h') \<or> (\<not> ok \<and> config_visible h' = config_visible h)"
proof -
  obtain fault removable op where r: "r = (fault, removable, op)" by (cases r)
  let ?w = "w\<lparr> hw_fault := fault, hw_removable := removable \<rparr>"
  show ?thesis
  proof (cases op)
    case (ConfigureOp provider settings)
    then show ?thesis using assms r persist_and_apply_cases [of ?w]
      by (fastforce simp: config_step_def configure_provider_def Let_def split: if_splits sum.splits prod.splits)
  next
    case (RemoveOp provider)
    then show ?thesis using assms r persist_and_apply_cases [of ?w]
      by (fastforce simp: config_step_def remove_provider_def Let_def split: if_splits prod.splits)
  next
    case (ReplaceOp new)
    obtain res fs where s: "save ?w (ch_path h) new (ch_files h) = (res, fs)" by fastforce
    show ?thesis
      using assms r ReplaceOp s save_target [OF s] apply_config_coherent [of ?w h new fs]
      by (auto simp: config_step_def apply_full_def config_visible_def Let_def split: sum.splits)
  qed
qed

lemma coherent_visible: "config_visible h' = config_visible h \<Longrightarrow> config_coherent w h \<Longrightarrow> config_coherent w h'"
  unfolding config_visible_def config_coherent_def
  by (metis (no_types, lifting) config_hub.select_convs(1,3,4,5) config_hub.update_convs(6) config_hub.surjective prod.inject)

interpretation cfg: persist_then_apply "config_step w" config_visible "config_coherent w" for w
proof unfold_locales
  show "config_visible h' = config_visible h" if "config_step w r h = (False, h')" for r h h'
    using config_step_cases [OF that] by simp
  show "config_coherent w h'" if "config_step w r h = (ok, h')" "config_coherent w h" for r h ok h'
    using config_step_cases [OF that(1)] coherent_visible that(2) by blast
qed


text \<open>An operation that the configuration hub refuses leaves the document, the watches (their
  versions included) and the file's contents as they were.\<close>

lemma config_refused_unchanged:
  "config_step w r h = (False, h') \<Longrightarrow> config_visible h' = config_visible h"
  by (rule cfg.refused)

definition demo_hub_world :: hub_world where
  "demo_hub_world =
     \<lparr> hw_data_dir = None, hw_debug = id, hw_to_toml = (\<lambda>_. Inr ''toml''),
       hw_de_alpaca = (\<lambda>_. Inr \<lparr> al_account_type = Paper, al_history_feed = None \<rparr>), hw_de_alpaca_crypto = (\<lambda>_. Inl ''no''),
       hw_fault = None, hw_removable = True \<rparr>"


definition set_token :: "string \<Rightarrow> config \<Rightarrow> config" where
  "set_token t c = c\<lparr> cf_ws := map_option (\<lambda>ws. ws\<lparr> ws_auth_token := Some t \<rparr>) (cf_ws c) \<rparr>"

text \<open>The configuration that \<^verbatim>\<open>get-config\<close> answers with does not depend on the bearer token's value.\<close>

lemma get_config_hides_token:
  "rp_config (get_config (h\<lparr> ch_current := set_token t (ch_current h) \<rparr>)) =
   rp_config (get_config (h\<lparr> ch_current := set_token t' (ch_current h) \<rparr>))"
  by (simp add: get_config_def reply_defs redact_def set_token_def option.map_comp comp_def)

section \<open>Credentials\<close>

definition credentials_coherent :: "credential_hub \<Rightarrow> bool" where
  "credentials_coherent k \<longleftrightarrow>
     (\<forall>p sender c. kh_senders k p = Some sender \<longrightarrow> kh_store k p = Some c \<longrightarrow> wt_value sender = to_alpaca c)"

lemma store_fault_refuses [simp]: "\<not> rp_ok (store_fault_reply f)" "\<not> rp_ok (unknown_credential_provider dbg p)"
  by (simp_all add: store_fault_reply_def unknown_credential_provider_def reply_defs split: store_fault.splits)

interpretation cred: persist_then_apply "credential_step dbg" "\<lambda>k. k" credentials_coherent for dbg
proof unfold_locales
  show "k' = k" if "credential_step dbg r k = (False, k')" for r k k'
    using that
    by (auto simp: credential_step_def set_credentials_def clear_credentials_def reply_defs
        split: credential_op.splits option.splits prod.splits if_splits)
  show "credentials_coherent k'" if "credential_step dbg r k = (ok, k')" "credentials_coherent k" for r k ok k'
    using that
    by (auto simp: credential_step_def set_credentials_def clear_credentials_def credentials_coherent_def send_replace_def
        split: credential_op.splits option.splits prod.splits if_splits)
qed

lemma bootstrap_coherent:
  assumes "\<And>i. i \<in> set ids \<Longrightarrow> read_fault i = None" "\<And>i c. stored i = Some c \<Longrightarrow> to_alpaca c \<noteq> None"
  shows "credentials_coherent (credential_bootstrap read_fault env stored ids fallback)"
proof -
  have seed: "credentials_coherent (with_store read_fault stored ids)"
    using assms(1) by (auto simp: credentials_coherent_def with_store_def dest!: map_of_SomeD)
  define step where "step = (\<lambda>(k :: credential_hub) (i, acct). case kh_senders k i of
        None \<Rightarrow> k
      | Some sender \<Rightarrow>
          if wt_value sender \<noteq> None then k
          else (case env acct of
                  None \<Rightarrow> k
                | Some creds \<Rightarrow> k\<lparr> kh_senders := (kh_senders k)(i \<mapsto> send_replace (Some creds) sender) \<rparr>))"
  have "credentials_coherent (foldl step k fallback) \<and> kh_store (foldl step k fallback) = stored"
    if "credentials_coherent k" "kh_store k = stored" for k
    using that
  proof (induction fallback arbitrary: k)
    case (Cons f fs)
    have "credentials_coherent (step k f) \<and> kh_store (step k f) = stored"
      using Cons.prems assms(2) by (cases f) (fastforce simp: step_def credentials_coherent_def split: option.splits)
    then show ?case using Cons.IH by simp
  qed simp
  then show ?thesis using seed by (simp add: credential_bootstrap_def step_def [symmetric] with_store_def)
qed



end
