(* ===== verification/Daemon_System.thy ===== *)
theory Daemon_System
  imports Daemon_Inv Hubs
begin

text \<open>
  The control plane as a whole (\<^verbatim>\<open>datamancerd/src/server.rs\<close> and \<^verbatim>\<open>shutdown.rs\<close>): connection tasks, the
  actor behind its bounded FIFO command channel, the two hubs the connections call directly, and
  the switch to draining. A run is a list of inputs: each is one step of one task, in any order.
  A line arrives with the keys of its JSON object and the request the deserializer made of it.
\<close>

section \<open>Connections\<close>

record teardown_arm =
  ta_open_client :: "string option"
  ta_is_open_query :: bool
  ta_cancelled_query :: "query_id option"

definition teardown_of :: "request \<Rightarrow> teardown_arm" where
  "teardown_of request =
     \<lparr> ta_open_client = (case request of OpenClient client _ \<Rightarrow> Some client | _ \<Rightarrow> None),
       ta_is_open_query = (case request of OpenQuery _ \<Rightarrow> True | _ \<Rightarrow> False),
       ta_cancelled_query = (case request of CancelQuery query \<Rightarrow> Some query | _ \<Rightarrow> None) \<rparr>"

text \<open>
  A connection reads, awaits the actor's reply, has it, or has ended and is sending its teardown
  commands.
\<close>

datatype conn_phase =
    Reading
  | Awaiting teardown_arm
  | Replied teardown_arm reply
  | Ending "server_command list"

record conn =
  co_privileged :: bool
  co_opened_client :: "string option"
  co_opened_queries :: "query_id list"
  co_phase :: conn_phase

definition teardown_apply :: "teardown_arm \<Rightarrow> reply \<Rightarrow> conn \<Rightarrow> conn" where
  "teardown_apply arm r c =
     (let c1 = (if rp_ok r then
                  c\<lparr> co_opened_client := (case ta_open_client arm of Some name \<Rightarrow> Some name | None \<Rightarrow> co_opened_client c),
                     co_opened_queries := (case (ta_is_open_query arm, rp_query r) of
                        (True, Some q) \<Rightarrow> co_opened_queries c @ [q] | _ \<Rightarrow> co_opened_queries c) \<rparr>
                else c)
      in case ta_cancelled_query arm of
           Some q \<Rightarrow>
             if rp_ok r \<or> rp_code r = Some UNKNOWN_QUERY
             then c1\<lparr> co_opened_queries := filter (\<lambda>open_q. open_q \<noteq> q) (co_opened_queries c1) \<rparr> else c1
         | None \<Rightarrow> c1)"

definition emergency_teardown :: "conn \<Rightarrow> server_command list" where
  "emergency_teardown c =
     (case co_opened_client c of Some client \<Rightarrow> [Disconnect client] | None \<Rightarrow> []) @
     (if co_opened_queries c \<noteq> [] then [CancelQueries (co_opened_queries c)] else [])"

definition end_conn :: "conn \<Rightarrow> conn" where
  "end_conn c = c\<lparr> co_phase := Ending (emergency_teardown c) \<rparr>"

section \<open>The system\<close>

record 'c system =
  sy_server :: "'c server"
  sy_config :: config_hub
  sy_credentials :: credential_hub
  sy_conns :: "conn list"
  sy_queue :: "server_command list"
  sy_running :: bool
  sy_written :: "(nat \<times> reply) list"
  sy_drain :: "string list"

definition CHANNEL_CAPACITY :: nat where "CHANNEL_CAPACITY = 256"

datatype line = Blank | Malformed string | Parsed "string list" request

text \<open>What the outside gives while a line is served: hub answers and whether the reply could be written.\<close>

record line_world =
  lw_hub :: hub_world
  lw_store :: "store_fault option"
  lw_write :: bool

datatype 'c sys_in =
    Accept "u32 option"
  | Line nat line line_world
  | Eof nat
  | Actor "'c answers"
  | Resume nat bool
  | SendTeardown nat
  | PumpEnds query_id
  | Signal "'c answers"

definition on_conn :: "nat \<Rightarrow> (conn \<Rightarrow> conn) \<Rightarrow> 'c system \<Rightarrow> 'c system" where
  "on_conn i f y = y\<lparr> sy_conns := (sy_conns y)[i := f (sy_conns y ! i)] \<rparr>"

text \<open>Write a reply line; a failed write ends the connection.\<close>

definition write_reply :: "bool \<Rightarrow> nat \<Rightarrow> reply \<Rightarrow> 'c system \<Rightarrow> 'c system" where
  "write_reply ok i r y =
     (if ok then y\<lparr> sy_written := sy_written y @ [(i, r)] \<rparr> else on_conn i end_conn y)"

text \<open>Hand a request to the actor; a full channel keeps the connection waiting to send.\<close>

definition forward_request :: "nat \<Rightarrow> request \<Rightarrow> 'c system \<Rightarrow> 'c system" where
  "forward_request i request y =
     (if length (sy_queue y) < CHANNEL_CAPACITY then
        on_conn i (\<lambda>c. c\<lparr> co_phase := Awaiting (teardown_of request) \<rparr>) (y\<lparr> sy_queue := sy_queue y @ [CmdRequest i request] \<rparr>)
      else y)"

definition dispatch_credential_op :: "line_world \<Rightarrow> request \<Rightarrow> credential_hub \<Rightarrow> reply \<times> credential_hub" where
  "dispatch_credential_op w request k =
     (case request of
        SetCredentials provider creds \<Rightarrow> set_credentials (hw_debug (lw_hub w)) (lw_store w) provider creds k
      | GetCredentials provider \<Rightarrow> (get_credentials (hw_debug (lw_hub w)) (lw_store w) provider k, k)
      | ClearCredentials provider \<Rightarrow> clear_credentials (hw_debug (lw_hub w)) (lw_store w) provider k
      | _ \<Rightarrow> (reply_error INTERNAL ''unreachable credential dispatch'', k))"

definition is_credential_op :: "request \<Rightarrow> bool" where
  "is_credential_op request =
     (case request of SetCredentials _ _ \<Rightarrow> True | GetCredentials _ \<Rightarrow> True | ClearCredentials _ \<Rightarrow> True | _ \<Rightarrow> False)"

text \<open>One parsed request on a reading connection: the chain of \<^verbatim>\<open>serve_connection\<close>.\<close>

definition serve_request :: "line_world \<Rightarrow> nat \<Rightarrow> string list \<Rightarrow> request \<Rightarrow> 'c system \<Rightarrow> 'c system" where
  "serve_request w i keys request y =
     (let privileged = co_privileged (sy_conns y ! i);
          answer = (\<lambda>r y. write_reply (lw_write w) i r y) in
      case reject_unknown_keys keys request of
        Inl detail \<Rightarrow> answer (reply_error BAD_REQUEST detail) y
      | Inr _ \<Rightarrow>
          (case request of
             Instruments provider \<Rightarrow> answer (dispatch_instruments (sv_dm (sy_server y)) provider) y
           | Capabilities provider symbols \<Rightarrow> answer (dispatch_capabilities (sv_dm (sy_server y)) provider symbols) y
           | GetConfig \<Rightarrow> answer (get_config (sy_config y)) y
           | ConfigureProvider provider settings \<Rightarrow>
               if privileged then
                 (case configure_provider (lw_hub w) provider settings (sy_config y) of
                    (r, h) \<Rightarrow> answer r (y\<lparr> sy_config := h \<rparr>))
               else answer (reply_error PERMISSION_DENIED ''config mutation and shutdown ops require the daemon owner's uid'') y
           | RemoveProvider provider \<Rightarrow>
               if privileged then
                 (case remove_provider (lw_hub w) provider (sy_config y) of (r, h) \<Rightarrow> answer r (y\<lparr> sy_config := h \<rparr>))
               else answer (reply_error PERMISSION_DENIED ''config mutation and shutdown ops require the daemon owner's uid'') y
           | Shutdown \<Rightarrow>
               if privileged then forward_request i Shutdown y
               else answer (reply_error PERMISSION_DENIED ''config mutation and shutdown ops require the daemon owner's uid'') y
           | _ \<Rightarrow>
               if is_credential_op request then
                 (if privileged then
                    (case dispatch_credential_op w request (sy_credentials y) of
                       (r, k) \<Rightarrow> answer r (y\<lparr> sy_credentials := k \<rparr>))
                  else answer (reply_error PERMISSION_DENIED ''credential ops require the daemon owner's uid'') y)
               else forward_request i request y))"

definition serve_line :: "line_world \<Rightarrow> nat \<Rightarrow> line \<Rightarrow> 'c system \<Rightarrow> 'c system" where
  "serve_line w i ln y =
     (case ln of
        Blank \<Rightarrow> y
      | Malformed e \<Rightarrow> write_reply (lw_write w) i (reply_error BAD_REQUEST (''invalid request: '' @ e)) y
      | Parsed keys request \<Rightarrow> serve_request w i keys request y)"

text \<open>A reply reaches the connection that awaits it.\<close>

definition deliver_reply :: "nat \<times> reply \<Rightarrow> 'c system \<Rightarrow> 'c system" where
  "deliver_reply = (\<lambda>(i, r) y.
     on_conn i (\<lambda>c. case co_phase c of Awaiting arm \<Rightarrow> c\<lparr> co_phase := Replied arm r \<rparr> | _ \<Rightarrow> c) y)"

section \<open>Shutdown\<close>

text \<open>The phases \<^verbatim>\<open>drain\<close> records, over the clients in the order they left the map.\<close>

definition drain_phases :: "string list \<Rightarrow> string list" where
  "drain_phases names =
     [''stop-accept'', ''diagnostics-stop''] @ map (\<lambda>n. ''client-close:'' @ n) names @
     [''anchor-drop'', ''tap-log-flush''] @ map (\<lambda>n. ''client-flush:'' @ n) names"

text \<open>After the loop breaks: refuse requests, abort the queries, then drain the clients and anchors.\<close>

definition shutdown_server :: "'c answers \<Rightarrow> 'c server \<Rightarrow> 'c server" where
  "shutdown_server w s =
     (let s1 = abort_all_queries (s\<lparr> sv_draining := True \<rparr>);
          closed = List.map_filter (\<lambda>(n, e). map_option (Pair n) (close_entry w e)) (sv_clients s1)
      in s1\<lparr> sv_clients := [], sv_anchors := [], sv_closed := sv_closed s1 @ closed \<rparr>)"

definition stop_running :: "'c answers \<Rightarrow> 'c system \<Rightarrow> 'c system" where
  "stop_running w y =
     y\<lparr> sy_running := False, sy_server := shutdown_server w (sy_server y),
        sy_drain := drain_phases (map fst (sv_clients (sy_server y))) \<rparr>"

text \<open>\<^verbatim>\<open>drain_servicing_late_requests\<close>: requests are refused, everything else is dropped.\<close>

definition serve_late :: "server_command \<Rightarrow> 'c system \<Rightarrow> 'c system" where
  "serve_late cmd y =
     (case cmd of
        CmdRequest i _ \<Rightarrow> deliver_reply (i, reply_error SHUTTING_DOWN ''daemon is shutting down'') y
      | _ \<Rightarrow> y)"

definition actor_step :: "'c answers \<Rightarrow> 'c system \<Rightarrow> 'c system" where
  "actor_step w y =
     (case sy_queue y of
        [] \<Rightarrow> y
      | cmd # rest \<Rightarrow>
          let y0 = y\<lparr> sy_queue := rest \<rparr> in
          if \<not> sy_running y then serve_late cmd y0
          else
            (case handle w cmd (sy_server y) of
               (go, out, s) \<Rightarrow>
                 let y1 = y0\<lparr> sy_server := s \<rparr>;
                     y2 = (case out of None \<Rightarrow> y1 | Some ir \<Rightarrow> deliver_reply ir y1)
                 in if go then y2 else stop_running w y2))"

section \<open>Steps\<close>

definition phase_of :: "nat \<Rightarrow> 'c system \<Rightarrow> conn_phase option" where
  "phase_of i y = (if i < length (sy_conns y) then Some (co_phase (sy_conns y ! i)) else None)"

definition sys_step :: "u32 \<Rightarrow> 'c sys_in \<Rightarrow> 'c system \<Rightarrow> 'c system" where
  "sys_step own_euid inp y =
     (case inp of
        Accept peer_uid \<Rightarrow>
          if sy_running y then
            y\<lparr> sy_conns := sy_conns y @ [\<lparr> co_privileged = privileged_op_permitted peer_uid own_euid,
                 co_opened_client = None, co_opened_queries = [], co_phase = Reading \<rparr>] \<rparr>
          else y
      | Line i ln w \<Rightarrow> if phase_of i y = Some Reading then serve_line w i ln y else y
      | Eof i \<Rightarrow> if phase_of i y = Some Reading then on_conn i end_conn y else y
      | Actor w \<Rightarrow> actor_step w y
      | Resume i ok \<Rightarrow>
          (case phase_of i y of
             Some (Replied arm r) \<Rightarrow>
               write_reply ok i r (on_conn i (\<lambda>c. (teardown_apply arm r c)\<lparr> co_phase := Reading \<rparr>) y)
           | _ \<Rightarrow> y)
      | SendTeardown i \<Rightarrow>
          (case phase_of i y of
             Some (Ending (cmd # cmds)) \<Rightarrow>
               if length (sy_queue y) < CHANNEL_CAPACITY then
                 on_conn i (\<lambda>c. c\<lparr> co_phase := Ending cmds \<rparr>) (y\<lparr> sy_queue := sy_queue y @ [cmd] \<rparr>)
               else y
           | _ \<Rightarrow> y)
      | PumpEnds q \<Rightarrow>
          if q \<in> fst ` set (sv_queries (sy_server y)) \<and> length (sy_queue y) < CHANNEL_CAPACITY
          then y\<lparr> sy_queue := sy_queue y @ [QueryFinished q] \<rparr> else y
      | Signal w \<Rightarrow> if sy_running y then stop_running w y else y)"

definition sys_run :: "u32 \<Rightarrow> 'c sys_in list \<Rightarrow> 'c system \<Rightarrow> 'c system" where
  "sys_run own_euid ins y = foldl (\<lambda>y inp. sys_step own_euid inp y) y ins"

definition system_new :: "'c server \<Rightarrow> config_hub \<Rightarrow> credential_hub \<Rightarrow> 'c system" where
  "system_new s h k =
     \<lparr> sy_server = s, sy_config = h, sy_credentials = k, sy_conns = [], sy_queue = [], sy_running = True,
       sy_written = [], sy_drain = [] \<rparr>"

end
