(* ===== verification/Daemon_Safety.thy ===== *)
theory Daemon_Safety
  imports Daemon_System
begin

text \<open>
  What holds of the control plane in every run: the registries stay within their caps with unique
  names and services, every query in flight belongs to a connection that will end it, and no
  connection of another user reaches the hubs or stops the daemon.
\<close>

section \<open>How a step moves the server\<close>

lemma on_conn_fields [simp]:
  "sy_server (on_conn i f y) = sy_server y" "sy_config (on_conn i f y) = sy_config y"
  "sy_credentials (on_conn i f y) = sy_credentials y" "sy_queue (on_conn i f y) = sy_queue y"
  "sy_running (on_conn i f y) = sy_running y" "sy_conns (on_conn i f y) = (sy_conns y)[i := f (sy_conns y ! i)]"
  by (simp_all add: on_conn_def)

lemma write_reply_fields [simp]:
  "sy_server (write_reply ok i r y) = sy_server y" "sy_config (write_reply ok i r y) = sy_config y"
  "sy_credentials (write_reply ok i r y) = sy_credentials y" "sy_queue (write_reply ok i r y) = sy_queue y"
  "sy_running (write_reply ok i r y) = sy_running y"
  "sy_conns (write_reply ok i r y) = (if ok then sy_conns y else (sy_conns y)[i := end_conn (sy_conns y ! i)])"
  by (simp_all add: write_reply_def)

lemma deliver_reply_fields [simp]:
  "sy_server (deliver_reply ir y) = sy_server y" "sy_config (deliver_reply ir y) = sy_config y"
  "sy_credentials (deliver_reply ir y) = sy_credentials y" "sy_queue (deliver_reply ir y) = sy_queue y"
  "sy_running (deliver_reply ir y) = sy_running y"
  by (simp_all add: deliver_reply_def split: prod.splits)

lemma forward_request_fields [simp]:
  "sy_server (forward_request i r y) = sy_server y" "sy_config (forward_request i r y) = sy_config y"
  "sy_credentials (forward_request i r y) = sy_credentials y" "sy_running (forward_request i r y) = sy_running y"
  by (simp_all add: forward_request_def)

text \<open>A line is answered by the connection itself, with the hubs changed only for the owner, or is
  handed to the actor.\<close>

definition answers_line :: "line_world \<Rightarrow> nat \<Rightarrow> 'c system \<Rightarrow> 'c system \<Rightarrow> bool" where
  "answers_line w i y y' \<longleftrightarrow>
     (\<exists>r h k. y' = write_reply (lw_write w) i r (y\<lparr> sy_config := h, sy_credentials := k \<rparr>) \<and>
        (co_privileged (sy_conns y ! i) \<or> h = sy_config y \<and> k = sy_credentials y))"

lemma answers_same: "answers_line w i y (write_reply (lw_write w) i r y)"
  unfolding answers_line_def by (rule exI [of _ r], rule exI [of _ "sy_config y"], rule exI [of _ "sy_credentials y"]) simp

lemma answers_config:
  "co_privileged (sy_conns y ! i) \<Longrightarrow> answers_line w i y (write_reply (lw_write w) i r (y\<lparr> sy_config := h \<rparr>))"
  unfolding answers_line_def by (rule exI [of _ r], rule exI [of _ h], rule exI [of _ "sy_credentials y"]) simp

lemma answers_credentials:
  "co_privileged (sy_conns y ! i) \<Longrightarrow> answers_line w i y (write_reply (lw_write w) i r (y\<lparr> sy_credentials := k \<rparr>))"
  unfolding answers_line_def by (rule exI [of _ r], rule exI [of _ "sy_config y"], rule exI [of _ k]) simp

lemmas answers = answers_same answers_config answers_credentials

lemma serve_request_cases:
  "answers_line w i y (serve_request w i keys request y) \<or>
   (serve_request w i keys request y = forward_request i request y \<and>
    (request = Shutdown \<longrightarrow> co_privileged (sy_conns y ! i)))"
proof (cases "reject_unknown_keys keys request")
  case (Inl d)
  then show ?thesis by (simp add: serve_request_def Let_def answers)
next
  case (Inr u)
  then show ?thesis
    by (cases request) (simp_all add: serve_request_def Let_def answers is_credential_op_def split: prod.split)
qed

lemma serve_line_cases:
  "serve_line w i ln y = y \<or> answers_line w i y (serve_line w i ln y) \<or>
   (\<exists>request. serve_line w i ln y = forward_request i request y \<and>
      (request = Shutdown \<longrightarrow> co_privileged (sy_conns y ! i)))"
proof (cases ln)
  case (Parsed keys request)
  then show ?thesis using serve_request_cases [of w i y keys request] by (auto simp: serve_line_def)
qed (simp_all add: serve_line_def answers)

lemma serve_line_server [simp]:
  "sy_server (serve_line w i ln y) = sy_server y" "sy_running (serve_line w i ln y) = sy_running y"
  using serve_line_cases [of w i ln y] by (auto simp: answers_line_def)

lemma serve_late_fields [simp]:
  "sy_server (serve_late cmd y) = sy_server y" "sy_running (serve_late cmd y) = sy_running y"
  "sy_queue (serve_late cmd y) = sy_queue y" "sy_config (serve_late cmd y) = sy_config y"
  "sy_credentials (serve_late cmd y) = sy_credentials y"
  by (auto simp: serve_late_def split: server_command.splits)

section \<open>The registries\<close>

definition fresh_server :: "'c server \<Rightarrow> bool" where
  "fresh_server s \<longleftrightarrow> sv_clients s = [] \<and> sv_queries s = [] \<and> sv_next_client_id s = 0"

lemma bootstrap_fresh: "bootstrap bw c = Inr s \<Longrightarrow> fresh_server s"
  by (auto simp: bootstrap_def fresh_server_def split: sum.splits option.splits)

lemma fresh_registry: "fresh_server s \<Longrightarrow> registry_ok 0 s"
  by (simp add: fresh_server_def registry_ok_def view_ok_def view_of_def)

lemma shutdown_view:
  "view_of (shutdown_server w s) = ([], [], sv_next_client_id s)" "sv_service_prefix (shutdown_server w s) = sv_service_prefix s"
  "sv_max_clients (shutdown_server w s) = sv_max_clients s" "sv_max_queries (shutdown_server w s) = sv_max_queries s"
  by (simp_all add: shutdown_server_def abort_all_queries_def view_of_def Let_def)

lemma shutdown_registry:
  assumes "registry_ok b s"
  shows "registry_ok b (shutdown_server w s)"
proof -
  obtain cv qv where v: "view_of s = (cv, qv, sv_next_client_id s)" by (simp add: view_of_def)
  then show ?thesis
    using assms view_ok_filter [of _ _ _ b cv qv _ "\<lambda>_. False" "\<lambda>_. False"] by (simp add: registry_ok_def shutdown_view)
qed

lemma registry_ok_mono: "registry_ok b s \<Longrightarrow> b \<le> b' \<Longrightarrow> registry_ok b' s"
  unfolding registry_ok_def by (rule view_ok_mono)

text \<open>The server after a step: unchanged, moved by one command, or shut down.\<close>

lemma actor_server:
  "sy_server (actor_step w y) = sy_server y \<or>
   (\<exists>go out s cmd. handle w cmd (sy_server y) = (go, out, s) \<and>
      sy_server (actor_step w y) = (if go then s else shutdown_server w s))"
proof (cases "sy_queue y")
  case (Cons cmd rest)
  show ?thesis
  proof (cases "sy_running y")
    case True
    obtain go out s where h: "handle w cmd (sy_server y) = (go, out, s)" by (metis prod_cases3)
    then have "sy_server (actor_step w y) = (if go then s else shutdown_server w s)"
      using Cons True by (auto simp: actor_step_def stop_running_def Let_def split: option.splits)
    then show ?thesis using h by blast
  qed (simp add: actor_step_def Cons)
qed (simp add: actor_step_def)

lemma step_server:
  "sy_server (sys_step e inp y) = sy_server y \<or> (\<exists>w. sy_server (sys_step e inp y) = shutdown_server w (sy_server y)) \<or>
   (\<exists>w. inp = Actor w)"
  by (cases inp) (auto simp: sys_step_def stop_running_def split: option.splits conn_phase.splits list.splits)

lemma step_registry:
  assumes "registry_ok b (sy_server y)" "b < 2 ^ 64 - 1"
  shows "registry_ok (b + 1) (sy_server (sys_step e inp y))"
proof (cases "\<exists>w. inp = Actor w")
  case True
  then obtain w where w: "sys_step e inp y = actor_step w y" by (auto simp: sys_step_def)
  consider "sy_server (actor_step w y) = sy_server y"
    | go out s cmd where "handle w cmd (sy_server y) = (go, out, s)"
        "sy_server (actor_step w y) = (if go then s else shutdown_server w s)"
    using actor_server by metis
  then show ?thesis
  proof cases
    case 2
    then have "registry_ok (b + 1) s" using registry_ok_refines [OF handle_refines assms] by blast
    then show ?thesis using 2 w by (simp add: shutdown_registry)
  qed (use w assms registry_ok_mono [of b "sy_server y" "b + 1"] in simp)
next
  case False
  then show ?thesis
    using step_server [of e inp y] assms(1) registry_ok_mono [of b _ "b + 1"] shutdown_registry by fastforce
qed

lemma sys_run_snoc [simp]: "sys_run e (ins @ [inp]) y = sys_step e inp (sys_run e ins y)" "sys_run e [] y = y"
  by (simp_all add: sys_run_def)

lemma run_registry:
  assumes "fresh_server s" "length ins < 2 ^ 64"
  shows "registry_ok (length ins) (sy_server (sys_run e ins (system_new s h k)))"
  using assms(2)
proof (induction ins rule: rev_induct)
  case Nil
  then show ?case using fresh_registry [OF assms(1)] by (simp add: system_new_def)
next
  case (snoc inp ins)
  then show ?case using step_registry [of "length ins" "sys_run e ins (system_new s h k)" e inp] by simp
qed

end
