(* ===== verification/Daemon_Owner.thy ===== *)
theory Daemon_Owner
  imports Daemon_Safety
begin

text \<open>
  Ownership of historical queries: an invariant of the whole control plane that says which
  connection, or which command on its way to the actor, will end each query in flight.
\<close>

section \<open>The invariant\<close>

definition query_ids :: "'c server \<Rightarrow> query_id set" where
  "query_ids s = fst ` set (sv_queries s)"

fun is_request :: "server_command \<Rightarrow> bool" where
  "is_request (CmdRequest _ _) = True"
| "is_request _ = False"

text \<open>The connection holds the query, or is about to, or is sending its cancellation.\<close>

definition owns :: "query_id \<Rightarrow> conn \<Rightarrow> bool" where
  "owns q c \<longleftrightarrow> (case co_phase c of
     Ending cmds \<Rightarrow> \<exists>qs. CancelQueries qs \<in> set cmds \<and> q \<in> set qs
   | Replied arm r \<Rightarrow> q \<in> set (co_opened_queries c) \<or> (ta_is_open_query arm \<and> rp_ok r \<and> rp_query r = Some q)
   | _ \<Rightarrow> q \<in> set (co_opened_queries c))"

definition cancel_queued :: "query_id \<Rightarrow> server_command list \<Rightarrow> bool" where
  "cancel_queued q queue \<longleftrightarrow> (\<exists>qs. CancelQueries qs \<in> set queue \<and> q \<in> set qs)"

definition query_owned :: "query_id \<Rightarrow> 'c system \<Rightarrow> bool" where
  "query_owned q y \<longleftrightarrow> (\<exists>c \<in> set (sy_conns y). owns q c) \<or> cancel_queued q (sy_queue y)"

text \<open>What a connection remembers, against the ids in flight and the next id.\<close>

definition conn_ok :: "query_id set \<Rightarrow> u64 \<Rightarrow> conn \<Rightarrow> bool" where
  "conn_ok K n c \<longleftrightarrow> (\<forall>q \<in> set (co_opened_queries c). q < n) \<and>
     (case co_phase c of
        Reading \<Rightarrow> True
      | Awaiting arm \<Rightarrow> (\<exists>req. arm = teardown_of req)
      | Replied arm r \<Rightarrow> (\<exists>req. arm = teardown_of req) \<and> (\<forall>q. rp_query r = Some q \<longrightarrow> q < n) \<and>
          (\<forall>q \<in> set (co_opened_queries c). ta_cancelled_query arm = Some q \<longrightarrow>
             rp_ok r \<or> rp_code r = Some UNKNOWN_QUERY \<longrightarrow> q \<notin> K)
      | Ending cmds \<Rightarrow> \<forall>cmd \<in> set cmds. \<not> is_request cmd)"

fun request_conns :: "server_command list \<Rightarrow> nat list" where
  "request_conns [] = []"
| "request_conns (CmdRequest i _ # cmds) = i # request_conns cmds"
| "request_conns (_ # cmds) = request_conns cmds"

definition requests_ok :: "'c system \<Rightarrow> bool" where
  "requests_ok y \<longleftrightarrow> distinct (request_conns (sy_queue y)) \<and>
     (\<forall>i req. CmdRequest i req \<in> set (sy_queue y) \<longrightarrow> phase_of i y = Some (Awaiting (teardown_of req)))"

definition owner_inv :: "'c system \<Rightarrow> bool" where
  "owner_inv y \<longleftrightarrow>
     (\<forall>c \<in> set (sy_conns y). conn_ok (query_ids (sy_server y)) (sv_next_client_id (sy_server y)) c) \<and>
     (\<forall>q \<in> query_ids (sy_server y). query_owned q y) \<and> requests_ok y \<and>
     (sy_running y \<or> sv_queries (sy_server y) = [])"

section \<open>Connections\<close>

lemma request_conns_append [simp]: "request_conns (xs @ ys) = request_conns xs @ request_conns ys"
  by (induction xs rule: request_conns.induct) simp_all

lemma in_request_conns: "i \<in> set (request_conns cmds) \<longleftrightarrow> (\<exists>req. CmdRequest i req \<in> set cmds)"
  by (induction cmds rule: request_conns.induct) auto

lemma not_request [simp]: "\<not> is_request c \<Longrightarrow> request_conns [c] = []" "\<not> is_request c \<Longrightarrow> c \<noteq> CmdRequest i r"
  by (cases c; simp)+

lemma conn_ok_mono:
  assumes "conn_ok K n c" "n \<le> n'" "\<And>q. q \<in> K' \<Longrightarrow> q \<in> K \<or> n \<le> q"
  shows "conn_ok K' n' c"
proof -
  have old: "q < n \<Longrightarrow> q \<in> K' \<Longrightarrow> q \<in> K" "q < n \<Longrightarrow> q < n'" for q using assms(2,3) by (auto simp: not_le [symmetric])
  then show ?thesis using assms(1) by (cases "co_phase c") (auto simp: conn_ok_def)
qed

lemma end_conn_ok: "conn_ok K n c \<Longrightarrow> conn_ok K n (end_conn c)"
  by (auto simp: conn_ok_def end_conn_def emergency_teardown_def split: option.splits conn_phase.splits)

lemma end_conn_owns: "co_phase c = Reading \<Longrightarrow> owns q c \<Longrightarrow> owns q (end_conn c)"
  by (auto simp: owns_def end_conn_def emergency_teardown_def)

lemma teardown_of_simps [simp]:
  "ta_is_open_query (teardown_of req) \<longleftrightarrow> (\<exists>s. req = OpenQuery s)"
  "ta_cancelled_query (teardown_of req) = Some q \<longleftrightarrow> req = CancelQuery q"
  by (simp_all add: teardown_of_def split: request.split)

text \<open>Taking a reply in keeps every query that is still in flight.\<close>

lemma resume_keeps:
  assumes "conn_ok K n c" "co_phase c = Replied arm r" "owns q c" "q \<in> K"
  shows "q \<in> set (co_opened_queries (teardown_apply arm r c))"
proof -
  obtain req where req: "arm = teardown_of req" using assms(1,2) by (auto simp: conn_ok_def)
  have "q \<in> set (co_opened_queries c) \<or> (\<exists>s. req = OpenQuery s) \<and> rp_ok r \<and> rp_query r = Some q"
    using assms(2,3) req by (simp add: owns_def)
  moreover have "req = CancelQuery q \<Longrightarrow> q \<in> set (co_opened_queries c) \<Longrightarrow> \<not> (rp_ok r \<or> rp_code r = Some UNKNOWN_QUERY)"
    using assms(1,2,4) req by (auto simp: conn_ok_def)
  ultimately show ?thesis
    unfolding teardown_apply_def req by (cases req) (auto simp: teardown_of_def split: option.splits)
qed

lemma resume_ok:
  assumes "conn_ok K n c" "co_phase c = Replied arm r"
  shows "conn_ok K n ((teardown_apply arm r c)\<lparr> co_phase := Reading \<rparr>)"
  using assms by (auto simp: conn_ok_def teardown_apply_def Let_def split: option.splits if_splits bool.splits)

section \<open>Steps of a connection\<close>

lemma phase_ofD: "phase_of i y = Some ph \<Longrightarrow> i < length (sy_conns y) \<and> co_phase (sy_conns y ! i) = ph"
  by (simp add: phase_of_def split: if_splits)

lemma update_owned:
  assumes "query_owned q y" "sy_conns y' = (sy_conns y)[i := c']" "i < length (sy_conns y)"
    "owns q (sy_conns y ! i) \<Longrightarrow> owns q c' \<or> cancel_queued q (sy_queue y')"
    "cancel_queued q (sy_queue y) \<Longrightarrow> cancel_queued q (sy_queue y')"
  shows "query_owned q y'"
  using assms(1) unfolding query_owned_def
proof
  assume "\<exists>c \<in> set (sy_conns y). owns q c"
  then obtain j where j: "j < length (sy_conns y)" "owns q (sy_conns y ! j)" by (auto simp: in_set_conv_nth)
  show "(\<exists>c \<in> set (sy_conns y'). owns q c) \<or> cancel_queued q (sy_queue y')"
  proof (cases "j = i")
    case True
    then show ?thesis using assms(2-4) j by (metis length_list_update nth_list_update_eq nth_mem)
  next
    case False
    then have "sy_conns y' ! j = sy_conns y ! j" "j < length (sy_conns y')" using assms(2) j by simp_all
    then show ?thesis using j(2) by (metis nth_mem)
  qed
qed (use assms(5) in simp)

lemma conn_update_inv:
  assumes "owner_inv y" "i < length (sy_conns y)" "sy_conns y' = (sy_conns y)[i := c']"
    "sy_server y' = sy_server y" "sy_running y' = sy_running y"
    "conn_ok (query_ids (sy_server y)) (sv_next_client_id (sy_server y)) c'" "requests_ok y'"
    "\<And>q. q \<in> query_ids (sy_server y) \<Longrightarrow> owns q (sy_conns y ! i) \<Longrightarrow> owns q c' \<or> cancel_queued q (sy_queue y')"
    "\<And>q. cancel_queued q (sy_queue y) \<Longrightarrow> cancel_queued q (sy_queue y')"
  shows "owner_inv y'"
proof -
  have "\<forall>c \<in> set (sy_conns y'). conn_ok (query_ids (sy_server y)) (sv_next_client_id (sy_server y)) c"
    using assms(1,3,6) set_update_subset_insert [of "sy_conns y" i c'] by (auto simp: owner_inv_def)
  moreover have "query_owned q y'" if "q \<in> query_ids (sy_server y)" for q
    using assms(1) that update_owned [OF _ assms(3,2)] assms(8,9) by (auto simp: owner_inv_def)
  ultimately show ?thesis using assms(1,4,5,7) by (simp add: owner_inv_def)
qed

text \<open>A connection that is not awaiting a reply has no request in the queue.\<close>

lemma requests_keep:
  assumes "requests_ok y" "i < length (sy_conns y)" "\<And>arm. co_phase (sy_conns y ! i) \<noteq> Awaiting arm"
    "sy_conns y' = (sy_conns y)[i := c']" "sy_queue y' = sy_queue y @ cmds" "list_all (\<lambda>c. \<not> is_request c) cmds"
  shows "requests_ok y'"
proof -
  have none: "request_conns cmds = []" "CmdRequest j req \<notin> set cmds" for j req
    using assms(6) by (induction cmds rule: request_conns.induct) auto
  have "phase_of j y' = Some (Awaiting (teardown_of req))" if "CmdRequest j req \<in> set (sy_queue y)" for j req
    using assms(1-4) that phase_ofD [of j y] by (fastforce simp: requests_ok_def phase_of_def nth_list_update)
  then show ?thesis using assms(1,5) none by (auto simp: requests_ok_def)
qed

lemma requests_server: "requests_ok (y\<lparr> sy_server := s \<rparr>) = requests_ok y" "requests_ok (y\<lparr> sy_running := b \<rparr>) = requests_ok y"
  "requests_ok (y\<lparr> sy_drain := d \<rparr>) = requests_ok y" "requests_ok (y\<lparr> sy_config := h, sy_credentials := k \<rparr>) = requests_ok y"
  by (simp_all add: requests_ok_def phase_of_def)

lemma conn_end_inv:
  assumes "owner_inv y" "phase_of i y = Some Reading" "sy_conns y' = (sy_conns y)[i := end_conn (sy_conns y ! i)]"
    "sy_server y' = sy_server y" "sy_running y' = sy_running y" "sy_queue y' = sy_queue y"
  shows "owner_inv y'"
proof -
  note i = phase_ofD [OF assms(2)]
  have ok: "conn_ok (query_ids (sy_server y)) (sv_next_client_id (sy_server y)) (sy_conns y ! i)" "requests_ok y"
    using assms(1) i by (simp_all add: owner_inv_def)
  show ?thesis
    using i requests_keep [OF ok(2), of i y' "end_conn (sy_conns y ! i)" "[]"] assms(6)
    by (intro conn_update_inv [OF assms(1) _ assms(3-5)]) (auto simp: end_conn_ok ok end_conn_owns assms(3))
qed

lemma same_inv:
  assumes "owner_inv y" "sy_conns y' = sy_conns y" "sy_server y' = sy_server y" "sy_running y' = sy_running y"
    "sy_queue y' = sy_queue y"
  shows "owner_inv y'"
proof -
  have "phase_of j y' = phase_of j y" for j using assms(2) by (simp add: phase_of_def)
  then show ?thesis using assms by (simp add: owner_inv_def query_owned_def requests_ok_def)
qed

lemma write_inv:
  assumes "owner_inv y" "phase_of i y = Some Reading"
  shows "owner_inv (write_reply ok i r (y\<lparr> sy_config := h, sy_credentials := k \<rparr>))"
proof (cases ok)
  case True
  then show ?thesis by (intro same_inv [OF assms(1)]) simp_all
next
  case False
  then show ?thesis by (intro conn_end_inv [OF assms]) simp_all
qed

lemma forward_inv:
  assumes "owner_inv y" "phase_of i y = Some Reading"
  shows "owner_inv (forward_request i request y)"
proof (cases "length (sy_queue y) < CHANNEL_CAPACITY")
  case True
  note i = phase_ofD [OF assms(2)]
  let ?c = "(sy_conns y ! i)\<lparr> co_phase := Awaiting (teardown_of request) \<rparr>"
  let ?y = "forward_request i request y"
  have ok: "conn_ok (query_ids (sy_server y)) (sv_next_client_id (sy_server y)) (sy_conns y ! i)" "requests_ok y"
    using assms(1) i by (simp_all add: owner_inv_def)
  have free: "CmdRequest i req \<notin> set (sy_queue y)" for req
    using ok(2) assms(2) by (force simp: requests_ok_def)
  have y: "sy_conns ?y = (sy_conns y)[i := ?c]" "sy_queue ?y = sy_queue y @ [CmdRequest i request]"
    using True by (simp_all add: forward_request_def)
  have "phase_of j ?y = Some (Awaiting (teardown_of req))" if "CmdRequest j req \<in> set (sy_queue y)" for j req
    using ok(2) that free i phase_ofD [of j y] y(1) by (cases "j = i") (auto simp: requests_ok_def phase_of_def)
  then have "requests_ok ?y" using ok(2) i free y by (auto simp: requests_ok_def phase_of_def in_request_conns)
  then show ?thesis
    using i ok(1) y(2) by (intro conn_update_inv [OF assms(1) _ y(1)]) (auto simp: conn_ok_def owns_def cancel_queued_def)
qed (use assms(1) in \<open>simp add: forward_request_def\<close>)

lemma line_inv:
  assumes "owner_inv y" "phase_of i y = Some Reading"
  shows "owner_inv (serve_line w i ln y)"
  using serve_line_cases [of w i ln y] assms write_inv [OF assms] forward_inv [OF assms]
  unfolding answers_line_def by metis

lemma resume_inv:
  assumes "owner_inv y" "phase_of i y = Some (Replied arm r)"
  shows "owner_inv (write_reply ok i r (on_conn i (\<lambda>c. (teardown_apply arm r c)\<lparr> co_phase := Reading \<rparr>) y))"
proof -
  note i = phase_ofD [OF assms(2)]
  let ?c = "(teardown_apply arm r (sy_conns y ! i))\<lparr> co_phase := Reading \<rparr>"
  let ?y = "on_conn i (\<lambda>c. (teardown_apply arm r c)\<lparr> co_phase := Reading \<rparr>) y"
  have c: "conn_ok (query_ids (sy_server y)) (sv_next_client_id (sy_server y)) (sy_conns y ! i)" "requests_ok y"
    using assms(1) i by (simp_all add: owner_inv_def)
  have "requests_ok ?y" using i by (intro requests_keep [OF c(2), of i ?y ?c "[]"]) auto
  then have inv: "owner_inv ?y"
    using i resume_ok [OF c(1)] resume_keeps [OF c(1)]
    by (intro conn_update_inv [OF assms(1), of i ?y ?c]) (auto simp: owns_def)
  have "phase_of i ?y = Some Reading" using i by (simp add: phase_of_def)
  moreover have "?y\<lparr> sy_config := sy_config ?y, sy_credentials := sy_credentials ?y \<rparr> = ?y" by simp
  ultimately show ?thesis using write_inv [OF inv, of i ok r "sy_credentials ?y" "sy_config ?y"] by metis
qed

lemma send_inv:
  assumes "owner_inv y" "phase_of i y = Some (Ending (cmd # cmds))"
  shows "owner_inv (on_conn i (\<lambda>c. c\<lparr> co_phase := Ending cmds \<rparr>) (y\<lparr> sy_queue := sy_queue y @ [cmd] \<rparr>))"
proof -
  note i = phase_ofD [OF assms(2)]
  let ?c = "(sy_conns y ! i)\<lparr> co_phase := Ending cmds \<rparr>"
  let ?y = "on_conn i (\<lambda>c. c\<lparr> co_phase := Ending cmds \<rparr>) (y\<lparr> sy_queue := sy_queue y @ [cmd] \<rparr>)"
  have c: "conn_ok (query_ids (sy_server y)) (sv_next_client_id (sy_server y)) (sy_conns y ! i)" "requests_ok y"
    using assms(1) i by (simp_all add: owner_inv_def)
  have "requests_ok ?y" using i c(1) by (intro requests_keep [OF c(2), of i ?y ?c "[cmd]"]) (auto simp: conn_ok_def)
  then show ?thesis
    using i c(1) by (intro conn_update_inv [OF assms(1), of i ?y ?c]) (auto simp: conn_ok_def owns_def cancel_queued_def)
qed

section \<open>Steps of the actor\<close>

lemma query_ids_refine:
  assumes "dispatch w request s = (r, s')"
  shows "query_ids s' \<subseteq> query_ids s \<union> {q. rp_ok r \<and> rp_query r = Some q \<and> q = sv_next_client_id s \<and> (\<exists>sp. request = OpenQuery sp)}"
proof (cases "sv_draining s")
  case True
  then show ?thesis using assms by (auto simp: dispatch_def)
next
  case False
  show ?thesis
  proof (cases request)
    case (OpenClient c subs)
    then show ?thesis using assms False open_client_effect [of w c subs s r s'] by (auto simp: dispatch_def query_ids_def)
  next
    case (Subscribe c spec)
    then show ?thesis using assms False subscribe_client_effect [of w c spec s r s'] by (auto simp: dispatch_def query_ids_def)
  next
    case (Unsubscribe c spec)
    then show ?thesis using assms False unsubscribe_client_effect [of w c _ _ s r s'] by (auto simp: dispatch_def query_ids_def)
  next
    case (CloseClient c)
    then show ?thesis using assms False teardown_client_effect [of s w c] by (auto simp: dispatch_def query_ids_def split: if_splits)
  next
    case (OpenQuery spec)
    then show ?thesis
      using assms False open_query_effect [of w spec s r s'] update_conv' [of _ _ "sv_queries s"]
      by (cases "rp_ok r") (auto simp: dispatch_def query_ids_def dom_map_of_conv_image_fst [symmetric])
  next
    case (CancelQuery q)
    then show ?thesis
      using assms False cancel_query_effect [of q s r s']
      by (auto simp: dispatch_def query_ids_def AList.delete_eq)
  qed (use assms False in \<open>auto simp: dispatch_def query_ids_def\<close>)
qed

text \<open>A reply names a query only when it opened it.\<close>

lemma reply_query_opened:
  assumes "dispatch w request s = (r, s')" "rp_query r = Some q"
  shows "q = sv_next_client_id s \<and> sv_next_client_id s' = sv_next_client_id s + 1"
proof (cases "sv_draining s")
  case True
  then show ?thesis using assms by (auto simp: dispatch_def reply_defs)
next
  case False
  show ?thesis
  proof (cases request)
    case (OpenQuery spec)
    then show ?thesis
      using assms False open_query_effect [of w spec s r s']
      by (cases "rp_ok r") (auto simp: dispatch_def open_query_def validate_query_open_def reply_defs Let_def
          split: if_splits option.splits prod.splits sum.splits session_variant.splits)
  qed (use assms False open_client_effect [of w _ _ s r s'] subscribe_client_effect [of w _ _ s r s']
        unsubscribe_client_effect [of w _ _ _ s r s'] cancel_query_effect [of _ s r s']
      in \<open>fastforce simp: dispatch_def list_queries_def dispatch_instruments_def dispatch_capabilities_def reply_defs
            split: if_splits sum.splits\<close>)+
qed

lemma cancelled_gone:
  assumes "dispatch w (CancelQuery q) s = (r, s')" "rp_ok r \<or> rp_code r = Some UNKNOWN_QUERY"
  shows "q \<notin> query_ids s'"
  using assms cancel_query_effect [of q s r s']
  by (auto simp: dispatch_def reply_defs codes query_ids_def AList.delete_eq split: if_splits)

lemma next_mono:
  assumes "refines_view s s'" "registry_ok b s" "b < 2 ^ 64 - 1"
  shows "sv_next_client_id s \<le> sv_next_client_id s'"
proof -
  have "view_open p mc mq v v' \<Longrightarrow> snd (snd v') = snd (snd v) + 1" for p mc mq v v' by (induction rule: view_open.induct) auto
  moreover have "view_close\<^sup>*\<^sup>* v v' \<Longrightarrow> snd (snd v') = snd (snd v)" for v v'
    by (induction rule: rtranclp_induct) (auto elim!: view_close.cases)
  ultimately have "sv_next_client_id s' = sv_next_client_id s + 1 \<or> sv_next_client_id s' = sv_next_client_id s"
    using assms(1) unfolding refines_view_def view_of_def by fastforce
  moreover have "unat (sv_next_client_id s) < 2 ^ 64 - 1"
    using assms(2,3) by (simp add: registry_ok_def view_ok_def view_of_def)
  ultimately show ?thesis using u64_next [of "sv_next_client_id s"] by auto
qed

lemma phase_same: "sy_conns y' = sy_conns y \<Longrightarrow> phase_of i y' = phase_of i y"
  by (simp add: phase_of_def)

lemma request_inv:
  assumes "owner_inv y" "sy_queue y = CmdRequest i req # rest"
    "sy_conns y' = (sy_conns y)[i := (sy_conns y ! i)\<lparr> co_phase := Replied (teardown_of req) r \<rparr>]"
    "sy_queue y' = rest" "sy_server y' = s'" "sy_running y' \<or> sv_queries s' = []"
    "sv_next_client_id (sy_server y) \<le> sv_next_client_id s'"
    "query_ids s' \<subseteq> query_ids (sy_server y) \<union>
       {q. rp_ok r \<and> rp_query r = Some q \<and> q = sv_next_client_id (sy_server y) \<and> (\<exists>sp. req = OpenQuery sp)}"
    "\<And>q. rp_query r = Some q \<Longrightarrow> q < sv_next_client_id s'"
    "\<And>q. req = CancelQuery q \<Longrightarrow> rp_ok r \<or> rp_code r = Some UNKNOWN_QUERY \<Longrightarrow> q \<notin> query_ids s'"
  shows "owner_inv y'"
proof -
  let ?n = "sv_next_client_id (sy_server y)" and ?c = "(sy_conns y ! i)\<lparr> co_phase := Replied (teardown_of req) r \<rparr>"
  have i: "phase_of i y = Some (Awaiting (teardown_of req))" and req: "requests_ok y"
    using assms(1,2) by (auto simp: owner_inv_def requests_ok_def)
  note i' = phase_ofD [OF i]
  have ok: "conn_ok (query_ids s') (sv_next_client_id s') c" if "c \<in> set (sy_conns y)" for c
    using assms(1,8) that by (intro conn_ok_mono [OF _ assms(7)]) (auto simp: owner_inv_def)
  then have "conn_ok (query_ids s') (sv_next_client_id s') ?c"
    using ok [of "sy_conns y ! i"] i' assms(9,10) by (auto simp: conn_ok_def)
  then have conns: "\<forall>c \<in> set (sy_conns y'). conn_ok (query_ids s') (sv_next_client_id s') c"
    using ok assms(3) set_update_subset_insert [of "sy_conns y" i ?c] by auto
  have owned: "query_owned q y'" if q: "q \<in> query_ids s'" for q
  proof (cases "q \<in> query_ids (sy_server y)")
    case True
    then have "query_owned q y" using assms(1) by (simp add: owner_inv_def)
    then show ?thesis
      using i' assms(2,4) by (intro update_owned [OF _ assms(3)]) (auto simp: owns_def cancel_queued_def)
  next
    case False
    then have "owns q ?c" using q assms(8) by (auto simp: owns_def)
    moreover have "?c \<in> set (sy_conns y')" using i' assms(3) set_update_memI by metis
    ultimately show ?thesis unfolding query_owned_def by blast
  qed
  have d: "distinct (request_conns rest)" "i \<notin> set (request_conns rest)"
    using req assms(2) by (simp_all add: requests_ok_def)
  have "phase_of j y' = Some (Awaiting (teardown_of rq))" if "CmdRequest j rq \<in> set rest" for j rq
  proof -
    have "j \<noteq> i" using d(2) that in_request_conns by metis
    moreover have "phase_of j y = Some (Awaiting (teardown_of rq))" using req that assms(2) by (simp add: requests_ok_def)
    ultimately show ?thesis using assms(3) by (simp add: phase_of_def split: if_splits)
  qed
  then have "requests_ok y'" using d assms(4) by (simp add: requests_ok_def)
  then show ?thesis using conns owned assms(5,6) by (simp add: owner_inv_def)
qed

lemma command_inv:
  assumes "owner_inv y" "sy_queue y = cmd # rest" "\<not> is_request cmd" "sy_conns y' = sy_conns y" "sy_queue y' = rest"
    "sy_server y' = s'" "sy_running y' = sy_running y" "sv_next_client_id s' = sv_next_client_id (sy_server y)"
    "query_ids s' \<subseteq> query_ids (sy_server y)" "\<And>qs q. cmd = CancelQueries qs \<Longrightarrow> q \<in> set qs \<Longrightarrow> q \<notin> query_ids s'"
  shows "owner_inv y'"
proof -
  have "conn_ok (query_ids s') (sv_next_client_id s') c" if "c \<in> set (sy_conns y)" for c
  proof (rule conn_ok_mono [where K = "query_ids (sy_server y)" and n = "sv_next_client_id (sy_server y)"])
    show "conn_ok (query_ids (sy_server y)) (sv_next_client_id (sy_server y)) c"
      using assms(1) that by (simp add: owner_inv_def)
  qed (use assms(8,9) in auto)
  moreover have "query_owned q y'" if q: "q \<in> query_ids s'" for q
  proof -
    have "query_owned q y" using assms(1,9) q by (auto simp: owner_inv_def)
    moreover have "cancel_queued q rest" if "cancel_queued q (sy_queue y)"
      using that assms(2,10) q by (auto simp: cancel_queued_def)
    ultimately show ?thesis using assms(4,5) by (auto simp: query_owned_def)
  qed
  moreover have "requests_ok y'"
  proof -
    have "request_conns (sy_queue y) = request_conns rest" using assms(2,3) by (cases cmd) simp_all
    then show ?thesis using assms(1,2,5) phase_same [OF assms(4)] by (simp add: owner_inv_def requests_ok_def)
  qed
  moreover have "sy_running y' \<or> sv_queries s' = []"
    using assms(1,7,9) by (auto simp: owner_inv_def query_ids_def)
  ultimately show ?thesis using assms(4,6) by (simp add: owner_inv_def)
qed

lemma query_ids_delete: "query_ids s' \<subseteq> query_ids s \<and> q \<notin> query_ids s'" if "sv_queries s' = AList.delete q (sv_queries s)"
  using that by (auto simp: query_ids_def AList.delete_eq)

lemma cancel_all_ids:
  "query_ids (foldl (\<lambda>s q. snd (cancel_query q s)) s qs) \<subseteq> query_ids s - set qs \<and>
   sv_next_client_id (foldl (\<lambda>s q. snd (cancel_query q s)) s qs) = sv_next_client_id s"
proof (induction qs arbitrary: s)
  case (Cons q qs)
  obtain r s' where c: "cancel_query q s = (r, s')" by fastforce
  show ?case using Cons [of s'] cancel_query_effect [OF c] query_ids_delete [of s' q s] c by auto
qed simp

text \<open>Commands other than requests end queries, open none and answer nobody.\<close>

lemma handle_command:
  assumes "handle w cmd s = (go, out, s')" "\<not> is_request cmd"
  shows "go \<and> out = None \<and> sv_next_client_id s' = sv_next_client_id s \<and> query_ids s' \<subseteq> query_ids s \<and>
    (\<forall>qs q. cmd = CancelQueries qs \<longrightarrow> q \<in> set qs \<longrightarrow> q \<notin> query_ids s')"
proof (cases cmd)
  case (Disconnect client)
  then show ?thesis using assms(1) teardown_client_effect [of s w client] by (auto simp: handle_def query_ids_def)
next
  case (QueryFinished f)
  then show ?thesis using assms(1) query_ids_delete [of s' f s] by (auto simp: handle_def split: option.splits)
next
  case (CancelQueries ids)
  then show ?thesis using assms(1) cancel_all_ids [of s ids] by (auto simp: handle_def)
qed (use assms(2) in simp)

lemma shutdown_ids [simp]: "query_ids (shutdown_server w s) = {}" "sv_queries (shutdown_server w s) = []"
  "sv_next_client_id (shutdown_server w s) = sv_next_client_id s"
  by (simp_all add: shutdown_server_def abort_all_queries_def query_ids_def Let_def)

lemma deliver_conns:
  assumes "phase_of i y = Some (Awaiting arm)"
  shows "sy_conns (deliver_reply (i, r) y) = (sy_conns y)[i := (sy_conns y ! i)\<lparr> co_phase := Replied arm r \<rparr>]"
  using phase_ofD [OF assms] by (simp add: deliver_reply_def)

lemma actor_inv:
  assumes "owner_inv y" "registry_ok b (sy_server y)" "b < 2 ^ 64 - 1"
  shows "owner_inv (actor_step w y)"
proof (cases "sy_queue y")
  case Nil
  then show ?thesis using assms(1) by (simp add: actor_step_def)
next
  case (Cons cmd rest)
  let ?y0 = "y\<lparr> sy_queue := rest \<rparr>"
  show ?thesis
  proof (cases "is_request cmd")
    case True
    then obtain i req where cmd: "cmd = CmdRequest i req" by (cases cmd) auto
    note q = Cons [unfolded cmd]
    have ph: "phase_of i (?y0\<lparr> sy_server := s \<rparr>) = Some (Awaiting (teardown_of req))" "phase_of i ?y0 = Some (Awaiting (teardown_of req))" for s
      using assms(1) q phase_same [of ?y0 y i] phase_same [of "?y0\<lparr> sy_server := s \<rparr>" y i]
      by (simp_all add: owner_inv_def requests_ok_def)
    note dc = deliver_conns [OF ph(1)] deliver_conns [OF ph(2)]
    show ?thesis
    proof (cases "sy_running y")
      case False
      then have "actor_step w y = deliver_reply (i, reply_error SHUTTING_DOWN ''daemon is shutting down'') ?y0"
        using Cons cmd by (simp add: actor_step_def serve_late_def Let_def)
      then show ?thesis
        using False assms(1) dc(2) by (intro request_inv [OF assms(1) q]) (auto simp: reply_defs codes owner_inv_def)
    next
      case run: True
      show ?thesis
      proof (cases "req = Shutdown \<and> \<not> sv_draining (sy_server y)")
        case True
        then have "actor_step w y = stop_running w (deliver_reply (i, reply_ok) (?y0\<lparr> sy_server := sy_server y \<rparr>))"
          using Cons cmd run by (simp add: actor_step_def handle_def Let_def)
        then show ?thesis
          using dc True by (intro request_inv [OF assms(1) q, where r = reply_ok])
            (auto simp: stop_running_def, simp_all add: reply_defs)
      next
        case False
        obtain r s' where d: "dispatch w req (sy_server y) = (r, s')" by fastforce
        have step: "actor_step w y = deliver_reply (i, r) (?y0\<lparr> sy_server := s' \<rparr>)"
          using Cons cmd run False d by (auto simp: actor_step_def handle_def Let_def)
        have mono: "sv_next_client_id (sy_server y) \<le> sv_next_client_id s'"
          using next_mono [OF dispatch_refines [OF d] assms(2,3)] .
        have new: "q < sv_next_client_id s'" if "rp_query r = Some q" for q
          using reply_query_opened [OF d that] assms(2,3) u64_next [of "sv_next_client_id (sy_server y)"]
          by (simp add: registry_ok_def view_ok_def view_of_def)
        have gone: "q \<notin> query_ids s'" if "req = CancelQuery q" "rp_ok r \<or> rp_code r = Some UNKNOWN_QUERY" for q
          using cancelled_gone d that by blast
        show ?thesis
          unfolding step using dc(1) run
          by (intro request_inv [OF assms(1) q _ _ _ _ mono query_ids_refine [OF d] new gone]) auto
      qed
    qed
  next
    case False
    show ?thesis
    proof (cases "sy_running y")
      case run: True
      obtain go out s' where h: "handle w cmd (sy_server y) = (go, out, s')" by (metis prod_cases3)
      note go = handle_command [OF h False]
      then have "actor_step w y = ?y0\<lparr> sy_server := s' \<rparr>" using Cons run h by (simp add: actor_step_def Let_def)
      then show ?thesis using go by (intro command_inv [OF assms(1) Cons False, where s' = s']) auto
    next
      case run: False
      then have "actor_step w y = ?y0" using Cons False by (cases cmd) (auto simp: actor_step_def serve_late_def Let_def)
      then show ?thesis using run assms(1)
        by (intro command_inv [OF assms(1) Cons False]) (auto simp: owner_inv_def query_ids_def)
    qed
  qed
qed

section \<open>Every run\<close>

lemma phase_of_append: "phase_of i y = Some ph \<Longrightarrow> phase_of i (y\<lparr> sy_conns := sy_conns y @ [c] \<rparr>) = Some ph"
  by (auto simp: phase_of_def nth_append split: if_splits)

lemma accept_inv:
  assumes "owner_inv y" "co_opened_queries c = []" "co_phase c = Reading"
  shows "owner_inv (y\<lparr> sy_conns := sy_conns y @ [c] \<rparr>)"
  using assms phase_of_append [of _ y _ c]
  by (auto simp: owner_inv_def query_owned_def requests_ok_def conn_ok_def)

lemma signal_inv:
  assumes "owner_inv y"
  shows "owner_inv (stop_running w y)"
proof -
  have "phase_of i (stop_running w y) = phase_of i y" for i by (rule phase_same) (simp add: stop_running_def)
  moreover have "conn_ok {} n c" if "conn_ok K n c" for K n c using that by (rule conn_ok_mono) auto
  ultimately show ?thesis
    using assms by (auto simp: owner_inv_def requests_ok_def) (auto simp: stop_running_def)
qed

lemma finished_inv:
  assumes "owner_inv y"
  shows "owner_inv (y\<lparr> sy_queue := sy_queue y @ [QueryFinished q] \<rparr>)"
proof -
  have "phase_of i (y\<lparr> sy_queue := sy_queue y @ [QueryFinished q] \<rparr>) = phase_of i y" for i by (rule phase_same) simp
  then show ?thesis using assms by (simp add: owner_inv_def requests_ok_def query_owned_def cancel_queued_def)
qed

lemma owner_step_inv:
  assumes "owner_inv y" "registry_ok b (sy_server y)" "b < 2 ^ 64 - 1"
  shows "owner_inv (sys_step e inp y)"
proof (cases inp)
  case (Accept p)
  then show ?thesis using assms(1) by (auto simp: sys_step_def intro: accept_inv)
next
  case (Line i ln w)
  then show ?thesis using assms(1) by (auto simp: sys_step_def intro: line_inv)
next
  case (Eof i)
  then show ?thesis using assms(1) by (auto simp: sys_step_def intro: conn_end_inv)
next
  case (Actor w)
  then show ?thesis using actor_inv [OF assms] by (simp add: sys_step_def)
next
  case (Resume i ok)
  then show ?thesis
    using assms(1) by (auto simp: sys_step_def split: option.splits conn_phase.splits intro: resume_inv)
next
  case (SendTeardown i)
  then show ?thesis
    using assms(1) by (auto simp: sys_step_def split: option.splits conn_phase.splits list.splits intro: send_inv)
next
  case (PumpEnds q)
  then show ?thesis using assms(1) by (auto simp: sys_step_def intro: finished_inv)
next
  case (Signal w)
  then show ?thesis using assms(1) by (auto simp: sys_step_def intro: signal_inv)
qed

lemma run_owner:
  assumes "fresh_server s" "length ins < 2 ^ 64"
  shows "owner_inv (sys_run e ins (system_new s h k))"
  using assms(2)
proof (induction ins rule: rev_induct)
  case Nil
  then show ?case
    using assms(1) by (simp add: system_new_def owner_inv_def query_ids_def requests_ok_def fresh_server_def)
next
  case (snoc inp ins)
  then show ?case
    using owner_step_inv [of "sys_run e ins (system_new s h k)" "length ins" e inp]
      run_registry [OF assms(1), of ins e h k] by simp
qed

end
