(* ===== verification/Daemon_Progress.thy ===== *)
theory Daemon_Progress
  imports Daemon_Owner
begin

text \<open>
  Two more invariants of the control plane: once every connection has ended, the teardown commands
  drain and no query is left; and connections of another user never reach the hubs nor stop the daemon.
\<close>

section \<open>The end of a query\<close>

text \<open>Teardown commands still with the connections count twice: to be sent, then handled.\<close>

fun unsent :: "conn_phase \<Rightarrow> nat" where
  "unsent (Ending cmds) = length cmds"
| "unsent _ = 0"

definition pending :: "'c system \<Rightarrow> nat" where
  "pending y = 2 * sum_list (map (unsent \<circ> co_phase) (sy_conns y)) + length (sy_queue y)"

fun has_ended :: "conn_phase \<Rightarrow> bool" where
  "has_ended (Ending _) = True"
| "has_ended _ = False"

definition all_ended :: "'c system \<Rightarrow> bool" where
  "all_ended y = list_all (has_ended \<circ> co_phase) (sy_conns y)"

fun is_teardown_step :: "'c sys_in \<Rightarrow> bool" where
  "is_teardown_step (Actor _) = True"
| "is_teardown_step (SendTeardown _) = True"
| "is_teardown_step _ = False"

lemma ended_no_request:
  assumes "owner_inv y" "all_ended y" "cmd \<in> set (sy_queue y)"
  shows "\<not> is_request cmd"
proof
  assume "is_request cmd"
  then obtain i req where "cmd = CmdRequest i req" by (cases cmd) auto
  then have "phase_of i y = Some (Awaiting (teardown_of req))"
    using assms(1,3) by (simp add: owner_inv_def requests_ok_def)
  then show False using assms(2) phase_ofD [of i y] by (fastforce simp: all_ended_def list_all_length)
qed

lemma actor_pending:
  assumes "owner_inv y" "all_ended y" "sy_running y" "sy_queue y = cmd # rest"
  shows "pending y = Suc (pending (actor_step w y)) \<and> all_ended (actor_step w y) \<and> sy_running (actor_step w y)"
proof -
  obtain go out s where h: "handle w cmd (sy_server y) = (go, out, s)" by (metis prod_cases3)
  have "\<not> is_request cmd" using ended_no_request [OF assms(1,2)] assms(4) by simp
  then have "go" "out = None" using handle_command [OF h] by auto
  then have "actor_step w y = y\<lparr> sy_queue := rest, sy_server := s \<rparr>" using assms(3,4) h by (simp add: actor_step_def Let_def)
  then show ?thesis using assms by (simp add: pending_def all_ended_def)
qed

lemma unsent_update:
  "i < length cs \<Longrightarrow> unsent (co_phase (cs ! i)) = Suc (unsent (co_phase c)) \<Longrightarrow>
   sum_list (map (unsent \<circ> co_phase) cs) = Suc (sum_list (map (unsent \<circ> co_phase) (cs[i := c])))"
  by (induction cs arbitrary: i) (auto split: nat.splits)

lemma send_pending:
  assumes "phase_of i y = Some (Ending (cmd # cmds))" "sy_queue y = []" "all_ended y" "sy_running y"
  shows "pending y = Suc (pending (sys_step e (SendTeardown i) y)) \<and> all_ended (sys_step e (SendTeardown i) y) \<and>
    sy_running (sys_step e (SendTeardown i) y)"
proof -
  let ?c = "(sy_conns y ! i)\<lparr> co_phase := Ending cmds \<rparr>"
  have i: "i < length (sy_conns y)" "co_phase (sy_conns y ! i) = Ending (cmd # cmds)" using phase_ofD [OF assms(1)] by auto
  have step: "sys_step e (SendTeardown i) y = on_conn i (\<lambda>c. c\<lparr> co_phase := Ending cmds \<rparr>) (y\<lparr> sy_queue := [cmd] \<rparr>)"
    using assms(1,2) by (simp add: sys_step_def CHANNEL_CAPACITY_def)
  have "all_ended (sys_step e (SendTeardown i) y)"
    using assms(3) i step by (simp add: all_ended_def list_all_length nth_list_update)
  moreover have "pending y = Suc (pending (sys_step e (SendTeardown i) y))"
    using unsent_update [of i "sy_conns y" ?c] i assms(2) unfolding step by (simp add: pending_def)
  ultimately show ?thesis using assms(4) step by simp
qed

lemma drained_no_queries:
  assumes "owner_inv y" "all_ended y" "sy_queue y = []" "\<And>i cmd cmds. phase_of i y \<noteq> Some (Ending (cmd # cmds))"
  shows "sv_queries (sy_server y) = []"
proof -
  have "\<not> owns q c" if "c \<in> set (sy_conns y)" for q c
  proof -
    obtain i where i: "i < length (sy_conns y)" "c = sy_conns y ! i" using \<open>c \<in> _\<close> by (auto simp: in_set_conv_nth)
    moreover obtain cmds where "co_phase c = Ending cmds"
      using assms(2) \<open>c \<in> _\<close> by (cases "co_phase c") (auto simp: all_ended_def list_all_iff)
    ultimately have "co_phase c = Ending []" using assms(4) [of i] by (cases cmds) (auto simp: phase_of_def)
    then show ?thesis by (simp add: owns_def)
  qed
  then show ?thesis using assms(1,3) by (auto simp: owner_inv_def query_owned_def cancel_queued_def query_ids_def)
qed

lemma run_append: "sys_run e (xs @ ys) y = sys_run e ys (sys_run e xs y)"
  by (simp add: sys_run_def)

lemma queries_drain:
  assumes "owner_inv y" "registry_ok b (sy_server y)" "b + pending y < 2 ^ 64" "all_ended y" "sy_running y"
  shows "\<exists>ins. list_all is_teardown_step ins \<and> length ins \<le> pending y \<and> sv_queries (sy_server (sys_run e ins y)) = []"
  using assms
proof (induction "pending y" arbitrary: y b)
  case 0
  then have "sy_queue y = []" "\<And>i cmd cmds. phase_of i y \<noteq> Some (Ending (cmd # cmds))"
    by (force simp: pending_def phase_of_def in_set_conv_nth split: if_splits)+
  then show ?case using drained_no_queries [of y] 0 by (intro exI [of _ "[]"]) simp
next
  case (Suc n)
  have go: ?case if "is_teardown_step inp" "pending y = Suc (pending (sys_step e inp y))" "all_ended (sys_step e inp y)"
      "sy_running (sys_step e inp y)" for inp
  proof -
    note t = that
    let ?y = "sys_step e inp y"
    have b: "b < 2 ^ 64 - 1" using Suc.prems(3) Suc.hyps(2) by simp
    have "owner_inv ?y" "registry_ok (b + 1) (sy_server ?y)"
      using owner_step_inv [OF Suc.prems(1,2) b] step_registry [OF Suc.prems(2) b] by auto
    then obtain ins where "list_all is_teardown_step ins" "length ins \<le> pending ?y" "sv_queries (sy_server (sys_run e ins ?y)) = []"
      using Suc.hyps(1) [of ?y "b + 1"] Suc.hyps(2) Suc.prems(3) t by auto
    then show ?thesis using t(1,2) by (intro exI [of _ "inp # ins"]) (simp add: sys_run_def)
  qed
  show ?case
  proof (cases "sy_queue y")
    case (Cons cmd rest)
    fix w :: "'a answers"
    show ?thesis
      using go [of "Actor w"] actor_pending [OF Suc.prems(1,4,5) Cons, of w] by (simp add: sys_step_def)
  next
    case Nil
    show ?thesis
    proof (cases "\<exists>i cmd cmds. phase_of i y = Some (Ending (cmd # cmds))")
      case True
      then obtain i cmd cmds where "phase_of i y = Some (Ending (cmd # cmds))" by blast
      then show ?thesis using go [of "SendTeardown i"] send_pending [of i y cmd cmds e] Nil Suc.prems(4,5) by simp
    next
      case False
      then show ?thesis using drained_no_queries [OF Suc.prems(1,4) Nil] by (intro exI [of _ "[]"]) (auto simp: sys_run_def)
    qed
  qed
qed

section \<open>Peers of another user\<close>

fun is_signal :: "'c sys_in \<Rightarrow> bool" where
  "is_signal (Signal _) = True"
| "is_signal _ = False"

definition foreign_input :: "u32 \<Rightarrow> 'c sys_in \<Rightarrow> bool" where
  "foreign_input own_euid inp \<longleftrightarrow> (case inp of Accept peer \<Rightarrow> peer \<noteq> Some own_euid | Signal _ \<Rightarrow> False | _ \<Rightarrow> True)"

definition shutdown_free :: "server_command list \<Rightarrow> bool" where
  "shutdown_free = list_all (\<lambda>cmd. case cmd of CmdRequest _ req \<Rightarrow> req \<noteq> Shutdown | _ \<Rightarrow> True)"

definition foreign_conn :: "conn \<Rightarrow> bool" where
  "foreign_conn c \<longleftrightarrow> \<not> co_privileged c \<and> (case co_phase c of Ending cmds \<Rightarrow> shutdown_free cmds | _ \<Rightarrow> True)"

definition guarded :: "config_hub \<Rightarrow> credential_hub \<Rightarrow> 'c system \<Rightarrow> bool" where
  "guarded h k y \<longleftrightarrow> sy_config y = h \<and> sy_credentials y = k \<and> sy_running y \<and>
     list_all foreign_conn (sy_conns y) \<and> shutdown_free (sy_queue y)"

lemma guarded_conns: "guarded h k y \<Longrightarrow> i < length (sy_conns y) \<Longrightarrow> foreign_conn (sy_conns y ! i)"
  by (simp add: guarded_def list_all_length)

lemma foreign_update [simp]:
  "list_all foreign_conn cs \<Longrightarrow> (i < length cs \<Longrightarrow> foreign_conn c) \<Longrightarrow> list_all foreign_conn (cs[i := c])"
  using set_update_subset_insert [of cs i c] by (cases "i < length cs") (auto simp: list_all_iff list_update_beyond)

lemma foreign_end [simp]: "foreign_conn c \<Longrightarrow> foreign_conn (end_conn c)"
  by (simp add: foreign_conn_def end_conn_def emergency_teardown_def shutdown_free_def split: option.split)

lemma foreign_apply [simp]:
  "foreign_conn c \<Longrightarrow> foreign_conn ((teardown_apply arm r c)\<lparr> co_phase := Reading \<rparr>)"
  "foreign_conn c \<Longrightarrow> foreign_conn (c\<lparr> co_phase := Awaiting arm \<rparr>)"
  "foreign_conn c \<Longrightarrow> foreign_conn (c\<lparr> co_phase := Replied arm r \<rparr>)"
  by (auto simp: foreign_conn_def teardown_apply_def Let_def split: option.split)

lemma shutdown_free_simps [simp]:
  "shutdown_free []" "shutdown_free (xs @ ys) \<longleftrightarrow> shutdown_free xs \<and> shutdown_free ys"
  "shutdown_free (CmdRequest i req # cmds) \<longleftrightarrow> req \<noteq> Shutdown \<and> shutdown_free cmds"
  "shutdown_free (QueryFinished q # cmds) \<longleftrightarrow> shutdown_free cmds"
  by (simp_all add: shutdown_free_def)

lemma guarded_line:
  assumes "guarded h k y" "phase_of i y = Some Reading"
  shows "guarded h k (serve_line w i ln y)"
proof -
  have i: "i < length (sy_conns y)" "foreign_conn (sy_conns y ! i)"
    using phase_ofD [OF assms(2)] guarded_conns [OF assms(1)] by auto
  have wrote: "guarded h k (write_reply (lw_write w) i r y)" for r
    using assms(1) i by (cases "lw_write w") (auto simp: guarded_def)
  have forward: "guarded h k (forward_request i req y)" if "req \<noteq> Shutdown" for req
    using assms(1) i that unfolding forward_request_def
    by (auto simp: guarded_def)
  show ?thesis
    using serve_line_cases [of w i ln y] i(2) assms(1) wrote forward
    unfolding answers_line_def by (auto simp: guarded_def foreign_conn_def)
qed

lemma dispatch_not_stops:
  assumes "handle w cmd s = (go, out, s')" "shutdown_free (cmd # rest)"
  shows go
  using assms by (auto simp: handle_def shutdown_free_def split: server_command.splits if_splits prod.splits)

lemma deliver_foreign [simp]:
  "list_all foreign_conn (sy_conns y) \<Longrightarrow> list_all foreign_conn (sy_conns (deliver_reply ir y))"
  by (cases ir; cases "fst ir < length (sy_conns y)")
    (auto simp: deliver_reply_def list_all_length nth_list_update list_update_beyond split: conn_phase.split)

lemma guarded_actor:
  assumes "guarded h k y"
  shows "guarded h k (actor_step w y)"
proof (cases "sy_queue y")
  case (Cons cmd rest)
  obtain go out s where hd: "handle w cmd (sy_server y) = (go, out, s)" by (metis prod_cases3)
  have free: "shutdown_free (cmd # rest)" "shutdown_free rest" using assms Cons by (auto simp: guarded_def shutdown_free_def)
  then have "go" using dispatch_not_stops [OF hd] by blast
  then show ?thesis
    using assms Cons hd free(2) by (auto simp: guarded_def actor_step_def Let_def split: option.split)
qed (use assms in \<open>simp add: actor_step_def\<close>)

lemma guarded_step:
  assumes "guarded h k y" "foreign_input e inp"
  shows "guarded h k (sys_step e inp y)"
proof (cases inp)
  case (Line i ln w)
  then show ?thesis using assms(1) by (auto simp: sys_step_def intro: guarded_line)
next
  case (Actor w)
  then show ?thesis using guarded_actor [OF assms(1)] by (simp add: sys_step_def)
next
  case (Resume i ok)
  then show ?thesis
    using assms(1) guarded_conns [OF assms(1), of i] phase_ofD [of i y]
    by (auto simp: sys_step_def guarded_def split: option.split conn_phase.split)
next
  case (SendTeardown i)
  then show ?thesis
    using assms(1) guarded_conns [OF assms(1), of i] phase_ofD [of i y]
    by (auto simp: sys_step_def guarded_def foreign_conn_def shutdown_free_def intro!: foreign_update
        split: option.split conn_phase.split list.split)
next
  case (Eof i)
  then show ?thesis
    using assms(1) guarded_conns [OF assms(1), of i] phase_ofD [of i y] by (auto simp: sys_step_def guarded_def)
qed (use assms in \<open>auto simp: sys_step_def guarded_def foreign_input_def privileged_op_permitted_def foreign_conn_def shutdown_free_def\<close>)

lemma guarded_run:
  assumes "list_all (foreign_input e) ins"
  shows "guarded h k (sys_run e ins (system_new s h k))"
  using assms
proof (induction ins rule: rev_induct)
  case Nil
  then show ?case by (simp add: guarded_def system_new_def)
qed (simp add: guarded_step)

end
