(* ===== verification/Daemon_Runs.thy ===== *)
theory Daemon_Runs
  imports Daemon_Progress
begin

text \<open>
  The properties of the control plane in every run, and a concrete daemon that exercises them.
\<close>

section \<open>A daemon\<close>

definition demo_server :: "unit server" where
  "demo_server =
     \<lparr> sv_dm = demo_dm, sv_anchors = [], sv_clients = [], sv_queries = [], sv_max_queries = 2,
       sv_query_persistence = options_none, sv_next_client_id = 0, sv_service_prefix = ''d/1-2'', sv_max_clients = 2,
       sv_credential_backend = ''file'', sv_draining = False, sv_closing = [], sv_closed = [] \<rparr>"

definition demo_answers :: "unit answers" where
  "demo_answers =
     \<lparr> aw_debug = id, aw_sink = None, aw_open = (\<lambda>_. (id, OpenOk)), aw_cid = 0, aw_now = 0, aw_now' = 0,
       aw_order = id, aw_catalog = (\<lambda>_. Inr []), aw_keys = [], aw_stats = (\<lambda>_. live_stats_new), aw_version = ''1'' \<rparr>"

definition demo_lines :: line_world where
  "demo_lines = \<lparr> lw_hub = demo_hub_world, lw_store = None, lw_write = True \<rparr>"

definition demo_hub :: config_hub where
  "demo_hub = hub_bootstrap (config_default None) ''c'' Map.empty"

definition demo_credentials :: credential_hub where
  "demo_credentials = \<lparr> kh_store = Map.empty, kh_senders = Map.empty \<rparr>"

definition demo_system :: "unit system" where
  "demo_system = system_new demo_server demo_hub demo_credentials"

lemma demo_fresh: "fresh_server demo_server"
  by (simp add: fresh_server_def demo_server_def)

text \<open>One request of a connection, served and answered; and a connection that hangs up.\<close>

definition round_trip :: "nat \<Rightarrow> request \<Rightarrow> unit sys_in list" where
  "round_trip i req = [Line i (Parsed (canonical_keys req) req) demo_lines, Actor demo_answers, Resume i True]"

definition hang_up :: "nat \<Rightarrow> unit sys_in list" where
  "hang_up i = [Eof i, SendTeardown i, Actor demo_answers]"

lemma canonical_accepted [simp]: "reject_unknown_keys (canonical_keys req) req = Inr ()"
  by (auto simp: reject_unknown_keys_def find_Some_iff split: option.split)

lemma teardown_apply_phase [simp]:
  "(teardown_apply arm r (c\<lparr> co_phase := p \<rparr>))\<lparr> co_phase := q \<rparr> = (teardown_apply arm r c)\<lparr> co_phase := q \<rparr>"
  by (simp add: teardown_apply_def Let_def split: option.split bool.split)

lemma run_Cons: "sys_run e (inp # ins) y = sys_run e ins (sys_step e inp y)"
  by (simp add: sys_run_def)

text \<open>A daemon with nothing queued, its client names and its connections.\<close>

definition idle :: "string list \<Rightarrow> conn list \<Rightarrow> 'c system \<Rightarrow> bool" where
  "idle names cs y \<longleftrightarrow> sy_running y \<and> sy_queue y = [] \<and> \<not> sv_draining (sy_server y) \<and> sv_max_clients (sy_server y) = 2 \<and>
     map fst (sv_clients (sy_server y)) = names \<and> sy_conns y = cs"

lemma round_trip_run:
  assumes "idle names cs y" "i < length cs" "co_phase (cs ! i) = Reading"
    "(\<exists>x subs. req = OpenClient x subs) \<or> (\<exists>x. req = CloseClient x) \<or> (\<exists>sp. req = OpenQuery sp)"
    "dispatch demo_answers req (sy_server y) = (r, s)" "\<not> sv_draining s" "sv_max_clients s = 2"
  shows "idle (map fst (sv_clients s)) (cs[i := (teardown_apply (teardown_of req) r (cs ! i))\<lparr> co_phase := Reading \<rparr>])
    (sys_run e (round_trip i req) y) \<and> sy_server (sys_run e (round_trip i req) y) = s"
proof -
  let ?aw = "(cs ! i)\<lparr> co_phase := Awaiting (teardown_of req) \<rparr>"
  have "sys_step e (Line i (Parsed (canonical_keys req) req) demo_lines) y =
      y\<lparr> sy_queue := [CmdRequest i req], sy_conns := cs[i := ?aw] \<rparr>"
    using assms(1-4) by (auto simp: idle_def sys_step_def phase_of_def serve_line_def serve_request_def forward_request_def
        on_conn_def is_credential_op_def CHANNEL_CAPACITY_def Let_def)
  moreover have "sys_step e (Actor demo_answers) (y\<lparr> sy_queue := [CmdRequest i req], sy_conns := cs[i := ?aw] \<rparr>) =
      y\<lparr> sy_queue := [], sy_server := s, sy_conns := cs[i := (cs ! i)\<lparr> co_phase := Replied (teardown_of req) r \<rparr>] \<rparr>"
    using assms(1-5) by (auto simp: idle_def sys_step_def actor_step_def handle_def deliver_reply_def on_conn_def Let_def)
  ultimately show ?thesis
    using assms(1,2,6,7) unfolding round_trip_def run_Cons
    by (simp add: idle_def sys_step_def phase_of_def write_reply_def on_conn_def)
qed

lemma take_spawned: "\<exists>c. client_take_events order (spawn_client cid n None) = (Inr (), c)"
  by (simp add: client_take_events_def client_handle_command_def prepare_attach_def spawn_client_def Let_def)

lemma open_succeeds:
  assumes "map_of (sv_clients s) x = None" "length (sv_clients s) < sv_max_clients s" "\<not> sv_draining s"
    "dispatch demo_answers (OpenClient x []) s = (r, s')"
  shows "rp_ok r \<and> rp_query r = None \<and> \<not> sv_draining s' \<and> sv_max_clients s' = sv_max_clients s \<and>
    map fst (sv_clients s') = map fst (sv_clients s) @ [x]"
proof -
  have o: "open_client demo_answers x [] s = (r, s')" using assms(3,4) by (simp add: dispatch_def)
  obtain c where "client_take_events id (spawn_client 0 (dm_resume_buffer_events (sv_dm s)) None) = (Inr (), c)"
    using take_spawned by blast
  then have ok: "rp_ok r"
    using o assms(1,2) by (auto simp: open_client_def demo_answers_def open_client_session_def reply_defs Let_def)
  obtain e where "sv_clients s' = AList.update x e (sv_clients s)" using open_client_effect [OF o] ok by auto
  moreover have "x \<notin> fst ` set (sv_clients s)" using assms(1) by (simp add: map_of_eq_None_iff)
  ultimately have "map fst (sv_clients s') = map fst (sv_clients s) @ [x]" by (simp add: AList.update_keys)
  then show ?thesis using open_client_effect [OF o] ok assms(3) by (auto simp: same_config_def)
qed

lemma open_round:
  assumes "idle names cs y" "i < length cs" "co_phase (cs ! i) = Reading" "x \<notin> set names" "length names < 2"
  shows "idle (names @ [x]) (cs[i := (cs ! i)\<lparr> co_opened_client := Some x \<rparr>]) (sys_run e (round_trip i (OpenClient x [])) y)"
proof -
  obtain r s where d: "dispatch demo_answers (OpenClient x []) (sy_server y) = (r, s)" by fastforce
  have "map_of (sv_clients (sy_server y)) x = None" "length (sv_clients (sy_server y)) < 2"
    using assms(1,4,5) by (simp_all add: idle_def map_of_eq_None_iff, force+)
  then have s: "rp_ok r" "rp_query r = None" "\<not> sv_draining s" "sv_max_clients s = 2" "map fst (sv_clients s) = names @ [x]"
    using open_succeeds [OF _ _ _ d] assms(1) by (simp_all add: idle_def)
  have "(teardown_apply (teardown_of (OpenClient x [])) r (cs ! i))\<lparr> co_phase := Reading \<rparr> = (cs ! i)\<lparr> co_opened_client := Some x \<rparr>"
    using s assms(3) by (simp add: teardown_apply_def teardown_of_def Let_def)
  then show ?thesis using round_trip_run [OF assms(1-3) _ d s(3,4), of e] s(5) by simp
qed

lemma close_round:
  assumes "idle names cs y" "i < length cs" "co_phase (cs ! i) = Reading" "x \<in> set names"
  shows "idle (removeAll x names) cs (sys_run e (round_trip i (CloseClient x)) y)"
proof -
  let ?s = "teardown_client demo_answers x (sy_server y)"
  note t = teardown_client_effect [of "sy_server y" demo_answers x]
  have "map_of (sv_clients (sy_server y)) x \<noteq> None" using assms(1,4) by (auto simp: idle_def map_of_eq_None_iff)
  then have d: "dispatch demo_answers (CloseClient x) (sy_server y) = (reply_ok, ?s)"
    using assms(1) by (simp add: dispatch_def idle_def)
  have s: "\<not> sv_draining ?s" "sv_max_clients ?s = 2" "map fst (sv_clients ?s) = removeAll x names"
    using t assms(1) by (auto simp: same_config_def idle_def AList.delete_keys)
  have "(teardown_apply (teardown_of (CloseClient x)) reply_ok (cs ! i))\<lparr> co_phase := Reading \<rparr> = cs ! i"
    using assms(3) by (simp add: teardown_apply_def teardown_of_def reply_defs Let_def)
  then show ?thesis using round_trip_run [OF assms(1-3) _ d s(1,2), of e] s(3) by simp
qed

lemma hang_up_round:
  assumes "idle names cs y" "i < length cs" "co_phase (cs ! i) = Reading" "co_opened_client (cs ! i) = Some x"
    "co_opened_queries (cs ! i) = []"
  shows "idle (removeAll x names) (cs[i := (cs ! i)\<lparr> co_phase := Ending [] \<rparr>]) (sys_run e (hang_up i) y)"
proof -
  let ?s = "teardown_client demo_answers x (sy_server y)"
  note t = teardown_client_effect [of "sy_server y" demo_answers x]
  have "sys_run e (hang_up i) y = y\<lparr> sy_conns := cs[i := (cs ! i)\<lparr> co_phase := Ending [] \<rparr>], sy_queue := [], sy_server := ?s \<rparr>"
    using assms by (simp add: hang_up_def run_Cons sys_step_def phase_of_def on_conn_def end_conn_def emergency_teardown_def
        CHANNEL_CAPACITY_def actor_step_def handle_def idle_def Let_def)
  then show ?thesis using t assms(1) by (auto simp: same_config_def idle_def AList.delete_keys)
qed

lemma accept_two:
  "idle [] [\<lparr> co_privileged = False, co_opened_client = None, co_opened_queries = [], co_phase = Reading \<rparr>,
     \<lparr> co_privileged = False, co_opened_client = None, co_opened_queries = [], co_phase = Reading \<rparr>]
     (sys_run 7 [Accept None, Accept (Some 8)] demo_system)"
  by (simp add: run_Cons sys_step_def idle_def demo_system_def system_new_def demo_server_def privileged_op_permitted_def)

definition demo_accept :: "unit sys_in list" where
  "demo_accept = [Accept None, Accept (Some 8)]"

definition demo_conn :: "string option \<Rightarrow> conn_phase \<Rightarrow> conn" where
  "demo_conn x ph = \<lparr> co_privileged = False, co_opened_client = x, co_opened_queries = [], co_phase = ph \<rparr>"

lemma demo_conn_simps [simp]:
  "co_phase (demo_conn x ph) = ph" "co_opened_client (demo_conn x ph) = x" "co_opened_queries (demo_conn x ph) = []"
  "(demo_conn x ph)\<lparr> co_opened_client := z \<rparr> = demo_conn z ph" "(demo_conn x ph)\<lparr> co_phase := ph' \<rparr> = demo_conn x ph'"
  by (simp_all add: demo_conn_def)

lemma accepted: "idle [] [demo_conn None Reading, demo_conn None Reading] (sys_run 7 demo_accept demo_system)"
  using accept_two by (simp add: demo_accept_def demo_conn_def)

text \<open>The first connection opens and closes a client whose name the second then opens.\<close>

definition reopened :: "unit sys_in list" where
  "reopened = demo_accept @ round_trip 0 (OpenClient ''x'' []) @ round_trip 0 (CloseClient ''x'') @ round_trip 1 (OpenClient ''x'' [])"

lemma reopened_run:
  "idle [''x''] [demo_conn (Some ''x'') Reading, demo_conn (Some ''x'') Reading] (sys_run 7 reopened demo_system)"
proof -
  have "idle [''x''] [demo_conn (Some ''x'') Reading, demo_conn None Reading]
      (sys_run 7 (demo_accept @ round_trip 0 (OpenClient ''x'' [])) demo_system)" (is "idle _ ?cs ?y")
    using open_round [OF accepted, of 0 "''x''" 7] by (simp add: run_append)
  then have "idle [] ?cs (sys_run 7 (round_trip 0 (CloseClient ''x'')) ?y)" (is "idle _ _ ?y2")
    using close_round [of "[''x'']" ?cs ?y 0 "''x''" 7] by simp
  then show ?thesis using open_round [of "[]" ?cs ?y2 1 "''x''" 7] by (simp add: reopened_def run_append)
qed

text \<open>A connection that opens a query; then both connections end.\<close>

definition demo_query :: query_spec where
  "demo_query = \<lparr> qs_provider = ''other'', qs_asset_class = CryptoCfg, qs_symbol = ''BTC'', qs_kind = TradeCfg, qs_from = 0, qs_to = 10 \<rparr>"

definition queried :: "unit sys_in list" where
  "queried = demo_accept @ round_trip 0 (OpenQuery demo_query)"

lemma demo_query_routed:
  "\<exists>c. open_session id OpenOk 0 (query_instrument demo_query) KTrade (Historical 0 10) options_none demo_dm =
     (Inr (HistoricalSession c), demo_dm) \<and> \<not> ct_stream_taken c"
proof -
  have "route (query_instrument demo_query) KTrade [History] demo_dm = Inr (demo_provider ''other'' [Live, History])"
    by (simp add: route_def demo_dm_def pinned_def serves_all_def demo_provider_def query_instrument_def instrument_new_def
        demo_query_def)
  then show ?thesis by (simp add: open_session_def options_none_def uses_cache_def new_controller_def)
qed

lemma demo_query_opens:
  assumes "dispatch demo_answers (OpenQuery demo_query) demo_server = (r, s)"
  shows "rp_ok r \<and> rp_query r = Some 0 \<and> query_ids s = {0} \<and> \<not> sv_draining s \<and> sv_max_clients s = 2 \<and> sv_clients s = []"
proof -
  have v: "validate_query_open (qs_from demo_query) (qs_to demo_query) (length (sv_queries demo_server)) (sv_max_queries demo_server) = None"
    by (simp add: validate_query_open_def demo_query_def demo_server_def)
  obtain c where c: "open_session (fst (aw_open demo_answers 0)) (snd (aw_open demo_answers 0)) (aw_cid demo_answers)
      (query_instrument demo_query) (event_kind_of (qs_kind demo_query)) (Historical (qs_from demo_query) (qs_to demo_query))
      (sv_query_persistence demo_server) (sv_dm demo_server) = (Inr (HistoricalSession c), demo_dm)" "\<not> ct_stream_taken c"
    using demo_query_routed by (auto simp: demo_answers_def demo_query_def demo_server_def)
  have sink: "aw_sink demo_answers = None" "\<not> sv_draining demo_server" by (simp_all add: demo_answers_def demo_server_def)
  have o: "open_query demo_answers demo_query demo_server = (r, s)" using assms sink(2) by (simp add: dispatch_def)
  have "r = reply_query 0 (data_service_name_display (data_service_name_new ''d/1-2'' 0)) \<and> query_ids s = {0} \<and>
      \<not> sv_draining s \<and> sv_max_clients s = 2 \<and> sv_clients s = []"
    using o unfolding open_query_def v c(1)
    using c(2) sink by (auto simp: historical_take_events_def demo_server_def query_ids_def Let_def)
  then show ?thesis by (simp add: reply_query_def reply_ok_def)
qed

lemma queried_run:
  "sy_conns (sys_run 7 queried demo_system) = [(demo_conn None Reading)\<lparr> co_opened_queries := [0] \<rparr>, demo_conn None Reading] \<and>
   query_ids (sy_server (sys_run 7 queried demo_system)) = {0} \<and> sy_running (sys_run 7 queried demo_system) \<and>
   sy_queue (sys_run 7 queried demo_system) = []"
proof -
  obtain r s where d: "dispatch demo_answers (OpenQuery demo_query) demo_server = (r, s)" by fastforce
  have srv: "sy_server (sys_run 7 demo_accept demo_system) = demo_server"
    by (simp add: demo_accept_def run_Cons sys_step_def demo_system_def system_new_def)
  note q = demo_query_opens [OF d]
  then have "idle [] [(demo_conn None Reading)\<lparr> co_opened_queries := [0] \<rparr>, demo_conn None Reading] (sys_run 7 queried demo_system) \<and>
      sy_server (sys_run 7 queried demo_system) = s"
    using round_trip_run [OF accepted, of 0 "OpenQuery demo_query" r s 7] d srv
    by (simp add: queried_def run_append teardown_apply_def teardown_of_def demo_conn_def Let_def)
  then show ?thesis using q by (simp add: idle_def)
qed

definition hung_up :: "unit sys_in list" where
  "hung_up = queried @ [Eof 0, Eof 1]"

lemma hung_up_run:
  "all_ended (sys_run 7 hung_up demo_system) \<and> pending (sys_run 7 hung_up demo_system) = 2 \<and>
   sy_running (sys_run 7 hung_up demo_system) \<and> query_ids (sy_server (sys_run 7 hung_up demo_system)) = {0}"
  using queried_run
  by (simp add: hung_up_def run_append run_Cons sys_step_def phase_of_def on_conn_def end_conn_def emergency_teardown_def
      all_ended_def pending_def)

text \<open>A connection that opens two clients in turn.\<close>

definition opened_twice :: "unit sys_in list" where
  "opened_twice = demo_accept @ round_trip 0 (OpenClient ''x'' []) @ round_trip 0 (OpenClient ''y'' [])"

lemma opened_twice_run:
  "idle [''x'', ''y''] [demo_conn (Some ''y'') Reading, demo_conn None Reading] (sys_run 7 opened_twice demo_system)"
proof -
  have "idle [''x''] [demo_conn (Some ''x'') Reading, demo_conn None Reading]
      (sys_run 7 (demo_accept @ round_trip 0 (OpenClient ''x'' [])) demo_system)" (is "idle _ ?cs ?y")
    using open_round [OF accepted, of 0 "''x''" 7] by (simp add: run_append)
  then show ?thesis using open_round [of "[''x'']" ?cs ?y 0 "''y''" 7] by (simp add: opened_twice_def run_append)
qed

section \<open>Properties\<close>

text \<open>C10: In every run of the control plane from a freshly booted server, clients and queries stay
  within their caps, names and ids are unique, no two of them share a data service, and each
  service carries the boot prefix with an id already handed out.\<close>

theorem registries_in_every_run:
  "fresh_server s \<Longrightarrow> length ins < 2 ^ 64 \<Longrightarrow>
   registry_ok (length ins) (sy_server (sys_run e ins (system_new s h k)))"
  by (rule run_registry)

theorem registries_in_every_run_witness:
  "registry_ok (length reopened) (sy_server (sys_run 7 reopened demo_system)) \<and>
   map fst (sv_clients (sy_server (sys_run 7 reopened demo_system))) = [''x'']"
  using registries_in_every_run [OF demo_fresh, of reopened 7] reopened_run
  by (simp add: demo_system_def idle_def reopened_def demo_accept_def round_trip_def)

text \<open>C11: In every run of the control plane, each historical query in flight is held by a connection,
  about to be, or has its cancellation on the way to the actor: no query is orphaned.\<close>

theorem queries_owned:
  "fresh_server s \<Longrightarrow> length ins < 2 ^ 64 \<Longrightarrow> q \<in> query_ids (sy_server (sys_run e ins (system_new s h k))) \<Longrightarrow>
   query_owned q (sys_run e ins (system_new s h k))"
  using run_owner [of s ins e h k] by (simp add: owner_inv_def)

theorem queries_owned_witness:
  "0 \<in> query_ids (sy_server (sys_run 7 hung_up demo_system)) \<and> query_owned 0 (sys_run 7 hung_up demo_system)"
  using queries_owned [OF demo_fresh, of hung_up 0 7 demo_hub demo_credentials] hung_up_run
  by (simp add: demo_system_def hung_up_def queried_def demo_accept_def round_trip_def)

text \<open>C12: Whenever every connection of a running daemon has ended, its teardown commands and the actor
  can run to a state with no query in flight, in at most two steps for each command that a
  connection still holds and one for each in the queue.\<close>

theorem queries_end:
  "fresh_server s \<Longrightarrow> y = sys_run e ins (system_new s h k) \<Longrightarrow> length ins + pending y < 2 ^ 64 \<Longrightarrow> all_ended y \<Longrightarrow>
   sy_running y \<Longrightarrow>
   \<exists>ins'. list_all is_teardown_step ins' \<and> length ins' \<le> pending y \<and> sv_queries (sy_server (sys_run e ins' y)) = []"
  using run_owner [of s ins e h k] run_registry [of s ins e h k] queries_drain [of y "length ins" e] by simp

theorem queries_end_witness:
  "query_ids (sy_server (sys_run 7 hung_up demo_system)) = {0} \<and>
   (\<exists>ins'. length ins' \<le> 2 \<and> sv_queries (sy_server (sys_run 7 ins' (sys_run 7 hung_up demo_system))) = [])"
  using queries_end [OF demo_fresh, of "sys_run 7 hung_up demo_system" 7 hung_up demo_hub demo_credentials] hung_up_run
  by (auto simp: demo_system_def hung_up_def queried_def demo_accept_def round_trip_def)

text \<open>C13: In a run whose accepted peers all have another user id than the daemon, and without a signal,
  configuration and credentials stay as they were at boot and the daemon keeps running,
  whatever the peers send.\<close>

theorem foreign_peers_change_nothing:
  "list_all (foreign_input e) ins \<Longrightarrow> y = sys_run e ins (system_new s h k) \<Longrightarrow>
   sy_config y = h \<and> sy_credentials y = k \<and> sy_running y"
  using guarded_run [of e ins h k s] by (simp add: guarded_def)

theorem foreign_peers_change_nothing_witness:
  "sy_config (sys_run 7 (demo_accept @ round_trip 0 Shutdown @ round_trip 1 (RemoveProvider ''alpaca'')) demo_system) = demo_hub"
  using foreign_peers_change_nothing [of 7 "demo_accept @ round_trip 0 Shutdown @ round_trip 1 (RemoveProvider ''alpaca'')"
      "sys_run 7 (demo_accept @ round_trip 0 Shutdown @ round_trip 1 (RemoveProvider ''alpaca'')) demo_system"
      demo_server demo_hub demo_credentials]
  by (simp add: demo_system_def foreign_input_def demo_accept_def round_trip_def)

text \<open>A client name stays armed on the connection that opened it even after the client was closed: when
  another connection reopens the name, the first connection's end tears that client down.\<close>

lemma stale_disconnect:
  "map fst (sv_clients (sy_server (sys_run 7 reopened demo_system))) = [''x''] \<and>
   map fst (sv_clients (sy_server (sys_run 7 (reopened @ hang_up 0) demo_system))) = [] \<and>
   phase_of 1 (sys_run 7 (reopened @ hang_up 0) demo_system) = Some Reading"
  using reopened_run hang_up_round [OF reopened_run, of 0 "''x''" 7]
  by (simp add: idle_def run_append phase_of_def)

text \<open>A connection that opens a second client no longer tears the first one down when it ends: the
  client outlives the connection.\<close>

lemma first_client_leaks:
  "map fst (sv_clients (sy_server (sys_run 7 (opened_twice @ hang_up 0) demo_system))) = [''x''] \<and>
   phase_of 0 (sys_run 7 (opened_twice @ hang_up 0) demo_system) = Some (Ending [])"
  using hang_up_round [OF opened_twice_run, of 0 "''y''" 7]
  by (simp add: idle_def run_append phase_of_def)

text \<open>C14: Every command the actor handles refines the abstract registry: it performs one opening, of a
  client whose name is free below the client cap or of a query below the query cap, under the
  service name of the next id, or it only closes; caps, prefix and the draining flag stay.\<close>

theorem actor_refines_registry: "handle w cmd s = (go, out, s') \<Longrightarrow> refines_view s s'"
  by (rule handle_refines)

theorem actor_refines_registry_witness:
  "\<exists>r s'. handle demo_answers (CmdRequest 0 (OpenQuery demo_query)) demo_server = (True, Some (0, r), s') \<and>
     query_ids s' = {0} \<and> refines_view demo_server s'"
proof -
  obtain r s' where d: "dispatch demo_answers (OpenQuery demo_query) demo_server = (r, s')" by fastforce
  then have "handle demo_answers (CmdRequest 0 (OpenQuery demo_query)) demo_server = (True, Some (0, r), s')"
    by (simp add: handle_def)
  then show ?thesis using actor_refines_registry demo_query_opens [OF d] by blast
qed

end
