(* ===== verification/Provider_Sources.thy ===== *)
theory Provider_Sources
  imports Facade Watch_Channel
begin

text \<open>
  Where the Alpaca providers get their settings and credentials (\<^verbatim>\<open>providers/runtime.rs\<close>,
  \<^verbatim>\<open>providers/credentials.rs\<close>) and the REST clients they rebuild when either changes
  (\<^verbatim>\<open>providers/alpaca.rs\<close>, \<^verbatim>\<open>providers/alpaca_crypto.rs\<close>). The clients themselves and the process
  environment are arguments.
\<close>

section \<open>Settings\<close>

datatype 's settings_source = StaticSettings 's | WatchSettings

text \<open>The value of a watched source lives in its channel.\<close>

definition settings_current :: "'s settings_source \<Rightarrow> 's option channel \<Rightarrow> 's option" where
  "settings_current src w = (case src of StaticSettings s \<Rightarrow> Some s | WatchSettings \<Rightarrow> wt_value w)"

text \<open>A fresh receiver with the current value marked seen.\<close>

definition settings_watch :: "'s settings_source \<Rightarrow> 's option channel \<Rightarrow> nat option" where
  "settings_watch src w = (case src of StaticSettings _ \<Rightarrow> None | WatchSettings \<Rightarrow> Some (wt_version w))"

definition watch_changed :: "'v channel \<Rightarrow> nat option \<Rightarrow> bool \<times> nat option" where
  "watch_changed w rx_slot =
     (case rx_slot of
        None \<Rightarrow> (False, None)
      | Some seen \<Rightarrow>
          (case has_changed seen w of
             Some True \<Rightarrow> (True, Some (wt_version w))
           | Some False \<Rightarrow> (False, Some seen)
           | None \<Rightarrow> (True, None)))"

section \<open>Credentials\<close>

datatype account_type = PaperAccount | LiveAccount

definition env_var_names :: "account_type \<Rightarrow> string \<times> string" where
  "env_var_names acct =
     (case acct of
        PaperAccount \<Rightarrow> (''ALPACA_PAPER_API_KEY_ID'', ''ALPACA_PAPER_API_SECRET_KEY'')
      | LiveAccount \<Rightarrow> (''ALPACA_LIVE_API_KEY_ID'', ''ALPACA_LIVE_API_SECRET_KEY''))"

record api_key =
  ak_key_id :: string
  ak_secret :: string

text \<open>The pair in the environment, or the first variable that cannot be read.\<close>

definition from_env :: "(string \<Rightarrow> string option) \<Rightarrow> account_type \<Rightarrow> string + api_key" where
  "from_env env acct =
     (let (key_var, secret_var) = env_var_names acct in
      case env key_var of
        None \<Rightarrow> Inl key_var
      | Some k \<Rightarrow> (case env secret_var of None \<Rightarrow> Inl secret_var | Some s \<Rightarrow> Inr \<lparr> ak_key_id = k, ak_secret = s \<rparr>))"

definition credentials_debug :: "(string \<Rightarrow> string) \<Rightarrow> api_key \<Rightarrow> string" where
  "credentials_debug dbg c =
     ''AlpacaCredentials { key_id: '' @ dbg (ak_key_id c) @ '', secret: '' @ dbg ''********'' @ '' }''"

datatype credentials_source = EnvCreds | StaticCreds api_key | WatchCreds

datatype resolved = REnv | RCreds api_key | RMissing

definition credentials_current :: "credentials_source \<Rightarrow> api_key option channel \<Rightarrow> resolved" where
  "credentials_current src w =
     (case src of
        EnvCreds \<Rightarrow> REnv
      | StaticCreds c \<Rightarrow> RCreds c
      | WatchCreds \<Rightarrow> (case wt_value w of Some c \<Rightarrow> RCreds c | None \<Rightarrow> RMissing))"

definition credentials_watch :: "credentials_source \<Rightarrow> api_key option channel \<Rightarrow> nat option" where
  "credentials_watch src w = (case src of WatchCreds \<Rightarrow> Some (wt_version w) | _ \<Rightarrow> None)"

section \<open>REST clients\<close>

text \<open>Third-party constructors: from the environment, or with a key pair.\<close>

record ('m, 't) client_makers =
  mk_market_data :: "account_type \<Rightarrow> api_key option \<Rightarrow> 'm option"
  mk_trading :: "account_type \<Rightarrow> api_key option \<Rightarrow> 't option"

definition build_rest ::
  "('m, 't) client_makers \<Rightarrow> ('s \<Rightarrow> account_type) \<Rightarrow> 's option \<Rightarrow> resolved \<Rightarrow> 'm option \<times> 't option" where
  "build_rest mk acct settings creds =
     (case settings of
        None \<Rightarrow> (None, None)
      | Some s \<Rightarrow>
          (case creds of
             REnv \<Rightarrow> (mk_market_data mk (acct s) None, mk_trading mk (acct s) None)
           | RCreds c \<Rightarrow> (mk_market_data mk (acct s) (Some c), mk_trading mk (acct s) (Some c))
           | RMissing \<Rightarrow> (None, None)))"

record ('s, 'm, 't) rest_state =
  rs_settings_src :: "'s settings_source"
  rs_credentials_src :: credentials_source
  rs_clients :: "'m option \<times> 't option"
  rs_cred_rx :: "nat option"
  rs_settings_rx :: "nat option"

text \<open>\<^verbatim>\<open>new\<close>: the receivers first, then the clients.\<close>

definition rest_new ::
  "('m, 't) client_makers \<Rightarrow> ('s \<Rightarrow> account_type) \<Rightarrow> 's settings_source \<Rightarrow> credentials_source \<Rightarrow>
   's option channel \<Rightarrow> api_key option channel \<Rightarrow> ('s, 'm, 't) rest_state" where
  "rest_new mk acct ssrc csrc sw cw =
     \<lparr> rs_settings_src = ssrc, rs_credentials_src = csrc,
       rs_clients = build_rest mk acct (settings_current ssrc sw) (credentials_current csrc cw),
       rs_cred_rx = credentials_watch csrc cw, rs_settings_rx = settings_watch ssrc sw \<rparr>"

text \<open>\<^verbatim>\<open>rest_clients\<close>: both receivers are checked, whichever changed.\<close>

definition rest_clients ::
  "('m, 't) client_makers \<Rightarrow> ('s \<Rightarrow> account_type) \<Rightarrow> 's option channel \<Rightarrow> api_key option channel \<Rightarrow>
   ('s, 'm, 't) rest_state \<Rightarrow> ('m option \<times> 't option) \<times> ('s, 'm, 't) rest_state" where
  "rest_clients mk acct sw cw r =
     (let (cc, crx) = watch_changed cw (rs_cred_rx r);
          (sc, srx) = watch_changed sw (rs_settings_rx r);
          r1 = r\<lparr> rs_cred_rx := crx, rs_settings_rx := srx \<rparr>;
          r2 = (if cc \<or> sc
                then r1\<lparr> rs_clients := build_rest mk acct (settings_current (rs_settings_src r) sw)
                                         (credentials_current (rs_credentials_src r) cw) \<rparr>
                else r1)
      in (rs_clients r2, r2))"

text \<open>The world's moves between two calls.\<close>

datatype 's source_event =
    SendSettings "'s option"
  | SendCredentials "api_key option"
  | CloseSettings
  | CloseCredentials

definition source_step ::
  "'s source_event \<Rightarrow> 's option channel \<times> api_key option channel \<Rightarrow> 's option channel \<times> api_key option channel" where
  "source_step ev = (\<lambda>(sw, cw).
     (case ev of
        SendSettings v \<Rightarrow> (channel_send v sw, cw)
      | SendCredentials v \<Rightarrow> (sw, channel_send v cw)
      | CloseSettings \<Rightarrow> (channel_close sw, cw)
      | CloseCredentials \<Rightarrow> (sw, channel_close cw)))"

datatype 's rest_op = World "'s source_event" | Call

definition rest_step ::
  "('m, 't) client_makers \<Rightarrow> ('s \<Rightarrow> account_type) \<Rightarrow> 's rest_op \<Rightarrow>
   ('s option channel \<times> api_key option channel) \<times> ('s, 'm, 't) rest_state \<Rightarrow>
   ('s option channel \<times> api_key option channel) \<times> ('s, 'm, 't) rest_state" where
  "rest_step mk acct oper = (\<lambda>(env, r).
     (case oper of World ev \<Rightarrow> (source_step ev env, r) | Call \<Rightarrow> (env, snd (rest_clients mk acct (fst env) (snd env) r))))"

section \<open>The clients are those of the current sources\<close>

text \<open>
  A receiver slot agrees with its channel: an unwatched source has none; a watched one has a
  version not in the channel's future, or was dropped when the channel closed.
\<close>

definition slot_ok :: "bool \<Rightarrow> 'v channel \<Rightarrow> nat option \<Rightarrow> bool" where
  "slot_ok watched w rx \<longleftrightarrow>
     (case rx of None \<Rightarrow> watched \<longrightarrow> wt_closed w | Some seen \<Rightarrow> watched \<and> seen \<le> wt_version w)"

text \<open>No unseen change: what the slot's owner built from the source is still what it holds.\<close>

definition up_to_date :: "'v channel \<Rightarrow> nat option \<Rightarrow> bool" where
  "up_to_date w rx \<longleftrightarrow> (case rx of None \<Rightarrow> True | Some seen \<Rightarrow> seen = wt_version w)"

definition is_watched :: "'s settings_source \<Rightarrow> bool" where
  "is_watched src \<longleftrightarrow> src = WatchSettings"

definition rest_ok ::
  "('m, 't) client_makers \<Rightarrow> ('s \<Rightarrow> account_type) \<Rightarrow>
   ('s option channel \<times> api_key option channel) \<times> ('s, 'm, 't) rest_state \<Rightarrow> bool" where
  "rest_ok mk acct = (\<lambda>((sw, cw), r).
     slot_ok (is_watched (rs_settings_src r)) sw (rs_settings_rx r) \<and>
     slot_ok (rs_credentials_src r = WatchCreds) cw (rs_cred_rx r) \<and>
     (up_to_date sw (rs_settings_rx r) \<and> up_to_date cw (rs_cred_rx r) \<longrightarrow>
        rs_clients r = build_rest mk acct (settings_current (rs_settings_src r) sw) (credentials_current (rs_credentials_src r) cw)))"

lemma rest_new_ok: "rest_ok mk acct ((sw, cw), rest_new mk acct ssrc csrc sw cw)"
  by (cases ssrc; cases csrc)
    (simp_all add: rest_ok_def rest_new_def slot_ok_def is_watched_def settings_watch_def credentials_watch_def)

lemma watch_changed_ok:
  assumes "slot_ok watched w rx" "watch_changed w rx = (c, rx')"
  shows "slot_ok watched w rx' \<and> up_to_date w rx' \<and> (\<not> c \<longrightarrow> up_to_date w rx)"
  using assms by (auto simp: slot_ok_def watch_changed_def up_to_date_def has_changed_def split: option.splits if_splits bool.splits)

lemma rest_clients_ok:
  assumes "rest_ok mk acct ((sw, cw), r)" "rest_clients mk acct sw cw r = (k, r')"
  shows "rest_ok mk acct ((sw, cw), r') \<and>
    k = build_rest mk acct (settings_current (rs_settings_src r) sw) (credentials_current (rs_credentials_src r) cw)"
proof -
  obtain cc crx where c: "watch_changed cw (rs_cred_rx r) = (cc, crx)" by fastforce
  obtain sc srx where s: "watch_changed sw (rs_settings_rx r) = (sc, srx)" by fastforce
  show ?thesis
    using assms watch_changed_ok [OF _ c, of "rs_credentials_src r = WatchCreds"]
      watch_changed_ok [OF _ s, of "is_watched (rs_settings_src r)"]
    by (auto simp: rest_ok_def rest_clients_def c s Let_def split: if_splits)
qed

lemma slot_send: "slot_ok b w rx \<Longrightarrow> slot_ok b (channel_send v w) rx"
  by (auto simp: slot_ok_def channel_send_def split: option.splits)

lemma slot_close: "slot_ok b w rx \<Longrightarrow> slot_ok b (channel_close w) rx"
  by (auto simp: slot_ok_def channel_close_def split: option.splits)

lemma send_unseen:
  "slot_ok b w rx \<Longrightarrow> up_to_date (channel_send v w) rx \<Longrightarrow> up_to_date w rx \<and> (b \<longrightarrow> channel_send v w = w)"
  by (auto simp: slot_ok_def up_to_date_def channel_send_def split: option.splits if_splits)

lemma close_unseen: "up_to_date (channel_close w) rx = up_to_date w rx"
  by (simp add: up_to_date_def channel_close_def split: option.split)

lemma current_close [simp]:
  "settings_current src (channel_close sw) = settings_current src sw"
  "credentials_current csrc (channel_close cw) = credentials_current csrc cw"
  by (simp_all add: settings_current_def credentials_current_def split: settings_source.split credentials_source.split)

lemma current_unwatched:
  "\<not> is_watched src \<Longrightarrow> settings_current src sw' = settings_current src sw"
  "csrc \<noteq> WatchCreds \<Longrightarrow> credentials_current csrc cw' = credentials_current csrc cw"
  by (auto simp: is_watched_def settings_current_def credentials_current_def
      split: settings_source.splits credentials_source.splits)

lemma source_step_ok:
  assumes "rest_ok mk acct (env, r)"
  shows "rest_ok mk acct (source_step ev env, r)"
proof (cases env)
  case (Pair sw cw)
  note ok = assms [unfolded Pair rest_ok_def, simplified]
  show ?thesis
  proof (cases ev)
    case (SendSettings v)
    have "settings_current (rs_settings_src r) (channel_send v sw) = settings_current (rs_settings_src r) sw"
      if "up_to_date (channel_send v sw) (rs_settings_rx r)"
      using send_unseen [OF conjunct1 [OF ok] that] current_unwatched(1) by metis
    then show ?thesis
      using ok SendSettings Pair send_unseen [OF conjunct1 [OF ok]] by (auto simp: rest_ok_def source_step_def intro: slot_send)
  next
    case (SendCredentials v)
    note slot = conjunct1 [OF conjunct2 [OF ok]]
    have "credentials_current (rs_credentials_src r) (channel_send v cw) = credentials_current (rs_credentials_src r) cw"
      if "up_to_date (channel_send v cw) (rs_cred_rx r)"
      using send_unseen [OF slot that] current_unwatched(2) by metis
    then show ?thesis
      using ok SendCredentials Pair send_unseen [OF slot] by (auto simp: rest_ok_def source_step_def intro: slot_send)
  qed (use ok Pair in \<open>auto simp: rest_ok_def source_step_def close_unseen intro: slot_close\<close>)
qed

lemma rest_sources_kept:
  "rs_settings_src (snd (rest_clients mk acct sw cw r)) = rs_settings_src r"
  "rs_credentials_src (snd (rest_clients mk acct sw cw r)) = rs_credentials_src r"
  by (simp_all add: rest_clients_def Let_def split: prod.split)

lemma rest_run_ok:
  assumes "rest_ok mk acct (env, r)"
  shows "rest_ok mk acct (foldl (\<lambda>st oper. rest_step mk acct oper st) (env, r) opers)"
  using assms
proof (induction opers rule: rev_induct)
  case (snoc oper opers)
  obtain sw cw r' where st: "foldl (\<lambda>st oper. rest_step mk acct oper st) (env, r) opers = ((sw, cw), r')"
    by (metis surj_pair)
  show ?case
  proof (cases oper)
    case (World ev)
    then show ?thesis using snoc st source_step_ok by (simp add: rest_step_def)
  next
    case Call
    obtain k r'' where "rest_clients mk acct sw cw r' = (k, r'')" by fastforce
    then show ?thesis using snoc st Call rest_clients_ok by (fastforce simp: rest_step_def)
  qed
qed simp

text \<open>C28: However settings and credentials are sent, the channels closed and REST calls made since the
  provider was built, the clients a call gets are those built from the current settings and
  credentials.\<close>

theorem rest_clients_current:
  assumes "foldl (\<lambda>st oper. rest_step mk acct oper st) ((sw0, cw0), rest_new mk acct ssrc csrc sw0 cw0) opers = ((sw, cw), r)"
  shows "fst (rest_clients mk acct sw cw r) =
    build_rest mk acct (settings_current (rs_settings_src r) sw) (credentials_current (rs_credentials_src r) cw)"
proof -
  have "rest_ok mk acct ((sw, cw), r)" using rest_run_ok [OF rest_new_ok, of mk acct sw0 cw0 ssrc csrc opers] assms by simp
  then show ?thesis by (metis prod.collapse rest_clients_ok)
qed

definition demo_makers :: "(account_type \<times> api_key option, unit) client_makers" where
  "demo_makers = \<lparr> mk_market_data = (\<lambda>a k. Some (a, k)), mk_trading = (\<lambda>_ _. None) \<rparr>"

definition demo_channel :: "'v \<Rightarrow> 'v channel" where
  "demo_channel v = \<lparr> wt_value = v, wt_version = 0, wt_closed = False \<rparr>"

text \<open>A disabled provider is enabled and given a key pair, and the daemon goes away: the next call has both.\<close>

definition demo_source_ops :: "account_type rest_op list" where
  "demo_source_ops =
     [Call, World (SendSettings (Some PaperAccount)), World (SendCredentials (Some \<lparr> ak_key_id = ''k'', ak_secret = ''s'' \<rparr>)),
      World CloseCredentials]"

theorem rest_clients_current_witness:
  "\<exists>sw cw r. foldl (\<lambda>st oper. rest_step demo_makers id oper st)
      ((demo_channel None, demo_channel None),
       rest_new demo_makers id WatchSettings WatchCreds (demo_channel None) (demo_channel None)) demo_source_ops = ((sw, cw), r) \<and>
    fst (fst (rest_clients demo_makers id sw cw r)) = Some (PaperAccount, Some \<lparr> ak_key_id = ''k'', ak_secret = ''s'' \<rparr>)"
proof -
  obtain sw cw r where run: "foldl (\<lambda>st oper. rest_step demo_makers id oper st)
      ((demo_channel None, demo_channel None),
       rest_new demo_makers id WatchSettings WatchCreds (demo_channel None) (demo_channel None)) demo_source_ops = ((sw, cw), r)"
    by (metis surj_pair)
  then have "wt_value sw = Some PaperAccount" "wt_value cw = Some \<lparr> ak_key_id = ''k'', ak_secret = ''s'' \<rparr>"
    "rs_settings_src r = WatchSettings" "rs_credentials_src r = WatchCreds"
    by (auto simp: demo_source_ops_def rest_step_def source_step_def channel_send_def channel_close_def demo_channel_def
        rest_new_def rest_sources_kept)
  then show ?thesis
    using run rest_clients_current [OF run]
    by (auto simp: settings_current_def credentials_current_def build_rest_def demo_makers_def)
qed

end
