(* ===== verification/Provider_Hub.thy ===== *)
theory Provider_Hub
  imports Provider_Sources
begin

text \<open>
  The hub task behind the Alpaca providers (\<^verbatim>\<open>run_hub_task\<close> of \<^verbatim>\<open>providers/alpaca.rs\<close> and, line for
  line the same apart from its provider id, error classification and translation,
  \<^verbatim>\<open>providers/alpaca_crypto.rs\<close>): one upstream socket, the routes of all live sessions, reconnects
  with backoff, parking until settings or credentials arrive. The streaming client and its errors
  are third party: each call's outcome is an input. A step is one turn of the task or of the
  world, in any order; the two points where the task reads a watch are steps of their own.
\<close>

section \<open>Subscription lists\<close>

text \<open>The fields of the upstream subscription list that the hub writes.\<close>

record subscription_list =
  sl_bars :: "string list option"
  sl_daily_bars :: "string list option"
  sl_quotes :: "string list option"
  sl_trades :: "string list option"

definition subscription_list_new :: subscription_list where
  "subscription_list_new = \<lparr> sl_bars = None, sl_daily_bars = None, sl_quotes = None, sl_trades = None \<rparr>"

definition none_or_empty :: "string list option \<Rightarrow> bool" where
  "none_or_empty l = (case l of None \<Rightarrow> True | Some xs \<Rightarrow> xs = [])"

definition subscriptions_empty :: "subscription_list \<Rightarrow> bool" where
  "subscriptions_empty l \<longleftrightarrow> none_or_empty (sl_bars l) \<and> none_or_empty (sl_daily_bars l) \<and>
     none_or_empty (sl_quotes l) \<and> none_or_empty (sl_trades l)"

definition mutate_field :: "string \<Rightarrow> bool \<Rightarrow> string list option \<Rightarrow> string list option" where
  "mutate_field symbol add field =
     (let l = (case field of Some xs \<Rightarrow> xs | None \<Rightarrow> []);
          l' = (if add then (if symbol \<in> set l then l else l @ [symbol]) else filter (\<lambda>s. s \<noteq> symbol) l)
      in if l' = [] then None else Some l')"

definition apply_pair_to_list :: "instrument \<Rightarrow> event_kind \<Rightarrow> bool \<Rightarrow> subscription_list \<Rightarrow> subscription_list" where
  "apply_pair_to_list i kind add l =
     (case kind of
        KTrade \<Rightarrow> l\<lparr> sl_trades := mutate_field (i_symbol i) add (sl_trades l) \<rparr>
      | KQuote \<Rightarrow> l\<lparr> sl_quotes := mutate_field (i_symbol i) add (sl_quotes l) \<rparr>
      | KBar OneMinute \<Rightarrow> l\<lparr> sl_bars := mutate_field (i_symbol i) add (sl_bars l) \<rparr>
      | KBar OneDay \<Rightarrow> l\<lparr> sl_daily_bars := mutate_field (i_symbol i) add (sl_daily_bars l) \<rparr>
      | KBar _ \<Rightarrow> l)"

section \<open>Upstream errors\<close>

text \<open>An error of the streaming client: what its classification reads, and its source chain.\<close>

datatype stream_error_code = AuthFailed | OtherCode string

datatype upstream_error_kind = StreamingAuth | StreamingError stream_error_code | OtherUpstream

record upstream_error =
  ue_kind :: upstream_error_kind
  ue_chain :: "string list"

fun error_chain_parts :: "string list \<Rightarrow> string" where
  "error_chain_parts [] = []"
| "error_chain_parts [p] = p"
| "error_chain_parts (p # ps) = p @ '' -> '' @ error_chain_parts ps"

definition error_chain :: "upstream_error \<Rightarrow> string" where
  "error_chain e = error_chain_parts (ue_chain e)"

text \<open>What distinguishes one provider's hub from the other's.\<close>

record ('m, 's) hub_code =
  hc_provider :: provider_id
  hc_translate :: "timestamp \<Rightarrow> 'm \<Rightarrow> market_event list"
  hc_unauthenticated :: "upstream_error \<Rightarrow> bool"
  hc_env_error :: "'s \<Rightarrow> upstream_error option"

record reconnect_policy =
  rp_initial_backoff_ms :: u64
  rp_max_backoff_ms :: u64
  rp_jitter :: bool

definition reconnect_policy_default :: reconnect_policy where
  "reconnect_policy_default = \<lparr> rp_initial_backoff_ms = 500, rp_max_backoff_ms = 30000, rp_jitter = True \<rparr>"

record 's hub_config =
  hg_settings :: "'s settings_source"
  hg_credentials :: credentials_source
  hg_reconnect :: reconnect_policy

section \<open>Parking\<close>

datatype park = ParkDisabled | ParkMissingCredentials | ParkRejectedCredentials

definition park_reason :: "park \<Rightarrow> string" where
  "park_reason p =
     (case p of
        ParkDisabled \<Rightarrow> ''provider disabled''
      | ParkMissingCredentials \<Rightarrow> ''waiting for credentials''
      | ParkRejectedCredentials \<Rightarrow> ''waiting for new credentials after auth rejection'')"

definition park_error :: "provider_id \<Rightarrow> park \<Rightarrow> error" where
  "park_error pid p =
     (case p of
        ParkDisabled \<Rightarrow> Provider pid (park_reason p)
      | ParkMissingCredentials \<Rightarrow> Unauthenticated pid (park_reason p)
      | ParkRejectedCredentials \<Rightarrow> Unauthenticated pid (park_reason p))"

section \<open>The hub\<close>

text \<open>
  Where the task is. A receiver is the version it has seen; \<open>Waiting\<close> watches the settings when
  disabled and the credentials otherwise, and its flag is the inner loop entered once the sender
  is gone. \<open>Connected\<close> keeps the settings and credentials its socket was opened with.
\<close>

datatype 's hub_phase =
    Top
  | TookSettingsRx "nat option"
  | Enabled "nat option" 's
  | TookCredRx "nat option" 's "nat option"
  | Connecting "nat option" 's "nat option" resolved
  | Connected "nat option" 's "nat option" resolved
  | Waiting park nat bool
  | Sleeping u64
  | Exited

type_synonym sink_id = nat

record 's hub =
  hb_phase :: "'s hub_phase"
  hb_routes :: "((instrument \<times> event_kind) \<times> sink_id) list"
  hb_subs :: subscription_list
  hb_backoff :: u64
  hb_sent :: "(sink_id \<times> market_event) list"
  hb_acks :: "(nat \<times> unit res) list"
  hb_calls :: "(bool \<times> subscription_list \<times> bool) list"

definition hub_new :: "'s hub_config \<Rightarrow> 's hub" where
  "hub_new cfg =
     \<lparr> hb_phase = Top, hb_routes = [], hb_subs = subscription_list_new,
       hb_backoff = rp_initial_backoff_ms (hg_reconnect cfg), hb_sent = [], hb_acks = [], hb_calls = [] \<rparr>"

definition event_route_key :: "market_event \<Rightarrow> (instrument \<times> event_kind) option" where
  "event_route_key ev =
     (case ev of
        Trade t \<Rightarrow> Some (t_instrument t, KTrade)
      | Quote q \<Rightarrow> Some (q_instrument q, KQuote)
      | Bar b \<Rightarrow> Some (b_instrument b, KBar (b_interval b))
      | Control _ \<Rightarrow> None)"

definition send_to :: "sink_id \<Rightarrow> market_event \<Rightarrow> 's hub \<Rightarrow> 's hub" where
  "send_to sink ev h = h\<lparr> hb_sent := hb_sent h @ [(sink, ev)] \<rparr>"

definition send_all :: "market_event \<Rightarrow> 's hub \<Rightarrow> 's hub" where
  "send_all ev h = h\<lparr> hb_sent := hb_sent h @ map (\<lambda>(_, sink). (sink, ev)) (hb_routes h) \<rparr>"

definition dispatch_event :: "market_event \<Rightarrow> 's hub \<Rightarrow> 's hub" where
  "dispatch_event ev h =
     (case event_route_key ev of
        Some key \<Rightarrow> (case map_of (hb_routes h) key of Some sink \<Rightarrow> send_to sink ev h | None \<Rightarrow> h)
      | None \<Rightarrow> send_all ev h)"

definition control_event :: "timestamp \<Rightarrow> control_kind \<Rightarrow> market_event" where
  "control_event now kind = Control \<lparr> c_source_ts = now, c_rx_ts = now, c_seq = 0, c_kind = kind \<rparr>"

definition broadcast_control :: "timestamp \<Rightarrow> control_kind \<Rightarrow> 's hub \<Rightarrow> 's hub" where
  "broadcast_control now kind h = send_all (control_event now kind) h"

definition broadcast_control_to :: "sink_id option \<Rightarrow> timestamp \<Rightarrow> control_kind \<Rightarrow> 's hub \<Rightarrow> 's hub" where
  "broadcast_control_to sink now kind h =
     (case sink of Some s \<Rightarrow> send_to s (control_event now kind) h | None \<Rightarrow> h)"

definition send_ack :: "nat \<Rightarrow> unit res \<Rightarrow> 's hub \<Rightarrow> 's hub" where
  "send_ack k r h = h\<lparr> hb_acks := hb_acks h @ [(k, r)] \<rparr>"

definition set_phase :: "'s hub_phase \<Rightarrow> 's hub \<Rightarrow> 's hub" where
  "set_phase ph h = h\<lparr> hb_phase := ph \<rparr>"

text \<open>A call on the socket with its outcome, \<open>None\<close> for success.\<close>

definition call_upstream :: "bool \<Rightarrow> subscription_list \<Rightarrow> upstream_error option \<Rightarrow> 's hub \<Rightarrow> 's hub" where
  "call_upstream add l res h = h\<lparr> hb_calls := hb_calls h @ [(add, l, res = None)] \<rparr>"

datatype hub_command =
    HubSubscribe instrument event_kind sink_id nat
  | HubUnsubscribe instrument event_kind nat

definition command_ack :: "hub_command \<Rightarrow> nat" where
  "command_ack cmd = (case cmd of HubSubscribe _ _ _ k \<Rightarrow> k | HubUnsubscribe _ _ k \<Rightarrow> k)"

text \<open>The \<^verbatim>\<open>Subscribe\<close> arm of the connected loop.\<close>

definition hub_subscribe ::
  "provider_id \<Rightarrow> timestamp \<Rightarrow> timestamp \<Rightarrow> upstream_error option \<Rightarrow> instrument \<Rightarrow> event_kind \<Rightarrow> sink_id \<Rightarrow> nat \<Rightarrow>
   's hub \<Rightarrow> 's hub" where
  "hub_subscribe pid now now' res i kind sink k h =
     (let h1 = h\<lparr> hb_routes := AList.update (i, kind) sink (hb_routes h),
                  hb_subs := apply_pair_to_list i kind True (hb_subs h) \<rparr>;
          h2 = call_upstream True (hb_subs h1) res h1
      in case res of
           Some e \<Rightarrow>
             send_ack k (Inl (Provider pid (''add_subscriptions: '' @ error_chain e)))
               (h2\<lparr> hb_routes := AList.delete (i, kind) (hb_routes h2),
                    hb_subs := apply_pair_to_list i kind False (hb_subs h2) \<rparr>)
         | None \<Rightarrow>
             send_ack k (Inr ())
               (broadcast_control_to (map_of (hb_routes h2) (i, kind)) now' (SubscriptionChanged pid i kind True)
                  (broadcast_control_to (map_of (hb_routes h2) (i, kind)) now (ProviderConnected pid) h2)))"

text \<open>The \<^verbatim>\<open>Unsubscribe\<close> arm.\<close>

definition hub_unsubscribe ::
  "provider_id \<Rightarrow> timestamp \<Rightarrow> upstream_error option \<Rightarrow> instrument \<Rightarrow> event_kind \<Rightarrow> nat \<Rightarrow> 's hub \<Rightarrow> 's hub" where
  "hub_unsubscribe pid now res i kind k h =
     (let h1 = h\<lparr> hb_subs := apply_pair_to_list i kind False (hb_subs h) \<rparr>;
          h2 = call_upstream False (apply_pair_to_list i kind True subscription_list_new) res h1
      in case res of
           None \<Rightarrow>
             send_ack k (Inr ())
               (broadcast_control_to (map_of (hb_routes h2) (i, kind)) now (SubscriptionChanged pid i kind False)
                  (h2\<lparr> hb_routes := AList.delete (i, kind) (hb_routes h2) \<rparr>))
         | Some e \<Rightarrow>
             send_ack k (Inl (Provider pid (''remove_subscriptions: '' @ error_chain e)))
               (h2\<lparr> hb_subs := apply_pair_to_list i kind True (hb_subs h2) \<rparr>))"

section \<open>Losing the connection\<close>

text \<open>The delay the backoff gives, full jitter drawing it below, and the next backoff.\<close>

definition sleep_with_jitter :: "u64 \<Rightarrow> reconnect_policy \<Rightarrow> 's hub \<Rightarrow> 's hub" where
  "sleep_with_jitter drawn policy h =
     (let delay = (if rp_jitter policy then min drawn (hb_backoff h) else hb_backoff h)
      in set_phase (Sleeping delay) (h\<lparr> hb_backoff := min (hb_backoff h * 2) (rp_max_backoff_ms policy) \<rparr>))"

definition disconnect_cause_of :: "bool \<Rightarrow> disconnect_cause" where
  "disconnect_cause_of unauthenticated = (if unauthenticated then CauseUnauthenticated else CauseError)"

text \<open>A failed connect or stream: tell every session, then park on rejected credentials or back off.\<close>

definition lose_connection ::
  "('m, 's) hub_code \<Rightarrow> reconnect_policy \<Rightarrow> string \<Rightarrow> timestamp \<Rightarrow> u64 \<Rightarrow> nat option \<Rightarrow> upstream_error \<Rightarrow> 's hub \<Rightarrow> 's hub" where
  "lose_connection code policy what now drawn cred_rx e h =
     (let unauthenticated = hc_unauthenticated code e;
          h1 = broadcast_control now
                 (ProviderDisconnected (hc_provider code) (what @ error_chain e) (disconnect_cause_of unauthenticated)) h
      in case (unauthenticated, cred_rx) of
           (True, Some seen) \<Rightarrow> set_phase (Waiting ParkRejectedCredentials seen False) h1
         | _ \<Rightarrow> sleep_with_jitter drawn policy h1)"

text \<open>A rotation or a settings change: disconnect on purpose and start over.\<close>

definition restart_connection :: "'s hub_config \<Rightarrow> provider_id \<Rightarrow> timestamp \<Rightarrow> string \<Rightarrow> disconnect_cause \<Rightarrow> 's hub \<Rightarrow> 's hub" where
  "restart_connection cfg pid now reason cause h =
     set_phase Top ((broadcast_control now (ProviderDisconnected pid reason cause) h)
       \<lparr> hb_backoff := rp_initial_backoff_ms (hg_reconnect cfg) \<rparr>)"

section \<open>Steps\<close>

type_synonym 's sources = "'s option channel \<times> api_key option channel"

text \<open>From the top of the outer loop to the connect.\<close>

definition hub_advance :: "'s hub_config \<Rightarrow> 's sources \<Rightarrow> 's hub \<Rightarrow> 's hub" where
  "hub_advance cfg env h =
     (case hb_phase h of
        Top \<Rightarrow> set_phase (TookSettingsRx (settings_watch (hg_settings cfg) (fst env))) h
      | TookSettingsRx settings_rx \<Rightarrow>
          (case settings_current (hg_settings cfg) (fst env) of
             None \<Rightarrow> (case settings_rx of None \<Rightarrow> set_phase Exited h | Some seen \<Rightarrow> set_phase (Waiting ParkDisabled seen False) h)
           | Some s \<Rightarrow> set_phase (Enabled settings_rx s) h)
      | Enabled settings_rx s \<Rightarrow> set_phase (TookCredRx settings_rx s (credentials_watch (hg_credentials cfg) (snd env))) h
      | TookCredRx settings_rx s cred_rx \<Rightarrow>
          (case credentials_current (hg_credentials cfg) (snd env) of
             RMissing \<Rightarrow>
               (case cred_rx of None \<Rightarrow> set_phase Exited h | Some seen \<Rightarrow> set_phase (Waiting ParkMissingCredentials seen False) h)
           | r \<Rightarrow> set_phase (Connecting settings_rx s cred_rx r) h)
      | _ \<Rightarrow> h)"

text \<open>An environment without the key pair fails the connect before the network is tried.\<close>

definition connect_result :: "('m, 's) hub_code \<Rightarrow> 's \<Rightarrow> resolved \<Rightarrow> upstream_error option \<Rightarrow> upstream_error option" where
  "connect_result code s r net = (case (r, hc_env_error code s) of (REnv, Some e) \<Rightarrow> Some e | _ \<Rightarrow> net)"

text \<open>The connect's outcome; on a fresh socket the aggregate subscription set is re-applied.\<close>

definition hub_connected ::
  "('m, 's) hub_code \<Rightarrow> 's hub_config \<Rightarrow> timestamp \<Rightarrow> timestamp \<Rightarrow> u64 \<Rightarrow> upstream_error option \<Rightarrow> upstream_error option \<Rightarrow>
   's hub \<Rightarrow> 's hub" where
  "hub_connected code cfg now now' drawn net resub h =
     (case hb_phase h of
        Connecting settings_rx s cred_rx r \<Rightarrow>
          (case connect_result code s r net of
             Some e \<Rightarrow> lose_connection code (hg_reconnect cfg) ''connect failed: '' now drawn cred_rx e h
           | None \<Rightarrow>
               let h1 = broadcast_control now (ProviderConnected (hc_provider code))
                          (h\<lparr> hb_backoff := rp_initial_backoff_ms (hg_reconnect cfg), hb_calls := [] \<rparr>);
                   h2 = (if subscriptions_empty (hb_subs h1) then h1
                         else let h3 = call_upstream True (hb_subs h1) resub h1 in
                              case resub of
                                Some e \<Rightarrow> broadcast_control now'
                                            (ProviderError (hc_provider code) (''re-subscribe failed: '' @ error_chain e)) h3
                              | None \<Rightarrow> h3)
               in set_phase (Connected settings_rx s cred_rx r) h2)
      | _ \<Rightarrow> h)"

text \<open>A command, where the task receives one.\<close>

definition hub_receive ::
  "('m, 's) hub_code \<Rightarrow> timestamp \<Rightarrow> timestamp \<Rightarrow> upstream_error option \<Rightarrow> hub_command \<Rightarrow> 's hub \<Rightarrow> 's hub" where
  "hub_receive code now now' res cmd h =
     (case hb_phase h of
        Connected _ _ _ _ \<Rightarrow>
          (case cmd of
             HubSubscribe i kind sink k \<Rightarrow> hub_subscribe (hc_provider code) now now' res i kind sink k h
           | HubUnsubscribe i kind k \<Rightarrow> hub_unsubscribe (hc_provider code) now res i kind k h)
      | Waiting park _ _ \<Rightarrow> send_ack (command_ack cmd) (Inl (park_error (hc_provider code) park)) h
      | Sleeping _ \<Rightarrow>
          set_phase Top (send_ack (command_ack cmd) (Inl (Provider (hc_provider code) ''provider is reconnecting'')) h)
      | _ \<Rightarrow> h)"

text \<open>The provider and every handle are gone: \<^verbatim>\<open>recv\<close> answers \<^verbatim>\<open>None\<close>.\<close>

definition hub_abandoned :: "'s hub \<Rightarrow> 's hub" where
  "hub_abandoned h =
     (case hb_phase h of
        Connected _ _ _ _ \<Rightarrow> set_phase Exited h
      | Waiting _ _ _ \<Rightarrow> set_phase Exited h
      | Sleeping _ \<Rightarrow> set_phase Exited h
      | _ \<Rightarrow> h)"

text \<open>A message of the stream, and its end.\<close>

definition hub_message :: "('m, 's) hub_code \<Rightarrow> timestamp \<Rightarrow> 'm \<Rightarrow> 's hub \<Rightarrow> 's hub" where
  "hub_message code now msg h =
     (case hb_phase h of
        Connected _ _ _ _ \<Rightarrow> foldl (\<lambda>h ev. dispatch_event ev h) h (hc_translate code now msg)
      | _ \<Rightarrow> h)"

definition hub_stream_fails ::
  "('m, 's) hub_code \<Rightarrow> 's hub_config \<Rightarrow> timestamp \<Rightarrow> u64 \<Rightarrow> upstream_error \<Rightarrow> 's hub \<Rightarrow> 's hub" where
  "hub_stream_fails code cfg now drawn e h =
     (case hb_phase h of
        Connected _ _ cred_rx _ \<Rightarrow> lose_connection code (hg_reconnect cfg) ''websocket: '' now drawn cred_rx e h
      | _ \<Rightarrow> h)"

text \<open>The two watch arms of the connected loop.\<close>

definition hub_creds_changed :: "('m, 's) hub_code \<Rightarrow> 's hub_config \<Rightarrow> 's sources \<Rightarrow> timestamp \<Rightarrow> 's hub \<Rightarrow> 's hub" where
  "hub_creds_changed code cfg env now h =
     (case hb_phase h of
        Connected settings_rx s (Some seen) r \<Rightarrow>
          (case changed seen (snd env) of
             Some True \<Rightarrow> restart_connection cfg (hc_provider code) now ''credentials rotated'' CauseError h
           | Some False \<Rightarrow> set_phase (Connected settings_rx s None r) h
           | None \<Rightarrow> h)
      | _ \<Rightarrow> h)"

definition hub_settings_changed :: "('m, 's) hub_code \<Rightarrow> 's hub_config \<Rightarrow> 's sources \<Rightarrow> timestamp \<Rightarrow> 's hub \<Rightarrow> 's hub" where
  "hub_settings_changed code cfg env now h =
     (case hb_phase h of
        Connected (Some seen) s cred_rx r \<Rightarrow>
          (case changed seen (fst env) of
             Some True \<Rightarrow>
               (case settings_current (hg_settings cfg) (fst env) of
                  None \<Rightarrow> restart_connection cfg (hc_provider code) now ''provider disabled'' CauseDisabled h
                | Some _ \<Rightarrow> restart_connection cfg (hc_provider code) now ''settings changed'' CauseError h)
           | Some False \<Rightarrow> set_phase (Connected None s cred_rx r) h
           | None \<Rightarrow> h)
      | _ \<Rightarrow> h)"

text \<open>\<^verbatim>\<open>wait_for_provisioning\<close>: the watch arm.\<close>

definition wait_for_provisioning :: "'s sources \<Rightarrow> 's hub \<Rightarrow> 's hub" where
  "wait_for_provisioning env h =
     (case hb_phase h of
        Waiting park seen False \<Rightarrow>
          (case (if park = ParkDisabled then changed seen (fst env) else changed seen (snd env)) of
             Some True \<Rightarrow> set_phase Top h
           | Some False \<Rightarrow> set_phase (Waiting park seen True) h
           | None \<Rightarrow> h)
      | _ \<Rightarrow> h)"

definition hub_timer :: "'s hub \<Rightarrow> 's hub" where
  "hub_timer h = (case hb_phase h of Sleeping _ \<Rightarrow> set_phase Top h | _ \<Rightarrow> h)"

datatype ('m, 's) hub_in =
    Advance
  | ConnectDone timestamp timestamp u64 "upstream_error option" "upstream_error option"
  | Receive timestamp timestamp "upstream_error option" hub_command
  | Abandoned
  | Message timestamp 'm
  | StreamFails timestamp u64 upstream_error
  | CredsChanged timestamp
  | SettingsChanged timestamp
  | WatchReady
  | TimerFires
  | Outside "'s source_event"

definition hub_step ::
  "('m, 's) hub_code \<Rightarrow> 's hub_config \<Rightarrow> ('m, 's) hub_in \<Rightarrow> 's sources \<times> 's hub \<Rightarrow> 's sources \<times> 's hub" where
  "hub_step code cfg inp = (\<lambda>(env, h).
     (case inp of
        Advance \<Rightarrow> (env, hub_advance cfg env h)
      | ConnectDone now now' drawn net resub \<Rightarrow> (env, hub_connected code cfg now now' drawn net resub h)
      | Receive now now' res cmd \<Rightarrow> (env, hub_receive code now now' res cmd h)
      | Abandoned \<Rightarrow> (env, hub_abandoned h)
      | Message now msg \<Rightarrow> (env, hub_message code now msg h)
      | StreamFails now drawn e \<Rightarrow> (env, hub_stream_fails code cfg now drawn e h)
      | CredsChanged now \<Rightarrow> (env, hub_creds_changed code cfg env now h)
      | SettingsChanged now \<Rightarrow> (env, hub_settings_changed code cfg env now h)
      | WatchReady \<Rightarrow> (env, wait_for_provisioning env h)
      | TimerFires \<Rightarrow> (env, hub_timer h)
      | Outside ev \<Rightarrow> (source_step ev env, h)))"

definition hub_run ::
  "('m, 's) hub_code \<Rightarrow> 's hub_config \<Rightarrow> ('m, 's) hub_in list \<Rightarrow> 's sources \<times> 's hub \<Rightarrow> 's sources \<times> 's hub" where
  "hub_run code cfg ins st = foldl (\<lambda>st inp. hub_step code cfg inp st) st ins"

section \<open>A session's handle\<close>

text \<open>The pair it is subscribed to, and how the acknowledgements move it (\<^verbatim>\<open>SharedLiveHandle\<close>).\<close>

record live_handle =
  lh_sink :: sink_id
  lh_subscribed :: "(instrument \<times> event_kind) option"

definition handle_subscribe :: "unit res option \<Rightarrow> instrument \<Rightarrow> event_kind \<Rightarrow> live_handle \<Rightarrow> unit res \<times> live_handle" where
  "handle_subscribe ack i kind lh =
     (case ack of
        None \<Rightarrow> (Inl SessionClosed, lh)
      | Some (Inr u) \<Rightarrow> (Inr u, lh\<lparr> lh_subscribed := Some (i, kind) \<rparr>)
      | Some (Inl e) \<Rightarrow> (Inl e, lh))"

definition handle_unsubscribe :: "unit res option \<Rightarrow> instrument \<Rightarrow> event_kind \<Rightarrow> live_handle \<Rightarrow> unit res \<times> live_handle" where
  "handle_unsubscribe ack i kind lh =
     (case ack of
        None \<Rightarrow> (Inl SessionClosed, lh)
      | Some (Inr u) \<Rightarrow> (Inr u, if lh_subscribed lh = Some (i, kind) then lh\<lparr> lh_subscribed := None \<rparr> else lh)
      | Some (Inl e) \<Rightarrow> (Inl e, lh))"

text \<open>\<^verbatim>\<open>close\<close>: the command it sends, if any; its outcome is ignored and the result is always success.\<close>

definition handle_close :: "nat \<Rightarrow> live_handle \<Rightarrow> hub_command option \<times> unit res" where
  "handle_close k lh =
     ((case lh_subscribed lh of Some (i, kind) \<Rightarrow> Some (HubUnsubscribe i kind k) | None \<Rightarrow> None), Inr ())"

text \<open>\<^verbatim>\<open>ensure_hub\<close>: one task per provider.\<close>

datatype hub_slot = HubIdle | HubActive

definition ensure_hub :: "hub_slot \<times> nat \<Rightarrow> hub_slot \<times> nat" where
  "ensure_hub = (\<lambda>(slot, spawns). case slot of HubActive \<Rightarrow> (slot, spawns) | HubIdle \<Rightarrow> (HubActive, spawns + 1))"

end
