(* ===== verification/Provider_Hub_Inv.thy ===== *)
theory Provider_Hub_Inv
  imports Provider_Hub
begin

text \<open>
  What holds of the hub in every run: sessions are told whether the provider is up, the upstream
  subscription is that of the routed sessions, the connection uses the current settings and
  credentials or is about to be reopened, and messages reach exactly the sessions they are for.
  The two providers enter through the locale \<open>stream_hub\<close>.
\<close>

section \<open>Fields\<close>

lemma send_to_fields [simp]:
  "hb_phase (send_to s ev h) = hb_phase h" "hb_routes (send_to s ev h) = hb_routes h" "hb_subs (send_to s ev h) = hb_subs h"
  "hb_backoff (send_to s ev h) = hb_backoff h" "hb_calls (send_to s ev h) = hb_calls h" "hb_acks (send_to s ev h) = hb_acks h"
  "hb_sent (send_to s ev h) = hb_sent h @ [(s, ev)]"
  by (simp_all add: send_to_def)

lemma send_all_fields [simp]:
  "hb_phase (send_all ev h) = hb_phase h" "hb_routes (send_all ev h) = hb_routes h" "hb_subs (send_all ev h) = hb_subs h"
  "hb_backoff (send_all ev h) = hb_backoff h" "hb_calls (send_all ev h) = hb_calls h" "hb_acks (send_all ev h) = hb_acks h"
  "hb_sent (send_all ev h) = hb_sent h @ map (\<lambda>(_, s). (s, ev)) (hb_routes h)"
  by (simp_all add: send_all_def)

lemma dispatch_fields [simp]:
  "hb_phase (dispatch_event ev h) = hb_phase h" "hb_routes (dispatch_event ev h) = hb_routes h"
  "hb_subs (dispatch_event ev h) = hb_subs h" "hb_backoff (dispatch_event ev h) = hb_backoff h"
  "hb_calls (dispatch_event ev h) = hb_calls h" "hb_acks (dispatch_event ev h) = hb_acks h"
  by (simp_all add: dispatch_event_def split: option.split)

lemma dispatches_fields [simp]:
  "hb_phase (foldl (\<lambda>h ev. dispatch_event ev h) h evs) = hb_phase h"
  "hb_routes (foldl (\<lambda>h ev. dispatch_event ev h) h evs) = hb_routes h"
  "hb_subs (foldl (\<lambda>h ev. dispatch_event ev h) h evs) = hb_subs h"
  "hb_backoff (foldl (\<lambda>h ev. dispatch_event ev h) h evs) = hb_backoff h"
  "hb_calls (foldl (\<lambda>h ev. dispatch_event ev h) h evs) = hb_calls h"
  by (induction evs arbitrary: h) simp_all

lemma broadcast_fields [simp]:
  "hb_phase (broadcast_control now k h) = hb_phase h" "hb_routes (broadcast_control now k h) = hb_routes h"
  "hb_subs (broadcast_control now k h) = hb_subs h" "hb_backoff (broadcast_control now k h) = hb_backoff h"
  "hb_calls (broadcast_control now k h) = hb_calls h"
  "hb_sent (broadcast_control now k h) = hb_sent h @ map (\<lambda>(_, s). (s, control_event now k)) (hb_routes h)"
  by (simp_all add: broadcast_control_def)

lemma broadcast_to_fields [simp]:
  "hb_phase (broadcast_control_to s now k h) = hb_phase h" "hb_routes (broadcast_control_to s now k h) = hb_routes h"
  "hb_subs (broadcast_control_to s now k h) = hb_subs h" "hb_backoff (broadcast_control_to s now k h) = hb_backoff h"
  "hb_calls (broadcast_control_to s now k h) = hb_calls h"
  "hb_sent (broadcast_control_to s now k h) =
     hb_sent h @ (case s of Some t \<Rightarrow> [(t, control_event now k)] | None \<Rightarrow> [])"
  by (simp_all add: broadcast_control_to_def split: option.split)

lemma send_ack_fields [simp]:
  "hb_phase (send_ack k r h) = hb_phase h" "hb_routes (send_ack k r h) = hb_routes h" "hb_subs (send_ack k r h) = hb_subs h"
  "hb_backoff (send_ack k r h) = hb_backoff h" "hb_calls (send_ack k r h) = hb_calls h" "hb_sent (send_ack k r h) = hb_sent h"
  by (simp_all add: send_ack_def)

lemma set_phase_fields [simp]:
  "hb_phase (set_phase ph h) = ph" "hb_routes (set_phase ph h) = hb_routes h" "hb_subs (set_phase ph h) = hb_subs h"
  "hb_backoff (set_phase ph h) = hb_backoff h" "hb_calls (set_phase ph h) = hb_calls h" "hb_sent (set_phase ph h) = hb_sent h"
  by (simp_all add: set_phase_def)

lemma call_upstream_fields [simp]:
  "hb_phase (call_upstream a l r h) = hb_phase h" "hb_routes (call_upstream a l r h) = hb_routes h"
  "hb_subs (call_upstream a l r h) = hb_subs h" "hb_backoff (call_upstream a l r h) = hb_backoff h"
  "hb_calls (call_upstream a l r h) = hb_calls h @ [(a, l, r = None)]" "hb_sent (call_upstream a l r h) = hb_sent h"
  by (simp_all add: call_upstream_def)

lemma sleep_fields [simp]:
  "hb_routes (sleep_with_jitter d p h) = hb_routes h" "hb_subs (sleep_with_jitter d p h) = hb_subs h"
  "hb_calls (sleep_with_jitter d p h) = hb_calls h" "hb_sent (sleep_with_jitter d p h) = hb_sent h"
  "hb_backoff (sleep_with_jitter d p h) = min (hb_backoff h * 2) (rp_max_backoff_ms p)"
  "hb_phase (sleep_with_jitter d p h) = Sleeping (if rp_jitter p then min d (hb_backoff h) else hb_backoff h)"
  by (simp_all add: sleep_with_jitter_def Let_def)

fun is_connected :: "'s hub_phase \<Rightarrow> bool" where
  "is_connected (Connected _ _ _ _) = True"
| "is_connected _ = False"

lemma lose_fields [simp]:
  "hb_routes (lose_connection code p what now d crx e h) = hb_routes h"
  "hb_subs (lose_connection code p what now d crx e h) = hb_subs h"
  "hb_calls (lose_connection code p what now d crx e h) = hb_calls h"
  "hb_sent (lose_connection code p what now d crx e h) = hb_sent h @ map (\<lambda>(_, s). (s, control_event now
     (ProviderDisconnected (hc_provider code) (what @ error_chain e) (disconnect_cause_of (hc_unauthenticated code e))))) (hb_routes h)"
  "\<not> is_connected (hb_phase (lose_connection code p what now d crx e h))"
  by (auto simp: lose_connection_def Let_def split: bool.split option.split)

lemma restart_fields [simp]:
  "hb_routes (restart_connection cfg pid now r c h) = hb_routes h" "hb_subs (restart_connection cfg pid now r c h) = hb_subs h"
  "hb_calls (restart_connection cfg pid now r c h) = hb_calls h" "hb_phase (restart_connection cfg pid now r c h) = Top"
  "hb_backoff (restart_connection cfg pid now r c h) = rp_initial_backoff_ms (hg_reconnect cfg)"
  "hb_sent (restart_connection cfg pid now r c h) =
     hb_sent h @ map (\<lambda>(_, s). (s, control_event now (ProviderDisconnected pid r c))) (hb_routes h)"
  by (simp_all add: restart_connection_def)

section \<open>What a session was told about the connection\<close>

definition conn_edge :: "market_event \<Rightarrow> bool option" where
  "conn_edge ev =
     (case ev of
        Control c \<Rightarrow> (case c_kind c of ProviderConnected _ \<Rightarrow> Some True | ProviderDisconnected _ _ _ \<Rightarrow> Some False | _ \<Rightarrow> None)
      | _ \<Rightarrow> None)"

lemma conn_edge_control [simp]:
  "conn_edge (control_event now (ProviderConnected p)) = Some True"
  "conn_edge (control_event now (ProviderDisconnected p r c)) = Some False"
  "conn_edge (control_event now (SubscriptionChanged p i k a)) = None"
  "conn_edge (control_event now (ProviderError p m)) = None"
  by (simp_all add: conn_edge_def control_event_def)

definition told :: "sink_id \<Rightarrow> (sink_id \<times> market_event) list \<Rightarrow> bool option" where
  "told s sent = foldl (\<lambda>a (t, ev). case conn_edge ev of Some b \<Rightarrow> if t = s then Some b else a | None \<Rightarrow> a) None sent"

lemma told_snoc [simp]:
  "told s (sent @ [(t, ev)]) = (case conn_edge ev of Some b \<Rightarrow> if t = s then Some b else told s sent | None \<Rightarrow> told s sent)"
  by (auto simp: told_def split: option.split)

lemma told_append_none:
  "(\<And>t ev. (t, ev) \<in> set xs \<Longrightarrow> t = s \<Longrightarrow> conn_edge ev = None) \<Longrightarrow> told s (sent @ xs) = told s sent"
proof (induction xs rule: rev_induct)
  case (snoc x xs)
  then show ?case using told_snoc [of s "sent @ xs" "fst x" "snd x"] by (cases x) (auto split: option.splits)
qed simp

lemma told_broadcast:
  assumes "conn_edge ev = Some b"
  shows "told s (sent @ map (\<lambda>(_, s). (s, ev)) routes) = (if s \<in> snd ` set routes then Some b else told s sent)"
  using assms
proof (induction routes rule: rev_induct)
  case (snoc r routes)
  obtain k t where "r = (k, t)" by (cases r)
  then show ?case using snoc told_snoc [of s "sent @ map (\<lambda>(_, s). (s, ev)) routes" t ev] by auto
qed simp

lemmas told_edges [simp] = told_broadcast [OF conn_edge_control(1)] told_broadcast [OF conn_edge_control(2)]

lemma told_quiet: "conn_edge ev = None \<Longrightarrow> told s (sent @ map (\<lambda>(_, s). (s, ev)) routes) = told s sent"
  by (rule told_append_none) auto

text \<open>Until the hub exits, for want of a provider and of handles.\<close>

definition told_state :: "'s hub \<Rightarrow> bool" where
  "told_state h \<longleftrightarrow> hb_phase h \<noteq> Exited \<longrightarrow> (\<forall>s \<in> snd ` set (hb_routes h). told s (hb_sent h) = Some (is_connected (hb_phase h)))"

lemma update_routes: "set (AList.update k v xs) \<subseteq> insert (k, v) (set xs)"
  by (induction xs) auto

lemma delete_routes: "set (AList.delete k xs) \<subseteq> set xs"
  by (auto simp: AList.delete_eq)

section \<open>A provider's vocabulary\<close>

text \<open>What a hub relies on of its provider's translation: it never speaks of the connection itself.\<close>

locale stream_hub =
  fixes code :: "('m, 's) hub_code"
  assumes translate_silent: "ev \<in> set (hc_translate code now msg) \<Longrightarrow> conn_edge ev = None"
begin

lemma told_dispatch: "conn_edge ev = None \<Longrightarrow> told s (hb_sent (dispatch_event ev h)) = told s (hb_sent h)"
proof -
  assume e: "conn_edge ev = None"
  then have "told s (hb_sent h @ map (\<lambda>(_, s). (s, ev)) (hb_routes h)) = told s (hb_sent h)"
    by (intro told_append_none) auto
  then show ?thesis using e by (auto simp: dispatch_event_def split: option.split)
qed

lemma told_dispatches:
  "(\<And>ev. ev \<in> set evs \<Longrightarrow> conn_edge ev = None) \<Longrightarrow>
   told s (hb_sent (foldl (\<lambda>h ev. dispatch_event ev h) h evs)) = told s (hb_sent h)"
  by (induction evs arbitrary: h) (simp_all add: told_dispatch)

lemma told_subscribe:
  assumes "told_state h" "is_connected (hb_phase h)"
  shows "told_state (hub_subscribe pid now now' res i kind sink k h)"
proof (cases res)
  case None
  have "s = sink \<or> s \<in> snd ` set (hb_routes h)" if "s \<in> snd ` set (AList.update (i, kind) sink (hb_routes h))" for s
    using that update_routes [of "(i, kind)" sink "hb_routes h"] by auto
  moreover have "told s (hb_sent h @ [(sink, control_event now (ProviderConnected pid)),
      (sink, control_event now' (SubscriptionChanged pid i kind True))]) = (if s = sink then Some True else told s (hb_sent h))" for s
    using told_snoc [of s "hb_sent h @ [(sink, control_event now (ProviderConnected pid))]"] by simp
  ultimately show ?thesis
    using assms None by (fastforce simp: told_state_def hub_subscribe_def Let_def AList.update_conv')
next
  case (Some e)
  then show ?thesis
    using assms delete_routes [of "(i, kind)" "hb_routes h"]
    by (auto simp: told_state_def hub_subscribe_def Let_def AList.delete_update_same)
qed

lemma told_unsubscribe:
  assumes "told_state h" "is_connected (hb_phase h)"
  shows "told_state (hub_unsubscribe pid now res i kind k h)"
  using assms delete_routes [of "(i, kind)" "hb_routes h"]
  by (auto simp: told_state_def hub_unsubscribe_def Let_def split: option.split)

lemma told_lose: "told_state (lose_connection code p what now d crx e h)"
  by (simp add: told_state_def)

lemma told_restart: "told_state (restart_connection cfg pid now r c h)"
  by (simp add: told_state_def)

lemma told_phase:
  "told_state h \<Longrightarrow> hb_phase h \<noteq> Exited \<Longrightarrow> is_connected ph = is_connected (hb_phase h) \<Longrightarrow> told_state (set_phase ph h)"
  "told_state h \<Longrightarrow> told_state (send_ack k r h)" "told_state (set_phase Exited h)"
  by (simp_all add: told_state_def)

lemma told_step:
  assumes "told_state h" "hub_step code cfg inp (env, h) = (env', h')"
  shows "told_state h'"
proof (cases inp)
  case Advance
  then show ?thesis
    using assms by (auto simp: hub_step_def hub_advance_def split: hub_phase.splits option.splits resolved.splits intro!: told_phase)
next
  case (ConnectDone now now' drawn net resub)
  have up: "told s (hb_sent h @ map (\<lambda>(_, s). (s, control_event now (ProviderConnected p))) (hb_routes h) @
      map (\<lambda>(_, s). (s, control_event now' (ProviderError p m))) (hb_routes h)) = Some True"
    if "s \<in> snd ` set (hb_routes h)" for s p m
    using that told_quiet [of "control_event now' (ProviderError p m)" s _ "hb_routes h"]
    by (simp add: append_assoc [symmetric] del: append_assoc)
  then show ?thesis
    using assms ConnectDone
    by (auto simp: hub_step_def hub_connected_def told_lose Let_def split: hub_phase.splits option.splits)
      (auto simp: told_state_def)
next
  case (Receive now now' res cmd)
  then show ?thesis
    using assms by (auto simp: hub_step_def hub_receive_def told_subscribe told_unsubscribe told_phase
        split: hub_phase.splits hub_command.splits)
next
  case (Message now msg)
  then show ?thesis
    using assms
    by (fastforce simp: hub_step_def hub_message_def told_state_def told_dispatches [OF translate_silent] split: hub_phase.splits)
next
  case (StreamFails now d e)
  then show ?thesis using assms by (auto simp: hub_step_def hub_stream_fails_def told_lose split: hub_phase.splits)
next
  case (CredsChanged now)
  then show ?thesis
    using assms by (auto simp: hub_step_def hub_creds_changed_def told_restart told_phase
        split: hub_phase.splits option.splits bool.splits)
next
  case (SettingsChanged now)
  then show ?thesis
    using assms by (auto simp: hub_step_def hub_settings_changed_def told_restart told_phase
        split: hub_phase.splits option.splits bool.splits)
qed (use assms in \<open>auto simp: hub_step_def hub_abandoned_def wait_for_provisioning_def hub_timer_def told_phase
        split: hub_phase.splits option.splits bool.splits if_splits\<close>)

end

section \<open>What the socket streams\<close>

definition in_field :: "string \<Rightarrow> string list option \<Rightarrow> bool" where
  "in_field sy f = (case f of None \<Rightarrow> False | Some xs \<Rightarrow> sy \<in> set xs)"

fun subscribed :: "subscription_list \<Rightarrow> string \<Rightarrow> event_kind \<Rightarrow> bool" where
  "subscribed l sy KTrade = in_field sy (sl_trades l)"
| "subscribed l sy KQuote = in_field sy (sl_quotes l)"
| "subscribed l sy (KBar OneMinute) = in_field sy (sl_bars l)"
| "subscribed l sy (KBar OneDay) = in_field sy (sl_daily_bars l)"
| "subscribed l sy (KBar _) = False"

fun live_kind :: "event_kind \<Rightarrow> bool" where
  "live_kind (KBar b) \<longleftrightarrow> b = OneMinute \<or> b = OneDay"
| "live_kind _ \<longleftrightarrow> True"

lemma filter_nil_mem: "filter P xs = [] \<Longrightarrow> x \<in> set xs \<Longrightarrow> \<not> P x"
  by (induction xs) (auto split: if_splits)

lemma in_field_mutate [simp]:
  "in_field sy (mutate_field symbol add f) \<longleftrightarrow> (if sy = symbol then add else in_field sy f)"
  by (auto simp: in_field_def mutate_field_def Let_def split: option.split dest: filter_nil_mem)

lemma subscribed_apply [simp]:
  assumes "live_kind kind"
  shows "subscribed (apply_pair_to_list i kind add l) sy k =
    (if sy = i_symbol i \<and> k = kind then add else subscribed l sy k)"
  using assms
  by (cases kind rule: live_kind.cases; cases "(l, sy, k)" rule: subscribed.cases) (auto simp: apply_pair_to_list_def)

lemma subscribed_new [simp]: "\<not> subscribed subscription_list_new sy k"
  by (cases "(subscription_list_new, sy, k)" rule: subscribed.cases) (auto simp: subscription_list_new_def in_field_def)

lemma subscribed_empty: "subscriptions_empty l \<Longrightarrow> \<not> subscribed l sy k"
  by (cases "(l, sy, k)" rule: subscribed.cases)
    (auto simp: subscriptions_empty_def none_or_empty_def in_field_def split: option.splits)

text \<open>
  The subscription of the current socket, as the upstream documents its calls: an accepted
  addition adds, an accepted removal removes, a refused call changes nothing.
\<close>

definition served :: "(bool \<times> subscription_list \<times> bool) list \<Rightarrow> string \<Rightarrow> event_kind \<Rightarrow> bool" where
  "served calls = foldl (\<lambda>on (add, l, ok) sy k.
     if \<not> ok then on sy k else if add then on sy k \<or> subscribed l sy k else on sy k \<and> \<not> subscribed l sy k)
     (\<lambda>_ _. False) calls"

lemma served_simps [simp]:
  "served [] sy k = False"
  "served (calls @ [(add, l, ok)]) sy k =
     (if \<not> ok then served calls sy k
      else if add then served calls sy k \<or> subscribed l sy k else served calls sy k \<and> \<not> subscribed l sy k)"
  by (simp_all add: served_def)

lemma served_one [simp]: "served [(add, l, ok)] sy k \<longleftrightarrow> ok \<and> add \<and> subscribed l sy k"
  by (simp add: served_def)

text \<open>The socket has had its re-subscribe, or an addition since, accepted.\<close>

definition synced :: "(bool \<times> subscription_list \<times> bool) list \<Rightarrow> bool" where
  "synced calls \<longleftrightarrow> calls = [] \<or> (\<exists>l. (True, l, True) \<in> set calls)"

definition routed :: "'s hub \<Rightarrow> (instrument \<times> event_kind) set" where
  "routed h = fst ` set (hb_routes h)"

definition routes_match :: "(string \<Rightarrow> instrument) \<Rightarrow> 's hub \<Rightarrow> bool" where
  "routes_match inst h \<longleftrightarrow>
     (\<forall>(i, k) \<in> routed h. i = inst (i_symbol i) \<and> live_kind k) \<and>
     (\<forall>sy k. subscribed (hb_subs h) sy k \<longleftrightarrow> (inst sy, k) \<in> routed h) \<and>
     (is_connected (hb_phase h) \<longrightarrow>
        (\<forall>sy k. served (hb_calls h) sy k \<longrightarrow> subscribed (hb_subs h) sy k) \<and>
        (synced (hb_calls h) \<longrightarrow> (\<forall>sy k. subscribed (hb_subs h) sy k \<longrightarrow> served (hb_calls h) sy k)))"

text \<open>
  What sessions ask of the hub: at most one live session for a pair of the provider's own
  instruments and a kind it streams, which unsubscribes what it subscribed.
\<close>

definition polite :: "(string \<Rightarrow> instrument) \<Rightarrow> ('m, 's) hub_in \<Rightarrow> 's hub \<Rightarrow> bool" where
  "polite inst inp h =
     (case inp of
        Receive _ _ _ (HubSubscribe i k _ _) \<Rightarrow> i = inst (i_symbol i) \<and> live_kind k \<and> (i, k) \<notin> routed h
      | Receive _ _ _ (HubUnsubscribe i k _) \<Rightarrow> (i, k) \<in> routed h
      | _ \<Rightarrow> True)"

fun polite_run :: "('m, 's) hub_code \<Rightarrow> 's hub_config \<Rightarrow> (string \<Rightarrow> instrument) \<Rightarrow> ('m, 's) hub_in list \<Rightarrow>
  's sources \<times> 's hub \<Rightarrow> bool" where
  "polite_run code cfg inst [] st = True"
| "polite_run code cfg inst (inp # ins) st =
     (polite inst inp (snd st) \<and> polite_run code cfg inst ins (hub_step code cfg inp st))"

lemma routed_update: "fst ` set (AList.update k v xs) = insert k (fst ` set xs)"
  by (simp add: AList.dom_update)

lemma routed_delete: "fst ` set (AList.delete k xs) = fst ` set xs - {k}"
  by (auto simp: AList.delete_eq)

lemma canonical_eq: "(\<And>s. i_symbol (inst s) = s) \<Longrightarrow> i = inst (i_symbol i) \<Longrightarrow> inst sy = i \<longleftrightarrow> sy = i_symbol i"
  by metis

lemma match_subscribe:
  assumes "routes_match inst h" "is_connected (hb_phase h)" "i = inst (i_symbol i)" "live_kind k" "(i, k) \<notin> routed h"
    "\<And>s. i_symbol (inst s) = s"
  shows "routes_match inst (hub_subscribe pid now now' res i k sink a h)"
proof -
  have eq: "(inst sy, k') = (i, k) \<longleftrightarrow> sy = i_symbol i \<and> k' = k" for sy k' using canonical_eq [OF assms(6,3)] by simp
  have no: "\<not> subscribed (hb_subs h) (i_symbol i) k" using assms(1,3,5) by (simp add: routes_match_def)
  show ?thesis
  proof (cases res)
    case None
    then show ?thesis
      using assms(1-4) eq
      by (auto simp: routes_match_def hub_subscribe_def routed_def routed_update synced_def Let_def split: if_splits)
  next
    case (Some e)
    moreover have "\<not> served (hb_calls h) (i_symbol i) k" using no assms(1,2) by (auto simp: routes_match_def)
    ultimately show ?thesis
      using assms(1-4) eq no
      by (auto simp: routes_match_def hub_subscribe_def routed_def routed_delete AList.delete_update_same synced_def Let_def
          split: if_splits)
  qed
qed

lemma match_unsubscribe:
  assumes "routes_match inst h" "is_connected (hb_phase h)" "(i, k) \<in> routed h" "\<And>s. i_symbol (inst s) = s"
  shows "routes_match inst (hub_unsubscribe pid now res i k a h)"
proof -
  have i: "i = inst (i_symbol i)" "live_kind k" using assms(1,3) by (auto simp: routes_match_def)
  then have eq: "(inst sy, k') = (i, k) \<longleftrightarrow> sy = i_symbol i \<and> k' = k" for sy k' using canonical_eq [OF assms(4) i(1)] by simp
  have yes: "subscribed (hb_subs h) (i_symbol i) k" using assms(1,3) i(1) by (simp add: routes_match_def)
  show ?thesis
  proof (cases res)
    case None
    then show ?thesis
      using assms(1,2) eq i
      by (auto simp: routes_match_def hub_unsubscribe_def routed_def routed_delete synced_def Let_def split: if_splits)
  next
    case (Some e)
    then show ?thesis
      using assms(1-3) eq i yes
      by (auto simp: routes_match_def hub_unsubscribe_def routed_def synced_def Let_def split: if_splits)
  qed
qed

lemma match_same:
  assumes "routes_match inst h" "hb_routes h' = hb_routes h" "hb_subs h' = hb_subs h" "hb_calls h' = hb_calls h"
    "is_connected (hb_phase h') \<longrightarrow> is_connected (hb_phase h)"
  shows "routes_match inst h'"
  using assms by (auto simp: routes_match_def routed_def)

lemma match_step:
  assumes "routes_match inst h" "polite inst inp h" "hub_step code cfg inp (env, h) = (env', h')" "\<And>s. i_symbol (inst s) = s"
  shows "routes_match inst h'"
proof (cases inp)
  case Advance
  then show ?thesis
    using assms(1,3) by (auto simp: hub_step_def hub_advance_def split: hub_phase.splits option.splits resolved.splits intro: match_same)
next
  case (ConnectDone now now' drawn net resub)
  have empty: "subscriptions_empty (hb_subs h) \<Longrightarrow> \<not> subscribed (hb_subs h) sy k" for sy k by (rule subscribed_empty)
  show ?thesis
    using assms(1,3) ConnectDone empty
    by (auto simp: hub_step_def hub_connected_def Let_def split: hub_phase.splits option.splits intro: match_same)
      (auto simp: routes_match_def routed_def synced_def)
next
  case (Receive now now' res cmd)
  show ?thesis
  proof (cases "is_connected (hb_phase h)")
    case True
    then obtain a b c d where ph: "hb_phase h = Connected a b c d" by (cases "hb_phase h") auto
    show ?thesis
    proof (cases cmd)
      case (HubSubscribe i k sink ack)
      then show ?thesis
        using assms Receive ph True match_subscribe [OF assms(1) True, of i k] by (auto simp: hub_step_def hub_receive_def polite_def)
    next
      case (HubUnsubscribe i k ack)
      then show ?thesis
        using assms Receive ph True match_unsubscribe [OF assms(1) True, of i k] by (auto simp: hub_step_def hub_receive_def polite_def)
    qed
  next
    case False
    then show ?thesis
      using assms(1,3) Receive by (auto simp: hub_step_def hub_receive_def split: hub_phase.splits intro: match_same)
  qed
next
  case (Message now msg)
  then show ?thesis
    using assms(1,3) by (auto simp: hub_step_def hub_message_def split: hub_phase.splits intro: match_same)
next
  case (StreamFails now d e)
  then show ?thesis
    using assms(1,3) by (auto simp: hub_step_def hub_stream_fails_def split: hub_phase.splits intro: match_same)
next
  case (CredsChanged now)
  then show ?thesis
    using assms(1,3) by (auto simp: hub_step_def hub_creds_changed_def split: hub_phase.splits option.splits bool.splits intro: match_same)
next
  case (SettingsChanged now)
  then show ?thesis
    using assms(1,3) by (auto simp: hub_step_def hub_settings_changed_def split: hub_phase.splits option.splits bool.splits intro: match_same)
qed (use assms(1,3) in \<open>auto simp: hub_step_def hub_abandoned_def wait_for_provisioning_def hub_timer_def
        split: hub_phase.splits option.splits bool.splits if_splits intro: match_same\<close>)

lemma match_new: "routes_match inst (hub_new cfg)"
  by (simp add: routes_match_def hub_new_def routed_def)

lemma match_run:
  assumes "\<And>s. i_symbol (inst s) = s"
  shows "routes_match inst (snd st) \<Longrightarrow> polite_run code cfg inst ins st \<Longrightarrow> routes_match inst (snd (hub_run code cfg ins st))"
proof (induction ins arbitrary: st)
  case (Cons inp ins)
  obtain env h where "st = (env, h)" by (cases st)
  moreover obtain env' h' where step: "hub_step code cfg inp st = (env', h')" by fastforce
  ultimately have "routes_match inst h'" using Cons.prems match_step [of inst h inp code cfg env env' h'] assms by simp
  then show ?case using Cons step by (simp add: hub_run_def)
qed (simp add: hub_run_def)

end
