(* ===== verification/Provider_Hub_Runs.thy ===== *)
theory Provider_Hub_Runs
  imports Provider_Hub_Inv
begin

text \<open>
  The hub in every run from its spawn: its settings and credentials are current or a change is
  waiting to be taken, its backoff is bounded and doubles per failure, and a stream's messages
  reach exactly the sessions they are for.
\<close>

section \<open>Runs\<close>

lemma hub_run_simps [simp]:
  "hub_run code cfg [] st = st"
  "hub_run code cfg (inp # ins) st = hub_run code cfg ins (hub_step code cfg inp st)"
  by (simp_all add: hub_run_def)

text \<open>What every step keeps holds after every run.\<close>

lemma hub_run_keeps:
  assumes "\<And>inp st. P st \<Longrightarrow> P (hub_step code cfg inp st)"
  shows "P st \<Longrightarrow> P (hub_run code cfg ins st)"
  by (induction ins arbitrary: st) (simp_all only: hub_run_simps assms)

context stream_hub
begin

lemma told_run: "told_state (snd (hub_run code cfg ins (env, hub_new cfg)))"
proof (rule hub_run_keeps [where P = "\<lambda>st. told_state (snd st)"])
  show "told_state (snd (hub_step code cfg inp st))" if "told_state (snd st)" for inp st
    using that told_step [of "snd st" cfg inp "fst st"] by (metis prod.collapse)
qed (simp add: told_state_def hub_new_def)

lemma told_connection:
  assumes "hub_run code cfg ins (env, hub_new cfg) = (env', h)" "hb_phase h \<noteq> Exited" "(pair, sink) \<in> set (hb_routes h)"
  shows "told sink (hb_sent h) = Some (is_connected (hb_phase h))"
  using told_run [of cfg ins env] assms by (force simp: told_state_def)

end

section \<open>Settings and credentials\<close>

text \<open>What the hub read from a source: still its value, or its receiver has an unseen change.\<close>

definition settings_seen :: "'s settings_source \<Rightarrow> 's option channel \<Rightarrow> nat option \<Rightarrow> 's option \<Rightarrow> bool" where
  "settings_seen src w rx v \<longleftrightarrow> slot_ok (is_watched src) w rx \<and> (up_to_date w rx \<longrightarrow> settings_current src w = v)"

definition creds_seen :: "credentials_source \<Rightarrow> api_key option channel \<Rightarrow> nat option \<Rightarrow> resolved \<Rightarrow> bool" where
  "creds_seen src w rx v \<longleftrightarrow> slot_ok (src = WatchCreds) w rx \<and> (up_to_date w rx \<longrightarrow> credentials_current src w = v)"

definition provisioned :: "'s hub_config \<Rightarrow> 's sources \<Rightarrow> 's hub_phase \<Rightarrow> bool" where
  "provisioned cfg = (\<lambda>(sw, cw) ph.
     (case ph of
        TookSettingsRx srx \<Rightarrow> slot_ok (is_watched (hg_settings cfg)) sw srx
      | Enabled srx s \<Rightarrow> settings_seen (hg_settings cfg) sw srx (Some s)
      | TookCredRx srx s crx \<Rightarrow>
          settings_seen (hg_settings cfg) sw srx (Some s) \<and> slot_ok (hg_credentials cfg = WatchCreds) cw crx
      | Connecting srx s crx r \<Rightarrow>
          settings_seen (hg_settings cfg) sw srx (Some s) \<and> creds_seen (hg_credentials cfg) cw crx r
      | Connected srx s crx r \<Rightarrow>
          settings_seen (hg_settings cfg) sw srx (Some s) \<and> creds_seen (hg_credentials cfg) cw crx r
      | Waiting ParkDisabled seen ended \<Rightarrow>
          settings_seen (hg_settings cfg) sw (Some seen) None \<and> (ended \<longrightarrow> seen = wt_version sw \<and> wt_closed sw)
      | Waiting ParkMissingCredentials seen ended \<Rightarrow>
          creds_seen (hg_credentials cfg) cw (Some seen) RMissing \<and> (ended \<longrightarrow> seen = wt_version cw \<and> wt_closed cw)
      | _ \<Rightarrow> True))"

lemma settings_seen_world [simp]:
  "settings_seen src w rx v \<Longrightarrow> settings_seen src (channel_send x w) rx v"
  "settings_seen src w rx v \<Longrightarrow> settings_seen src (channel_close w) rx v"
  by (auto simp: settings_seen_def close_unseen slot_send slot_close dest: send_unseen)
    (metis current_unwatched(1) send_unseen)

lemma creds_seen_world [simp]:
  "creds_seen src w rx v \<Longrightarrow> creds_seen src (channel_send x w) rx v"
  "creds_seen src w rx v \<Longrightarrow> creds_seen src (channel_close w) rx v"
  by (auto simp: creds_seen_def close_unseen slot_send slot_close dest: send_unseen)
    (metis current_unwatched(2) send_unseen)

lemma closed_send [simp]: "wt_closed w \<Longrightarrow> channel_send v w = w"
  by (simp add: channel_send_def)

text \<open>A source read now, with a receiver not ahead of it.\<close>

lemma seen_now:
  "slot_ok (is_watched src) w rx \<Longrightarrow> settings_current src w = v \<Longrightarrow> settings_seen src w rx v"
  "slot_ok (csrc = WatchCreds) cw crx \<Longrightarrow> credentials_current csrc cw = r \<Longrightarrow> creds_seen csrc cw crx r"
  by (simp_all add: settings_seen_def creds_seen_def)

lemma slot_fresh:
  "slot_ok (is_watched src) w (settings_watch src w)" "slot_ok (csrc = WatchCreds) cw (credentials_watch csrc cw)"
  by (simp_all add: slot_ok_def is_watched_def settings_watch_def credentials_watch_def
      split: settings_source.split credentials_source.split)

text \<open>A receiver dropped because its sender went away, with nothing unseen.\<close>

lemma seen_dropped:
  "settings_seen src w (Some seen) v \<Longrightarrow> seen = wt_version w \<Longrightarrow> wt_closed w \<Longrightarrow> settings_seen src w None v"
  "creds_seen csrc cw (Some cseen) r \<Longrightarrow> cseen = wt_version cw \<Longrightarrow> wt_closed cw \<Longrightarrow> creds_seen csrc cw None r"
  by (auto simp: settings_seen_def creds_seen_def slot_ok_def up_to_date_def)

lemma provisioned_world: "provisioned cfg env ph \<Longrightarrow> provisioned cfg (source_step ev env) ph"
  by (cases env; cases ev)
    (auto simp: provisioned_def source_step_def slot_send slot_close split: hub_phase.splits park.splits)

lemma provisioned_lose:
  "provisioned cfg env (hb_phase (lose_connection code p what now d crx e h))"
  by (cases env) (auto simp: provisioned_def lose_connection_def Let_def split: bool.splits option.splits)

lemma provisioned_top [simp]: "provisioned cfg env Top" "provisioned cfg env Exited" "provisioned cfg env (Sleeping d)"
  by (cases env, simp add: provisioned_def)+

lemma provisioned_advance:
  assumes "provisioned cfg env (hb_phase h)"
  shows "provisioned cfg env (hb_phase (hub_advance cfg env h))"
  using assms
  by (cases env) (auto simp: provisioned_def hub_advance_def slot_fresh seen_now split: hub_phase.splits option.splits resolved.splits)

lemma provisioned_step: "provisioned cfg (fst st) (hb_phase (snd st)) \<Longrightarrow>
  provisioned cfg (fst (hub_step code cfg inp st)) (hb_phase (snd (hub_step code cfg inp st)))"
proof (cases st)
  case (Pair env h)
  assume "provisioned cfg (fst st) (hb_phase (snd st))"
  then have ok: "provisioned cfg env (hb_phase h)" using Pair by simp
  show ?thesis
  proof (cases inp)
    case Advance
    then show ?thesis using Pair provisioned_advance [OF ok] by (simp add: hub_step_def)
  next
    case (ConnectDone now now' drawn net resub)
    then show ?thesis using Pair ok
      by (cases env) (auto simp: hub_step_def hub_connected_def provisioned_lose Let_def split: hub_phase.splits option.splits;
          simp add: provisioned_def)
  next
    case (Receive now now' res cmd)
    then show ?thesis using Pair ok
      by (auto simp: hub_step_def hub_receive_def hub_subscribe_def hub_unsubscribe_def Let_def
          split: hub_phase.splits hub_command.splits option.splits)
  next
    case (CredsChanged now)
    then show ?thesis using Pair ok
      by (cases env) (auto simp: hub_step_def hub_creds_changed_def split: hub_phase.splits option.splits bool.splits;
          auto simp: provisioned_def seen_dropped)
  next
    case (SettingsChanged now)
    then show ?thesis using Pair ok
      by (cases env) (auto simp: hub_step_def hub_settings_changed_def split: hub_phase.splits option.splits bool.splits;
          auto simp: provisioned_def seen_dropped)
  next
    case WatchReady
    then show ?thesis using Pair ok
      by (cases env) (auto simp: hub_step_def wait_for_provisioning_def provisioned_def
          split: hub_phase.splits option.splits bool.splits if_splits park.splits)
  qed (use Pair ok in \<open>auto simp: hub_step_def hub_abandoned_def hub_message_def hub_stream_fails_def hub_timer_def
      provisioned_lose provisioned_world split: hub_phase.splits\<close>)
qed

lemma provisioned_run:
  "provisioned cfg (fst (hub_run code cfg ins (env, hub_new cfg))) (hb_phase (snd (hub_run code cfg ins (env, hub_new cfg))))"
  by (rule hub_run_keeps [where P = "\<lambda>st. provisioned cfg (fst st) (hb_phase (snd st))"]) (simp_all add: provisioned_step hub_new_def)

text \<open>A pending change of a source takes a connected or parked hub back to the top of its loop.\<close>

lemma settings_arm:
  assumes "settings_seen src w rx v" "settings_current src w \<noteq> v"
  shows "\<exists>seen. rx = Some seen \<and> changed seen w = Some True"
  using assms by (cases rx) (auto simp: settings_seen_def up_to_date_def)

lemma creds_arm:
  assumes "creds_seen src w rx v" "credentials_current src w \<noteq> v"
  shows "\<exists>seen. rx = Some seen \<and> changed seen w = Some True"
  using assms by (cases rx) (auto simp: creds_seen_def up_to_date_def)

text \<open>C24: However a hub has run, the socket it has open was opened with the settings and the credentials
  its sources hold now, or the arm that takes the change is ready and reopens the connection.\<close>

theorem connection_current:
  assumes "hub_run code cfg ins (env0, hub_new cfg) = (env, h)" "hb_phase h = Connected srx s crx r"
  shows "settings_current (hg_settings cfg) (fst env) = Some s \<and> credentials_current (hg_credentials cfg) (snd env) = r \<or>
    hb_phase (hub_settings_changed code cfg env now h) = Top \<or> hb_phase (hub_creds_changed code cfg env now h) = Top"
proof -
  have "provisioned cfg env (hb_phase h)" using provisioned_run [of cfg code ins env0] assms(1) by simp
  then have "settings_seen (hg_settings cfg) (fst env) srx (Some s)" "creds_seen (hg_credentials cfg) (snd env) crx r"
    using assms(2) by (auto simp: provisioned_def split: prod.splits)
  then consider "settings_current (hg_settings cfg) (fst env) = Some s \<and> credentials_current (hg_credentials cfg) (snd env) = r"
    | seen where "srx = Some seen" "changed seen (fst env) = Some True"
    | seen where "crx = Some seen" "changed seen (snd env) = Some True"
    using settings_arm creds_arm by metis
  then show ?thesis
  proof cases
    case 2
    then have "hb_phase (hub_settings_changed code cfg env now h) = Top"
      using assms(2) by (simp add: hub_settings_changed_def changed_def split: option.split)
    then show ?thesis by simp
  next
    case 3
    then have "hb_phase (hub_creds_changed code cfg env now h) = Top"
      using assms(2) by (simp add: hub_creds_changed_def changed_def)
    then show ?thesis by simp
  qed simp
qed

text \<open>A hub parked because its provider is disabled, or for want of credentials, is parked for
  good reason: what it waits for is still missing, or its wait ends.\<close>

lemma parked_hub_wakes:
  assumes "hub_run code cfg ins (env0, hub_new cfg) = (env, h)" "hb_phase h = Waiting why seen ended" "why \<noteq> ParkRejectedCredentials"
  shows "(if why = ParkDisabled then settings_current (hg_settings cfg) (fst env) = None
          else credentials_current (hg_credentials cfg) (snd env) = RMissing) \<or>
    hb_phase (wait_for_provisioning env h) = Top"
proof -
  have "provisioned cfg env (hb_phase h)" using provisioned_run [of cfg code ins env0] assms(1) by simp
  then show ?thesis
    using assms(2,3)
    by (cases why; cases ended) (auto simp: provisioned_def wait_for_provisioning_def settings_seen_def creds_seen_def
        up_to_date_def changed_def split: prod.splits)
qed

section \<open>Backoff\<close>

text \<open>No delay exceeds the larger of the policy's two bounds.\<close>

definition backoff_ok :: "reconnect_policy \<Rightarrow> 's hub \<Rightarrow> bool" where
  "backoff_ok p h \<longleftrightarrow>
     hb_backoff h \<le> max (rp_initial_backoff_ms p) (rp_max_backoff_ms p) \<and>
     (case hb_phase h of Sleeping d \<Rightarrow> d \<le> max (rp_initial_backoff_ms p) (rp_max_backoff_ms p) | _ \<Rightarrow> True)"

lemma backoff_sleep: "backoff_ok p h \<Longrightarrow> backoff_ok p (sleep_with_jitter d p h)"
  by (auto simp: backoff_ok_def min_def max_def split: if_splits)

lemma backoff_lose:
  assumes "backoff_ok p h" shows "backoff_ok p (lose_connection code p what now d crx e h)"
proof -
  let ?h = "broadcast_control now (ProviderDisconnected (hc_provider code) (what @ error_chain e)
    (disconnect_cause_of (hc_unauthenticated code e))) h"
  have "backoff_ok p ?h" using assms by (simp add: backoff_ok_def)
  then have "backoff_ok p (sleep_with_jitter d p ?h)" "backoff_ok p (set_phase (Waiting a b c) ?h)" for a b c
    by (rule backoff_sleep) (simp add: backoff_ok_def assms [unfolded backoff_ok_def])
  then show ?thesis by (auto simp: lose_connection_def Let_def split: bool.split option.split)
qed

lemma backoff_phase: "backoff_ok p h \<Longrightarrow> (\<And>d. ph \<noteq> Sleeping d) \<Longrightarrow> backoff_ok p (set_phase ph h)"
  by (auto simp: backoff_ok_def split: hub_phase.split)

lemma backoff_same:
  "backoff_ok p h \<Longrightarrow> hb_backoff h' = hb_backoff h \<Longrightarrow> hb_phase h' = hb_phase h \<Longrightarrow> backoff_ok p h'"
  by (simp add: backoff_ok_def)

lemma backoff_reset:
  "hb_backoff h = rp_initial_backoff_ms p \<Longrightarrow> (\<And>d. hb_phase h \<noteq> Sleeping d) \<Longrightarrow> backoff_ok p h"
  by (auto simp: backoff_ok_def split: hub_phase.split)

lemma backoff_step:
  "backoff_ok (hg_reconnect cfg) (snd st) \<Longrightarrow> backoff_ok (hg_reconnect cfg) (snd (hub_step code cfg inp st))"
proof (cases st)
  case (Pair env h)
  assume "backoff_ok (hg_reconnect cfg) (snd st)"
  then have ok: "backoff_ok (hg_reconnect cfg) h" using Pair by simp
  show ?thesis
  proof (cases inp)
    case Advance
    then show ?thesis using Pair ok
      by (auto simp: hub_step_def hub_advance_def backoff_phase split: hub_phase.split option.split resolved.split)
  next
    case (ConnectDone now now' drawn net resub)
    then show ?thesis using Pair ok
      by (auto simp: hub_step_def hub_connected_def backoff_lose Let_def split: hub_phase.split option.split intro!: backoff_reset)
  next
    case (Receive now now' res cmd)
    have "backoff_ok (hg_reconnect cfg) (send_ack k x h)" for k x using ok by (rule backoff_same) simp_all
    then show ?thesis using Pair ok Receive
      by (auto simp: hub_step_def hub_receive_def hub_subscribe_def hub_unsubscribe_def Let_def backoff_phase
          split: hub_phase.split hub_command.split option.split intro: backoff_same)
  next
    case (Message now msg)
    then show ?thesis using Pair ok by (auto simp: hub_step_def hub_message_def split: hub_phase.split intro: backoff_same)
  qed (use Pair ok in \<open>auto simp: hub_step_def hub_creds_changed_def hub_settings_changed_def wait_for_provisioning_def
      hub_abandoned_def hub_stream_fails_def hub_timer_def backoff_lose backoff_phase
      split: hub_phase.split option.split bool.split intro: backoff_reset\<close>)
qed

text \<open>C29: In every run, with whatever jitter is drawn, a hub sleeps before a reconnect no longer than the
  larger of the policy's initial and maximal backoff.\<close>

theorem backoff_bounded:
  assumes "hub_run code cfg ins (env0, hub_new cfg) = (env, h)" "hb_phase h = Sleeping delay"
  shows "delay \<le> max (rp_initial_backoff_ms (hg_reconnect cfg)) (rp_max_backoff_ms (hg_reconnect cfg))"
proof -
  have "backoff_ok (hg_reconnect cfg) (snd (hub_run code cfg ins (env0, hub_new cfg)))"
    by (rule hub_run_keeps [where P = "\<lambda>st. backoff_ok (hg_reconnect cfg) (snd st)"])
      (simp_all add: backoff_step backoff_reset hub_new_def)
  then show ?thesis using assms by (simp add: backoff_ok_def)
qed

text \<open>Failures in a row double the backoff up to the maximum.\<close>

lemma backoff_doubles:
  assumes "unat (rp_max_backoff_ms p) < 2 ^ 63" "unat (hb_backoff h) < 2 ^ 63"
  shows "unat (hb_backoff ((sleep_with_jitter d p ^^ Suc n) h)) = min (unat (hb_backoff h) * 2 ^ Suc n) (unat (rp_max_backoff_ms p))"
proof (induction n)
  case 0
  have "unat (hb_backoff h * 2) = unat (hb_backoff h) * 2" using assms(2) by (simp add: unat_word_ariths)
  then show ?case by (simp add: min_def word_le_nat_alt)
next
  case (Suc n)
  let ?h = "(sleep_with_jitter d p ^^ Suc n) h"
  have "unat (hb_backoff ?h) < 2 ^ 63" using Suc assms(1) by linarith
  then have "unat (hb_backoff ?h * 2) = unat (hb_backoff ?h) * 2" by (simp add: unat_word_ariths)
  then have "unat (hb_backoff (sleep_with_jitter d p ?h)) = min (unat (hb_backoff ?h) * 2) (unat (rp_max_backoff_ms p))"
    by (simp add: min_def word_le_nat_alt del: funpow.simps)
  then show ?case using Suc by (simp add: min_def)
qed

section \<open>Routing\<close>

lemma sent_dispatch:
  "hb_sent (dispatch_event ev h) = hb_sent h @
     (case event_route_key ev of
        Some key \<Rightarrow> (case map_of (hb_routes h) key of Some sink \<Rightarrow> [(sink, ev)] | None \<Rightarrow> [])
      | None \<Rightarrow> map (\<lambda>(_, sink). (sink, ev)) (hb_routes h))"
  by (simp add: dispatch_event_def split: option.split)

definition delivered_to :: "sink_id \<Rightarrow> (sink_id \<times> market_event) list \<Rightarrow> market_event list" where
  "delivered_to sink sent = map snd (filter (\<lambda>x. fst x = sink) sent)"

lemma delivered_append [simp]: "delivered_to sink (a @ b) = delivered_to sink a @ delivered_to sink b"
  by (simp add: delivered_to_def)

lemma delivered_broadcast:
  "distinct (map snd routes) \<Longrightarrow> (key, sink) \<in> set routes \<Longrightarrow> delivered_to sink (map (\<lambda>(_, s). (s, ev)) routes) = [ev]"
proof (induction routes)
  case (Cons r routes)
  have "delivered_to sink (map (\<lambda>(_, s). (s, ev)) routes) = []" if "sink \<notin> snd ` set routes"
    using that by (force simp: delivered_to_def filter_empty_conv)
  then show ?case using Cons by (cases r) (force simp: delivered_to_def)
qed simp

lemma delivered_dispatch:
  assumes "distinct (map fst (hb_routes h))" "distinct (map snd (hb_routes h))" "(key, sink) \<in> set (hb_routes h)"
  shows "delivered_to sink (hb_sent (dispatch_event ev h)) = delivered_to sink (hb_sent h) @
    filter (\<lambda>ev. event_route_key ev \<in> {None, Some key}) [ev]"
proof (cases "event_route_key ev")
  case None
  then show ?thesis using assms delivered_broadcast [of "hb_routes h" key sink ev] by (simp add: sent_dispatch)
next
  case (Some key')
  show ?thesis
  proof (cases "key' = key")
    case True
    then show ?thesis using Some assms by (simp add: sent_dispatch delivered_to_def)
  next
    case False
    then have "map_of (hb_routes h) key' \<noteq> Some sink"
      using assms by (metis eq_key_imp_eq_value inj_on_contraD distinct_map map_of_SomeD prod.sel snd_conv prod.inject)
    then show ?thesis using Some False by (auto simp: sent_dispatch delivered_to_def split: option.split)
  qed
qed

lemma delivered_dispatches:
  assumes "distinct (map fst (hb_routes h))" "distinct (map snd (hb_routes h))" "(key, sink) \<in> set (hb_routes h)"
  shows "delivered_to sink (hb_sent (foldl (\<lambda>h ev. dispatch_event ev h) h evs)) = delivered_to sink (hb_sent h) @
    filter (\<lambda>ev. event_route_key ev \<in> {None, Some key}) evs"
  using assms
proof (induction evs arbitrary: h)
  case (Cons ev evs)
  then show ?case using delivered_dispatch [of h key sink ev] by simp
qed simp

text \<open>C25: While a socket streams, the session at a route receives exactly the events of its own instrument
  and kind and the provider's controls, in the order the socket sent them.\<close>

theorem messages_reach_their_session:
  assumes "hb_phase h = Connected srx s crx r" "distinct (map fst (hb_routes h))" "distinct (map snd (hb_routes h))"
    "(key, sink) \<in> set (hb_routes h)"
  shows "delivered_to sink (hb_sent (snd (hub_run code cfg (map (\<lambda>(now, msg). Message now msg) ms) (env, h)))) =
    delivered_to sink (hb_sent h) @
    filter (\<lambda>ev. event_route_key ev \<in> {None, Some key}) (concat (map (\<lambda>(now, msg). hc_translate code now msg) ms))"
  using assms
proof (induction ms arbitrary: h)
  case (Cons m ms)
  obtain now msg where m: "m = (now, msg)" by (cases m)
  let ?h = "foldl (\<lambda>h ev. dispatch_event ev h) h (hc_translate code now msg)"
  have "hub_step code cfg (Message now msg) (env, h) = (env, ?h)" using Cons.prems(1) by (simp add: hub_step_def hub_message_def)
  then show ?case using Cons.IH [of ?h] Cons.prems delivered_dispatches [of h key sink "hc_translate code now msg"] m by simp
qed simp

end
