(* ===== verification/Provider_Numbers.thy ===== *)
theory Provider_Numbers
  imports Complex_Main Provider_Hub_Runs
begin

text \<open>
  How the providers turn a venue's floating point numbers and dates into the event model's fixed
  point and nanoseconds (\<^verbatim>\<open>price.rs\<close>, \<^verbatim>\<open>quantity.rs\<close>, \<^verbatim>\<open>chrono_to_ts\<close>). The rounding of a binary64
  product is an argument; the casts, which saturate, are written out.
\<close>

section \<open>Floating point\<close>

datatype f64 = NaN | Infinity bool | F64 rat

definition is_finite :: "f64 \<Rightarrow> bool" where
  "is_finite v = (case v of F64 _ \<Rightarrow> True | _ \<Rightarrow> False)"

text \<open>\<^verbatim>\<open>f64::round\<close>: halves away from zero.\<close>

definition round_half_away :: "rat \<Rightarrow> int" where
  "round_half_away q = (if 0 \<le> q then \<lfloor>q + 1 / 2\<rfloor> else \<lceil>q - 1 / 2\<rceil>)"

text \<open>\<^verbatim>\<open>round() as i64\<close> and \<^verbatim>\<open>round() as u64\<close>: saturating, with NaN as zero; \<open>Infinity True\<close> is the positive one.\<close>

definition round_as_i64 :: "f64 \<Rightarrow> i64" where
  "round_as_i64 v =
     (case v of
        NaN \<Rightarrow> 0
      | Infinity pos \<Rightarrow> if pos then i64_max else i64_min
      | F64 q \<Rightarrow> clamp (round_half_away q) i64_min i64_max)"

definition round_as_u64 :: "f64 \<Rightarrow> u64" where
  "round_as_u64 v =
     (case v of
        NaN \<Rightarrow> 0
      | Infinity pos \<Rightarrow> if pos then u64_max else 0
      | F64 q \<Rightarrow> word_of_int (clamp (round_half_away q) 0 (2 ^ 64 - 1)))"

text \<open>The argument \<open>scaled\<close> is the binary64 product with the scale, \<open>10 ^ 9\<close> for both types.\<close>

definition price_from_f64_round :: "(f64 \<Rightarrow> f64) \<Rightarrow> f64 \<Rightarrow> price" where
  "price_from_f64_round scaled v = round_as_i64 (scaled v)"

definition quantity_from_f64_round :: "(f64 \<Rightarrow> f64) \<Rightarrow> f64 \<Rightarrow> quantity" where
  "quantity_from_f64_round scaled v = (if \<not> is_finite v then 0 else round_as_u64 (scaled v))"

section \<open>Dates\<close>

text \<open>A date is its nanoseconds since the epoch; one that has no \<^verbatim>\<open>i64\<close> for them counts as the epoch.\<close>

type_synonym datetime = int

definition chrono_to_ts :: "datetime \<Rightarrow> timestamp" where
  "chrono_to_ts dt = (case checked_i64 dt of Some n \<Rightarrow> n | None \<Rightarrow> 0)"

definition ts_to_chrono :: "timestamp \<Rightarrow> datetime" where
  "ts_to_chrono ts = ts"

section \<open>Bounds\<close>

lemma round_half_away_of_int [simp]: "round_half_away (of_int n) = n"
proof -
  have "\<lfloor>(of_int n :: rat) + 1 / 2\<rfloor> = n" "\<lceil>(of_int n :: rat) - 1 / 2\<rceil> = n" by linarith+
  then show ?thesis by (simp add: round_half_away_def)
qed

lemma price_in_range: "in_i64 (price_from_f64_round scaled v)"
  by (auto simp: price_from_f64_round_def round_as_i64_def clamp_def rust_int split: f64.split)

lemma chrono_in_range: "in_i64 (chrono_to_ts dt)"
  by (simp add: chrono_to_ts_def checked_i64_def) (simp add: rust_int)

lemma ts_chrono_roundtrip [simp]: "in_i64 ts \<Longrightarrow> chrono_to_ts (ts_to_chrono ts) = ts"
  by (simp add: chrono_to_ts_def ts_to_chrono_def checked_i64_def)

text \<open>What the constructor documents: exact where the product is exact, zero for negative and
  non-finite sizes, and the maximum beyond the range.\<close>

lemma quantity_exact:
  assumes "scaled (F64 q) = F64 (of_int n)" "0 \<le> n" "n < 2 ^ 64"
  shows "uint (quantity_from_f64_round scaled (F64 q)) = n"
  using assms by (simp add: quantity_from_f64_round_def is_finite_def round_as_u64_def clamp_def uint_word_of_int)

lemma quantity_saturates:
  assumes "scaled (F64 q) = Infinity True \<or> (\<exists>x. scaled (F64 q) = F64 x \<and> 2 ^ 64 \<le> x)"
  shows "quantity_from_f64_round scaled (F64 q) = u64_max"
proof -
  have "2 ^ 64 - 1 < round_half_away x" if "2 ^ 64 \<le> x" for x :: rat
  proof -
    have "(2 :: int) ^ 64 \<le> \<lfloor>x + 1 / 2\<rfloor>" using that by (simp add: le_floor_iff)
    then show ?thesis using that by (simp add: round_half_away_def)
  qed
  then have "clamp (round_half_away x) 0 (2 ^ 64 - 1) = 2 ^ 64 - 1" if "2 ^ 64 \<le> x" for x :: rat
    using that by (fastforce simp: clamp_def)
  moreover have "(word_of_int (2 ^ 64 - 1) :: u64) = u64_max" by (simp add: u64_max_def)
  ultimately show ?thesis
    using assms by (auto simp: quantity_from_f64_round_def is_finite_def round_as_u64_def simp del: power_numeral)
qed

lemma quantity_negative:
  assumes "scaled (F64 q) = F64 x" "x \<le> 0"
  shows "quantity_from_f64_round scaled (F64 q) = 0"
proof -
  have "round_half_away x \<le> 0" using assms(2) by (simp add: round_half_away_def floor_le_iff ceiling_le_iff)
  then show ?thesis
    using assms by (auto simp: quantity_from_f64_round_def is_finite_def round_as_u64_def clamp_def)
qed

lemma quantity_non_finite: "\<not> is_finite v \<Longrightarrow> quantity_from_f64_round scaled v = 0"
  by (simp add: quantity_from_f64_round_def)

end
