(* ===== verification/Alpaca_Provider.thy ===== *)
theory Alpaca_Provider
  imports Provider_Numbers Read_Through
begin

text \<open>
  The equity provider (\<^verbatim>\<open>providers/alpaca.rs\<close>): its instruments and their catalog, what it serves, the
  translation of streamed and fetched data into events, and its hub. The REST and streaming clients
  are third party: a client is the record of its calls' answers.
\<close>

section \<open>Instruments and catalog\<close>

definition ALPACA :: provider_id where "ALPACA = ''alpaca''"

definition alpaca_instrument :: "string \<Rightarrow> instrument" where
  "alpaca_instrument symbol = instrument_new ALPACA Equity symbol"

definition FRACTIONAL_ORDER_TYPES :: "order_type list" where
  "FRACTIONAL_ORDER_TYPES = [Market, Limit, Stop, StopLimit]"

definition FRACTIONAL_TIF :: "time_in_force list" where "FRACTIONAL_TIF = [Day]"

text \<open>The vendor's asset row: the fields read here.\<close>

datatype asset_row_class = UsEquityRow | CryptoRow | OtherRow string

record asset_row =
  as_symbol :: string
  as_class :: asset_row_class
  as_tradable :: bool
  as_fractionable :: bool

definition capabilities_default :: capabilities where
  "capabilities_default =
     \<lparr> cap_fractionable = None, cap_min_qty = None, cap_qty_increment = None, cap_price_increment = None,
       cap_min_notional = None, cap_supports_notional_orders = None, cap_allowed_order_types = None, cap_allowed_tif = None \<rparr>"

definition equity_capabilities :: "asset_row \<Rightarrow> capabilities" where
  "equity_capabilities asset =
     (let caps = capabilities_default\<lparr> cap_fractionable := Some (as_fractionable asset),
                                       cap_supports_notional_orders := Some (as_fractionable asset) \<rparr>
      in if as_fractionable asset
         then caps\<lparr> cap_allowed_order_types := Some FRACTIONAL_ORDER_TYPES, cap_allowed_tif := Some FRACTIONAL_TIF \<rparr>
         else caps)"

definition equity_entry :: "asset_row \<Rightarrow> instrument_entry" where
  "equity_entry asset =
     (entry_bare (instrument_new ALPACA Equity (as_symbol asset)))\<lparr> ie_capabilities := Some (equity_capabilities asset) \<rparr>"

definition asset_to_entry :: "asset_row \<Rightarrow> instrument_entry option" where
  "asset_to_entry asset = (if as_tradable asset \<and> as_class asset = UsEquityRow then Some (equity_entry asset) else None)"

definition assets_to_entries :: "asset_row list \<Rightarrow> instrument_entry list" where
  "assets_to_entries assets = List.map_filter asset_to_entry assets"

section \<open>Feeds and settings\<close>

datatype stream_feed = FeedIex | FeedSip | FeedDelayedSip | FeedTest

datatype rest_feed = RestIex | RestSip | RestDelayedSip

datatype history_feed_choice = HistoryIex | HistorySip

record alpaca_settings =
  al_account_type :: account_type
  al_history_feed :: "history_feed_choice option"

definition alpaca_settings_default :: alpaca_settings where
  "alpaca_settings_default = \<lparr> al_account_type = PaperAccount, al_history_feed = None \<rparr>"

record alpaca_config =
  ac_settings :: "alpaca_settings settings_source"
  ac_stream_feed :: stream_feed
  ac_reconnect :: reconnect_policy
  ac_credentials :: credentials_source

definition alpaca_config_default :: alpaca_config where
  "alpaca_config_default =
     \<lparr> ac_settings = StaticSettings alpaca_settings_default, ac_stream_feed = FeedIex,
       ac_reconnect = reconnect_policy_default, ac_credentials = EnvCreds \<rparr>"

text \<open>The stream's host is chosen as for a live account, whatever the settings; the vendor's URL table
  is the argument.\<close>

definition STREAM_ACCOUNT_TYPE :: account_type where "STREAM_ACCOUNT_TYPE = LiveAccount"

definition stream_url :: "(stream_feed \<Rightarrow> account_type \<Rightarrow> string) \<Rightarrow> stream_feed \<Rightarrow> string" where
  "stream_url url feed = url feed STREAM_ACCOUNT_TYPE"

definition snapshot_feed :: "stream_feed \<Rightarrow> rest_feed option" where
  "snapshot_feed feed =
     (case feed of FeedIex \<Rightarrow> Some RestIex | FeedSip \<Rightarrow> Some RestSip | FeedDelayedSip \<Rightarrow> Some RestDelayedSip | FeedTest \<Rightarrow> None)"

definition history_feed :: "history_feed_choice option \<Rightarrow> stream_feed \<Rightarrow> rest_feed" where
  "history_feed explicit feed =
     (case explicit of
        Some HistoryIex \<Rightarrow> RestIex
      | Some HistorySip \<Rightarrow> RestSip
      | None \<Rightarrow> (case feed of FeedSip \<Rightarrow> RestSip | _ \<Rightarrow> RestIex))"

section \<open>What is served\<close>

definition alpaca_supports :: "instrument \<Rightarrow> event_kind \<Rightarrow> surface \<Rightarrow> bool" where
  "alpaca_supports i kind surf =
     (if i_asset_class i \<noteq> Equity \<and> i_asset_class i \<noteq> Etf then False
      else case surf of
             Live \<Rightarrow> (case kind of KTrade \<Rightarrow> True | KQuote \<Rightarrow> True | KBar OneMinute \<Rightarrow> True | KBar OneDay \<Rightarrow> True | KBar _ \<Rightarrow> False)
           | History \<Rightarrow> (case kind of KBar OneSecond \<Rightarrow> False | _ \<Rightarrow> True))"

section \<open>Streamed messages\<close>

record tick_message =
  tm_symbol :: string
  tm_timestamp :: datetime
  tm_price :: f64
  tm_size :: f64

record book_message =
  bm_symbol :: string
  bm_timestamp :: datetime
  bm_bid_price :: f64
  bm_bid_size :: f64
  bm_ask_price :: f64
  bm_ask_size :: f64

record 'v bar_message =
  br_symbol :: string
  br_timestamp :: datetime
  br_open :: f64
  br_high :: f64
  br_low :: f64
  br_close :: f64
  br_volume :: 'v

text \<open>A message of a stream; \<open>'v\<close> is the type of a bar's volume. The code and text of an error are as
  the vendor prints them; the rest is dropped.\<close>

datatype 'v stream_message =
    TradeMsg tick_message
  | QuoteMsg book_message
  | BarMsg "'v bar_message"
  | DailyBarMsg "'v bar_message"
  | UpdatedBarMsg "'v bar_message"
  | ErrorMsg string string
  | OtherMsg

definition translate_trade :: "(f64 \<Rightarrow> f64) \<Rightarrow> tick_message \<Rightarrow> timestamp \<Rightarrow> trade" where
  "translate_trade scaled t rx =
     \<lparr> t_instrument = alpaca_instrument (tm_symbol t), t_source_ts = chrono_to_ts (tm_timestamp t), t_rx_ts = rx, t_seq = 0,
       t_price = price_from_f64_round scaled (tm_price t), t_size = quantity_from_f64_round scaled (tm_size t) \<rparr>"

definition translate_quote :: "(f64 \<Rightarrow> f64) \<Rightarrow> book_message \<Rightarrow> timestamp \<Rightarrow> quote" where
  "translate_quote scaled q rx =
     \<lparr> q_instrument = alpaca_instrument (bm_symbol q), q_source_ts = chrono_to_ts (bm_timestamp q), q_rx_ts = rx, q_seq = 0,
       q_bid = price_from_f64_round scaled (bm_bid_price q), q_bid_size = quantity_from_f64_round scaled (bm_bid_size q),
       q_ask = price_from_f64_round scaled (bm_ask_price q), q_ask_size = quantity_from_f64_round scaled (bm_ask_size q) \<rparr>"

text \<open>A stock bar's volume is an \<^verbatim>\<open>i64\<close> of whole shares; a negative one counts as none.\<close>

definition translate_bar :: "(f64 \<Rightarrow> f64) \<Rightarrow> i64 bar_message \<Rightarrow> bar_interval \<Rightarrow> timestamp \<Rightarrow> bar" where
  "translate_bar scaled b interval rx =
     \<lparr> b_instrument = alpaca_instrument (br_symbol b), b_interval = interval, b_source_ts = chrono_to_ts (br_timestamp b),
       b_rx_ts = rx, b_seq = 0,
       b_open = price_from_f64_round scaled (br_open b), b_high = price_from_f64_round scaled (br_high b),
       b_low = price_from_f64_round scaled (br_low b), b_close = price_from_f64_round scaled (br_close b),
       b_volume = quantity_from_units (cast_unsigned (max (br_volume b) 0)) \<rparr>"

definition translate_stock_message :: "(f64 \<Rightarrow> f64) \<Rightarrow> timestamp \<Rightarrow> i64 stream_message \<Rightarrow> market_event list" where
  "translate_stock_message scaled rx msg =
     (case msg of
        TradeMsg t \<Rightarrow> [Trade (translate_trade scaled t rx)]
      | QuoteMsg q \<Rightarrow> [Quote (translate_quote scaled q rx)]
      | BarMsg b \<Rightarrow> [Bar (translate_bar scaled b OneMinute rx)]
      | DailyBarMsg b \<Rightarrow> [Bar (translate_bar scaled b OneDay rx)]
      | UpdatedBarMsg b \<Rightarrow> [Bar (translate_bar scaled b OneMinute rx)]
      | ErrorMsg code message \<Rightarrow>
          [Control \<lparr> c_source_ts = rx, c_rx_ts = rx, c_seq = 0, c_kind = ProviderError ALPACA (code @ '': '' @ message) \<rparr>]
      | OtherMsg \<Rightarrow> [])"

section \<open>Fetched data\<close>

record rest_trade =
  rt_timestamp :: datetime
  rt_price :: f64
  rt_size :: u32

record rest_quote =
  rq_timestamp :: datetime
  rq_bid_price :: f64
  rq_bid_size :: u32
  rq_ask_price :: f64
  rq_ask_size :: u32

record rest_bar =
  rb_time :: datetime
  rb_open :: f64
  rb_high :: f64
  rb_low :: f64
  rb_close :: f64
  rb_volume :: u64

definition rest_trade_to_trade :: "(f64 \<Rightarrow> f64) \<Rightarrow> rest_trade \<Rightarrow> instrument \<Rightarrow> timestamp \<Rightarrow> trade" where
  "rest_trade_to_trade scaled t i rx =
     \<lparr> t_instrument = i, t_source_ts = chrono_to_ts (rt_timestamp t), t_rx_ts = rx, t_seq = 0,
       t_price = price_from_f64_round scaled (rt_price t), t_size = quantity_from_units (ucast (rt_size t)) \<rparr>"

definition rest_quote_to_quote :: "(f64 \<Rightarrow> f64) \<Rightarrow> rest_quote \<Rightarrow> instrument \<Rightarrow> timestamp \<Rightarrow> quote" where
  "rest_quote_to_quote scaled q i rx =
     \<lparr> q_instrument = i, q_source_ts = chrono_to_ts (rq_timestamp q), q_rx_ts = rx, q_seq = 0,
       q_bid = price_from_f64_round scaled (rq_bid_price q), q_bid_size = quantity_from_units (ucast (rq_bid_size q)),
       q_ask = price_from_f64_round scaled (rq_ask_price q), q_ask_size = quantity_from_units (ucast (rq_ask_size q)) \<rparr>"

definition rest_bar_to_bar :: "(f64 \<Rightarrow> f64) \<Rightarrow> rest_bar \<Rightarrow> instrument \<Rightarrow> bar_interval \<Rightarrow> timestamp \<Rightarrow> bar" where
  "rest_bar_to_bar scaled b i interval rx =
     \<lparr> b_instrument = i, b_interval = interval, b_source_ts = chrono_to_ts (rb_time b), b_rx_ts = rx, b_seq = 0,
       b_open = price_from_f64_round scaled (rb_open b), b_high = price_from_f64_round scaled (rb_high b),
       b_low = price_from_f64_round scaled (rb_low b), b_close = price_from_f64_round scaled (rb_close b),
       b_volume = quantity_from_units (rb_volume b) \<rparr>"

datatype time_frame = TfOneMinute | TfFiveMinutes | TfFifteenMinutes | TfOneHour | TfOneDay

datatype vendor_adjustment = VRaw | VSplit | VDividend | VSpinOff | VAll

definition map_adjustment :: "adjustment \<Rightarrow> vendor_adjustment" where
  "map_adjustment a = (case a of Raw \<Rightarrow> VRaw | Split \<Rightarrow> VSplit | Dividend \<Rightarrow> VDividend | SpinOff \<Rightarrow> VSpinOff | All \<Rightarrow> VAll)"

text \<open>The answers of the market-data client, an error as it prints.\<close>

record stock_snapshot =
  sn_latest_trade :: "rest_trade option"
  sn_latest_quote :: "rest_quote option"
  sn_minute_bar :: "rest_bar option"
  sn_daily_bar :: "rest_bar option"

record rest_client =
  rc_stock_trades :: "string \<Rightarrow> datetime \<Rightarrow> datetime \<Rightarrow> rest_feed \<Rightarrow> string + rest_trade list"
  rc_stock_quotes :: "string \<Rightarrow> datetime \<Rightarrow> datetime \<Rightarrow> rest_feed \<Rightarrow> string + rest_quote list"
  rc_stock_bars :: "string \<Rightarrow> time_frame \<Rightarrow> datetime \<Rightarrow> datetime \<Rightarrow> vendor_adjustment \<Rightarrow> rest_feed \<Rightarrow> string + rest_bar list"
  rc_stock_snapshot :: "string \<Rightarrow> rest_feed \<Rightarrow> string + stock_snapshot"

text \<open>The events go to the sink one by one, until it has closed: \<open>takes\<close> is how many it still takes.\<close>

definition send_until_closed :: "nat option \<Rightarrow> market_event list \<Rightarrow> market_event list" where
  "send_until_closed takes evs = (case takes of None \<Rightarrow> evs | Some n \<Rightarrow> take n evs)"

definition history_timeframe :: "bar_interval \<Rightarrow> time_frame option" where
  "history_timeframe interval =
     (case interval of
        OneSecond \<Rightarrow> None
      | OneMinute \<Rightarrow> Some TfOneMinute
      | FiveMinute \<Rightarrow> Some TfFiveMinutes
      | FifteenMinute \<Rightarrow> Some TfFifteenMinutes
      | OneHour \<Rightarrow> Some TfOneHour
      | OneDay \<Rightarrow> Some TfOneDay)"

definition fetch_history_via ::
  "(f64 \<Rightarrow> f64) \<Rightarrow> rest_client \<Rightarrow> timestamp \<Rightarrow> nat option \<Rightarrow> rest_feed \<Rightarrow> history_request \<Rightarrow> market_event list \<times> unit res" where
  "fetch_history_via scaled rest rx takes feed rq =
     (let i = hr_instrument rq; symbol = i_symbol i; from_dt = ts_to_chrono (hr_from rq); to_dt = ts_to_chrono (hr_to rq) in
      case hr_kind rq of
        KTrade \<Rightarrow>
          (case rc_stock_trades rest symbol from_dt to_dt feed of
             Inl e \<Rightarrow> ([], Inl (Provider ALPACA (''stock_trades: '' @ e)))
           | Inr ts \<Rightarrow> (send_until_closed takes (map (\<lambda>t. Trade (rest_trade_to_trade scaled t i rx)) ts), Inr ()))
      | KQuote \<Rightarrow>
          (case rc_stock_quotes rest symbol from_dt to_dt feed of
             Inl e \<Rightarrow> ([], Inl (Provider ALPACA (''stock_quotes: '' @ e)))
           | Inr qs \<Rightarrow> (send_until_closed takes (map (\<lambda>q. Quote (rest_quote_to_quote scaled q i rx)) qs), Inr ()))
      | KBar interval \<Rightarrow>
          (case history_timeframe interval of
             None \<Rightarrow> ([], Inl (UnsupportedEventKind (KBar interval) i History))
           | Some timeframe \<Rightarrow>
               (case rc_stock_bars rest symbol timeframe from_dt to_dt (map_adjustment (hr_adjustment rq)) feed of
                  Inl e \<Rightarrow> ([], Inl (Provider ALPACA (''stock_bars: '' @ e)))
                | Inr bs \<Rightarrow> (send_until_closed takes (map (\<lambda>b. Bar (rest_bar_to_bar scaled b i interval rx)) bs), Inr ()))))"

definition rest_missing :: error where
  "rest_missing = Provider ALPACA ''REST client not initialized (Alpaca credentials missing?)''"

text \<open>\<^verbatim>\<open>fetch_history\<close>, given the client and the settings of the moment.\<close>

definition alpaca_fetch_history ::
  "(f64 \<Rightarrow> f64) \<Rightarrow> rest_client option \<Rightarrow> alpaca_settings option \<Rightarrow> stream_feed \<Rightarrow> timestamp \<Rightarrow> nat option \<Rightarrow> history_request \<Rightarrow>
   market_event list \<times> unit res" where
  "alpaca_fetch_history scaled market_data settings feed rx takes rq =
     (case market_data of
        None \<Rightarrow> ([], Inl rest_missing)
      | Some rest \<Rightarrow>
          fetch_history_via scaled rest rx takes
            (history_feed (case settings of Some s \<Rightarrow> al_history_feed s | None \<Rightarrow> None) feed) rq)"

definition snapshot_to_event :: "(f64 \<Rightarrow> f64) \<Rightarrow> stock_snapshot \<Rightarrow> instrument \<Rightarrow> event_kind \<Rightarrow> timestamp \<Rightarrow> market_event option" where
  "snapshot_to_event scaled snap i kind rx =
     (case kind of
        KTrade \<Rightarrow> map_option (\<lambda>t. Trade (rest_trade_to_trade scaled t i rx)) (sn_latest_trade snap)
      | KQuote \<Rightarrow> map_option (\<lambda>q. Quote (rest_quote_to_quote scaled q i rx)) (sn_latest_quote snap)
      | KBar interval \<Rightarrow>
          map_option (\<lambda>b. Bar (rest_bar_to_bar scaled b i interval rx))
            (case interval of OneMinute \<Rightarrow> sn_minute_bar snap | OneDay \<Rightarrow> sn_daily_bar snap | _ \<Rightarrow> None))"

definition alpaca_latest ::
  "(f64 \<Rightarrow> f64) \<Rightarrow> rest_client option \<Rightarrow> stream_feed \<Rightarrow> timestamp \<Rightarrow> instrument \<Rightarrow> event_kind \<Rightarrow> market_event option res" where
  "alpaca_latest scaled market_data stream rx i kind =
     (case snapshot_feed stream of
        None \<Rightarrow> Inr None
      | Some feed \<Rightarrow>
          (case market_data of
             None \<Rightarrow> Inl rest_missing
           | Some rest \<Rightarrow>
               (case rc_stock_snapshot rest (i_symbol i) feed of
                  Inl e \<Rightarrow> Inl (Provider ALPACA (''stock_snapshot: '' @ e))
                | Inr snap \<Rightarrow> Inr (snapshot_to_event scaled snap i kind rx))))"

section \<open>The reference data\<close>

text \<open>The trading client's answers; the listing is asked for active US equities.\<close>

record trading_client =
  tc_list_assets :: "asset_row_class \<Rightarrow> string + asset_row list"
  tc_get_asset :: "string \<Rightarrow> string + asset_row"

definition trading_missing :: "provider_id \<Rightarrow> error" where
  "trading_missing pid = Provider pid ''Trading client not initialized (Alpaca credentials missing?)''"

definition alpaca_list_instruments :: "trading_client option \<Rightarrow> instrument_entry list res" where
  "alpaca_list_instruments trading =
     (case trading of
        None \<Rightarrow> Inl (trading_missing ALPACA)
      | Some tc \<Rightarrow>
          (case tc_list_assets tc UsEquityRow of
             Inl e \<Rightarrow> Inl (Provider ALPACA (''list_assets: '' @ e))
           | Inr assets \<Rightarrow> Inr (assets_to_entries assets)))"

definition alpaca_capabilities :: "trading_client option \<Rightarrow> instrument \<Rightarrow> instrument_entry option res" where
  "alpaca_capabilities trading i =
     (case trading of
        None \<Rightarrow> Inl (trading_missing ALPACA)
      | Some tc \<Rightarrow>
          (case tc_get_asset tc (i_symbol i) of
             Inl e \<Rightarrow> Inl (Provider ALPACA (''get_asset('' @ i_symbol i @ ''): '' @ e))
           | Inr asset \<Rightarrow> Inr (asset_to_entry asset)))"

text \<open>The provider the facade sees.\<close>

definition alpaca_provider :: "bool \<Rightarrow> trading_client option \<Rightarrow> provider" where
  "alpaca_provider enabled trading =
     \<lparr> pv_id = ALPACA, pv_supports = alpaca_supports, pv_list_instruments = alpaca_list_instruments trading,
       pv_capabilities = alpaca_capabilities trading, pv_metrics = None, pv_enabled = enabled \<rparr>"

section \<open>The hub\<close>

datatype stream_failure = FailUnauthenticated | FailTransient

definition classify_stream_failure :: "upstream_error \<Rightarrow> stream_failure" where
  "classify_stream_failure err =
     (case ue_kind err of
        StreamingAuth \<Rightarrow> FailUnauthenticated
      | StreamingError code \<Rightarrow> (case code of AuthFailed \<Rightarrow> FailUnauthenticated | _ \<Rightarrow> FailTransient)
      | OtherUpstream \<Rightarrow> FailTransient)"

text \<open>With credentials from the environment the key pair is read for the account type; \<open>env_err\<close> is how
  the client reports a missing variable.\<close>

definition alpaca_hub_code ::
  "(f64 \<Rightarrow> f64) \<Rightarrow> (string \<Rightarrow> string option) \<Rightarrow> (string \<Rightarrow> upstream_error) \<Rightarrow> (i64 stream_message, alpaca_settings) hub_code" where
  "alpaca_hub_code scaled env env_err =
     \<lparr> hc_provider = ALPACA, hc_translate = translate_stock_message scaled,
       hc_unauthenticated = (\<lambda>e. classify_stream_failure e = FailUnauthenticated),
       hc_env_error = (\<lambda>s. case from_env env (al_account_type s) of Inl v \<Rightarrow> Some (env_err v) | Inr _ \<Rightarrow> None) \<rparr>"

definition alpaca_hub_config :: "alpaca_config \<Rightarrow> alpaca_settings hub_config" where
  "alpaca_hub_config cfg =
     \<lparr> hg_settings = ac_settings cfg, hg_credentials = ac_credentials cfg, hg_reconnect = ac_reconnect cfg \<rparr>"

end
