(* ===== verification/Alpaca_Hub.thy ===== *)
theory Alpaca_Hub
  imports Alpaca_Provider
begin

text \<open>
  The equity provider's hub and fetches: the general facts of \<open>Provider_Hub_Inv\<close> and \<open>Provider_Hub_Runs\<close>
  at its own translation, the read-through over its fetches, and where the code falls short.
\<close>

section \<open>Translation\<close>

lemma stock_message_events:
  assumes "ev \<in> set (translate_stock_message scaled rx msg)"
  shows "conn_edge ev = None" "event_route_key ev = Some (i, k) \<Longrightarrow> i = alpaca_instrument (i_symbol i) \<and> live_kind k"
  using assms
  by (auto simp: translate_stock_message_def conn_edge_def event_route_key_def translate_trade_def translate_quote_def
      translate_bar_def alpaca_instrument_def instrument_new_def split: stream_message.splits)

interpretation alpaca_stream: stream_hub "alpaca_hub_code scaled env env_err" for scaled env env_err
  by unfold_locales (simp add: alpaca_hub_code_def stock_message_events)

lemma alpaca_canonical [simp]:
  "i_symbol (alpaca_instrument s) = s" "i_asset_class (alpaca_instrument s) = Equity" "i_provider (alpaca_instrument s) = ALPACA"
  by (simp_all add: alpaca_instrument_def instrument_new_def)

text \<open>A demonstration run: a static provider connects and a session subscribes to one symbol's trades.\<close>

definition demo_scaled :: "f64 \<Rightarrow> f64" where
  "demo_scaled v = (case v of F64 q \<Rightarrow> F64 (q * 1000000000) | _ \<Rightarrow> v)"

definition demo_hub_code :: "(i64 stream_message, alpaca_settings) hub_code" where
  "demo_hub_code = alpaca_hub_code demo_scaled (\<lambda>_. Some ''x'') (\<lambda>v. \<lparr> ue_kind = OtherUpstream, ue_chain = [v] \<rparr>)"

definition demo_hub_config :: "alpaca_settings hub_config" where
  "demo_hub_config = alpaca_hub_config alpaca_config_default"

definition demo_sources :: "alpaca_settings sources" where
  "demo_sources = (demo_channel None, demo_channel None)"

definition demo_connect :: "(i64 stream_message, alpaca_settings) hub_in list" where
  "demo_connect = [Advance, Advance, Advance, Advance, ConnectDone 1 2 0 None None,
     Receive 3 4 None (HubSubscribe (alpaca_instrument ''AAPL'') KTrade 7 0)]"

lemma demo_connect_run:
  "\<exists>h. hub_run demo_hub_code demo_hub_config demo_connect (demo_sources, hub_new demo_hub_config) = (demo_sources, h) \<and>
     hb_phase h = Connected None alpaca_settings_default None REnv \<and> hb_routes h = [((alpaca_instrument ''AAPL'', KTrade), 7)] \<and>
     synced (hb_calls h)"
  by (simp add: demo_connect_def hub_step_def hub_advance_def hub_new_def demo_hub_config_def alpaca_hub_config_def
      alpaca_config_default_def settings_watch_def settings_current_def credentials_watch_def credentials_current_def
      hub_connected_def connect_result_def demo_hub_code_def alpaca_hub_code_def from_env_def env_var_names_def alpaca_settings_default_def
      subscriptions_empty_def none_or_empty_def subscription_list_new_def hub_receive_def hub_subscribe_def synced_def Let_def
      demo_sources_def)

section \<open>Sessions and the socket\<close>

text \<open>C23: In every run of the equity hub, as long as it has not exited, the last word every routed session
  has heard on the connection is the truth: connected exactly when the socket is open.\<close>

theorem sessions_know_the_connection:
  assumes "hub_run (alpaca_hub_code scaled penv env_err) cfg ins (env, hub_new cfg) = (env', h)"
    "hb_phase h \<noteq> Exited" "(pair, sink) \<in> set (hb_routes h)"
  shows "told sink (hb_sent h) = Some (is_connected (hb_phase h))"
  by (rule alpaca_stream.told_connection [OF assms])

theorem sessions_know_the_connection_witness:
  "\<exists>h. hub_run demo_hub_code demo_hub_config demo_connect (demo_sources, hub_new demo_hub_config) = (demo_sources, h) \<and>
     told 7 (hb_sent h) = Some True"
proof -
  obtain h where h: "hub_run demo_hub_code demo_hub_config demo_connect (demo_sources, hub_new demo_hub_config) = (demo_sources, h)"
    "hb_phase h = Connected None alpaca_settings_default None REnv" "hb_routes h = [((alpaca_instrument ''AAPL'', KTrade), 7)]"
    using demo_connect_run by blast
  then show ?thesis
    using sessions_know_the_connection [OF h(1) [unfolded demo_hub_code_def], of "(alpaca_instrument ''AAPL'', KTrade)" 7] by simp
qed



section \<open>Demonstrations of the general facts\<close>

theorem messages_reach_their_session_witness:
  "\<exists>h. hub_run demo_hub_code demo_hub_config demo_connect (demo_sources, hub_new demo_hub_config) = (demo_sources, h) \<and>
     delivered_to 7 (hb_sent (snd (hub_run demo_hub_code demo_hub_config
       (map (\<lambda>(now, msg). Message now msg) [(5, OtherMsg), (6, ErrorMsg ''c'' ''m'')]) (demo_sources, h)))) =
     delivered_to 7 (hb_sent h) @ [control_event 6 (ProviderError ALPACA ''c: m'')]"
proof -
  obtain h where h: "hub_run demo_hub_code demo_hub_config demo_connect (demo_sources, hub_new demo_hub_config) = (demo_sources, h)"
    "hb_phase h = Connected None alpaca_settings_default None REnv" "hb_routes h = [((alpaca_instrument ''AAPL'', KTrade), 7)]"
    using demo_connect_run by blast
  have "concat (map (\<lambda>(now, msg). hc_translate demo_hub_code now msg) [(5, OtherMsg), (6, ErrorMsg ''c'' ''m'')]) =
      [control_event 6 (ProviderError ALPACA ''c: m'')]"
    by (simp add: demo_hub_code_def alpaca_hub_code_def translate_stock_message_def control_event_def)
  moreover have "distinct (map fst (hb_routes h))" "distinct (map snd (hb_routes h))"
    "((alpaca_instrument ''AAPL'', KTrade), 7) \<in> set (hb_routes h)" using h(3) by simp_all
  note routes = this
  ultimately show ?thesis
    using h(1) messages_reach_their_session [OF h(2) routes, of demo_hub_code demo_hub_config
        "[(5, OtherMsg), (6, ErrorMsg ''c'' ''m'')]" demo_sources]
    by (simp add: event_route_key_def control_event_def del: list.map concat.simps)
qed

text \<open>A watched provider, disabled at first, then enabled and given a key pair; the pair is rotated once connected.\<close>

definition demo_watch_config :: "alpaca_settings hub_config" where
  "demo_watch_config = \<lparr> hg_settings = WatchSettings, hg_credentials = WatchCreds, hg_reconnect = reconnect_policy_default \<rparr>"

definition demo_key_pair :: api_key where "demo_key_pair = \<lparr> ak_key_id = ''k'', ak_secret = ''s'' \<rparr>"

definition demo_parked :: "(i64 stream_message, alpaca_settings) hub_in list" where
  "demo_parked = [Advance, Advance, Outside (SendSettings (Some alpaca_settings_default))]"

definition demo_rotated :: "(i64 stream_message, alpaca_settings) hub_in list" where
  "demo_rotated = demo_parked @ [WatchReady, Outside (SendCredentials (Some demo_key_pair)), Advance, Advance, Advance, Advance,
     ConnectDone 1 2 0 None None, Outside (SendCredentials None)]"

definition demo_failed :: "(i64 stream_message, alpaca_settings) hub_in list" where
  "demo_failed = [Advance, Advance, Advance, Advance,
     ConnectDone 1 2 300 (Some \<lparr> ue_kind = OtherUpstream, ue_chain = [''refused''] \<rparr>) None]"

lemmas demo_run_simps = hub_step_def hub_advance_def hub_new_def demo_watch_config_def settings_watch_def settings_current_def
  credentials_watch_def credentials_current_def hub_connected_def connect_result_def demo_hub_code_def alpaca_hub_code_def
  alpaca_settings_default_def subscriptions_empty_def none_or_empty_def subscription_list_new_def source_step_def
  channel_send_def demo_channel_def wait_for_provisioning_def changed_def Let_def demo_sources_def

theorem connection_current_witness:
  "\<exists>env h srx crx. hub_run demo_hub_code demo_watch_config demo_rotated (demo_sources, hub_new demo_watch_config) = (env, h) \<and>
     hb_phase h = Connected srx alpaca_settings_default crx (RCreds demo_key_pair) \<and>
     credentials_current WatchCreds (snd env) = RMissing \<and>
     (hb_phase (hub_settings_changed demo_hub_code demo_watch_config env 9 h) = Top \<or>
      hb_phase (hub_creds_changed demo_hub_code demo_watch_config env 9 h) = Top)"
proof -
  obtain env h srx crx where
    h: "hub_run demo_hub_code demo_watch_config demo_rotated (demo_sources, hub_new demo_watch_config) = (env, h)"
      "hb_phase h = Connected srx alpaca_settings_default crx (RCreds demo_key_pair)" "credentials_current WatchCreds (snd env) = RMissing"
    by (simp add: demo_rotated_def demo_parked_def demo_run_simps)
  have "hg_credentials demo_watch_config = WatchCreds" by (simp add: demo_watch_config_def)
  then show ?thesis using connection_current [OF h(1,2), of 9] h by auto
qed

lemma parked_hub_wakes_witness:
  "\<exists>env h seen. hub_run demo_hub_code demo_watch_config demo_parked (demo_sources, hub_new demo_watch_config) = (env, h) \<and>
     hb_phase h = Waiting ParkDisabled seen False \<and> hb_phase (wait_for_provisioning env h) = Top"
proof -
  obtain env h seen where
    h: "hub_run demo_hub_code demo_watch_config demo_parked (demo_sources, hub_new demo_watch_config) = (env, h)"
      "hb_phase h = Waiting ParkDisabled seen False" "settings_current WatchSettings (fst env) \<noteq> None"
    by (simp add: demo_parked_def demo_run_simps)
  have "hg_settings demo_watch_config = WatchSettings" by (simp add: demo_watch_config_def)
  then show ?thesis using parked_hub_wakes [OF h(1,2)] h by auto
qed

theorem backoff_bounded_witness:
  "\<exists>h delay. hub_run demo_hub_code demo_hub_config demo_failed (demo_sources, hub_new demo_hub_config) = (demo_sources, h) \<and>
     hb_phase h = Sleeping delay \<and> delay = 300 \<and> delay \<le> 30000"
proof -
  obtain h where h: "hub_run demo_hub_code demo_hub_config demo_failed (demo_sources, hub_new demo_hub_config) = (demo_sources, h)"
    "hb_phase h = Sleeping 300"
    by (simp add: demo_failed_def demo_run_simps demo_hub_config_def alpaca_hub_config_def alpaca_config_default_def
        from_env_def env_var_names_def lose_connection_def classify_stream_failure_def reconnect_policy_default_def min_def)
  have "hg_reconnect demo_hub_config = reconnect_policy_default"
    by (simp add: demo_hub_config_def alpaca_hub_config_def alpaca_config_default_def)
  then show ?thesis using backoff_bounded [OF h] h by (simp add: reconnect_policy_default_def max_def)
qed

section \<open>Shortcomings\<close>

text \<open>
  The provider offers live data for ETFs, but what it streams is always stamped as equity: in no
  run does a session on an ETF instrument receive one event of data.
\<close>

definition equity_only :: "'s hub \<Rightarrow> bool" where
  "equity_only h \<longleftrightarrow> (\<forall>(s, ev) \<in> set (hb_sent h). \<forall>i k. event_route_key ev = Some (i, k) \<longrightarrow> i_asset_class i = Equity)"

lemma control_unrouted [simp]: "event_route_key (control_event now k) = None"
  by (simp add: event_route_key_def control_event_def)

lemma equity_only_append:
  "equity_only h \<Longrightarrow> hb_sent h' = hb_sent h @ xs \<Longrightarrow> (\<And>s ev. (s, ev) \<in> set xs \<Longrightarrow> event_route_key ev = None) \<Longrightarrow> equity_only h'"
  by (fastforce simp: equity_only_def)

lemma equity_only_same: "equity_only h \<Longrightarrow> hb_sent h' = hb_sent h \<Longrightarrow> equity_only h'"
  by (simp add: equity_only_def)

lemma equity_only_dispatch:
  assumes "\<And>ev i k. ev \<in> set evs \<Longrightarrow> event_route_key ev = Some (i, k) \<Longrightarrow> i_asset_class i = Equity"
  shows "equity_only h \<Longrightarrow> equity_only (foldl (\<lambda>h ev. dispatch_event ev h) h evs)"
  using assms
proof (induction evs arbitrary: h)
  case (Cons ev evs)
  have "equity_only (dispatch_event ev h)"
  proof (cases "event_route_key ev")
    case None
    then show ?thesis by (intro equity_only_append [OF Cons.prems(1) sent_dispatch]) auto
  next
    case (Some key)
    then have "i_asset_class (fst key) = Equity" using Cons.prems(2) [of ev "fst key" "snd key"] by simp
    then show ?thesis using Cons.prems(1) Some by (auto simp: equity_only_def sent_dispatch split: option.splits)
  qed
  moreover have "i_asset_class i = Equity" if "x \<in> set evs" "event_route_key x = Some (i, k)" for x i k
    using that Cons.prems(2) by (meson list.set_intros(2))
  ultimately show ?case using Cons.IH by simp
qed simp

lemma equity_only_hub:
  assumes "equity_only h"
  shows "equity_only (broadcast_control now kd h)" "equity_only (broadcast_control_to s now kd h)"
    "equity_only (send_ack a r h)" "equity_only (set_phase ph h)" "equity_only (call_upstream add l res h)"
    "equity_only (sleep_with_jitter d p h)" "equity_only (restart_connection cfg pid now r' c h)"
    "equity_only (lose_connection code p what now d crx e h)"
proof -
  show "equity_only (broadcast_control now kd h)" by (rule equity_only_append [OF assms broadcast_fields(6)]) auto
  show "equity_only (restart_connection cfg pid now r' c h)" by (rule equity_only_append [OF assms restart_fields(6)]) auto
  show "equity_only (lose_connection code p what now d crx e h)" by (rule equity_only_append [OF assms lose_fields(4)]) auto
  show "equity_only (broadcast_control_to s now kd h)"
    by (rule equity_only_append [OF assms broadcast_to_fields(6)]) (auto split: option.splits)
qed (use assms in \<open>simp_all add: equity_only_def\<close>)

lemma equity_only_step:
  assumes "equity_only h" "hub_step (alpaca_hub_code scaled penv env_err) cfg inp (env, h) = (env', h')"
  shows "equity_only h'"
proof (cases inp)
  case Advance
  then show ?thesis using assms
    by (auto simp: hub_step_def hub_advance_def equity_only_hub split: hub_phase.splits option.splits resolved.splits)
next
  case (ConnectDone now now' d net resub)
  have "equity_only (h\<lparr> hb_backoff := b, hb_calls := cs \<rparr>)" for b cs using assms(1) by (simp add: equity_only_def)
  then show ?thesis using assms ConnectDone
    by (auto simp: hub_step_def hub_connected_def equity_only_hub Let_def split: hub_phase.splits option.splits if_splits)
next
  case (Receive now now' res cmd)
  have upd: "equity_only (h\<lparr> hb_routes := r, hb_subs := l \<rparr>)" "equity_only (h\<lparr> hb_subs := l \<rparr>)" if "equity_only h"
    for r l and h :: "alpaca_settings hub" using that by (simp_all add: equity_only_def)
  have upd': "equity_only (h\<lparr> hb_routes := r \<rparr>)" if "equity_only h" for r and h :: "alpaca_settings hub"
    using that by (simp add: equity_only_def)
  show ?thesis using assms Receive
    by (auto simp: hub_step_def hub_receive_def hub_subscribe_def hub_unsubscribe_def Let_def
        split: hub_phase.splits hub_command.splits option.splits intro!: equity_only_hub upd upd')
next
  case (Message now msg)
  have "i_asset_class i = Equity" if "ev \<in> set (translate_stock_message scaled now msg)" "event_route_key ev = Some (i, k)" for ev i k
    using stock_message_events(2) [OF that] by (metis alpaca_canonical(2))
  then show ?thesis using assms Message equity_only_dispatch
    by (auto simp: hub_step_def hub_message_def alpaca_hub_code_def split: hub_phase.splits)
qed (use assms in \<open>auto simp: hub_step_def hub_abandoned_def wait_for_provisioning_def hub_timer_def hub_stream_fails_def
        hub_creds_changed_def hub_settings_changed_def equity_only_hub
        split: hub_phase.splits option.splits bool.splits if_splits\<close>)

lemma etf_session_starves:
  assumes "hub_run (alpaca_hub_code scaled penv env_err) cfg ins (env, hub_new cfg) = (env', h)"
    "(sink, ev) \<in> set (hb_sent h)" "event_route_key ev = Some (i, k)"
  shows "i_asset_class i \<noteq> Etf"
proof -
  have "equity_only (snd (hub_run (alpaca_hub_code scaled penv env_err) cfg ins (env, hub_new cfg)))"
  proof (rule hub_run_keeps [where P = "\<lambda>st. equity_only (snd st)"])
    fix inp and st :: "alpaca_settings sources \<times> alpaca_settings hub"
    show "equity_only (snd (hub_step (alpaca_hub_code scaled penv env_err) cfg inp st))" if "equity_only (snd st)"
      using equity_only_step [OF that] by (metis prod.collapse)
  qed (simp add: equity_only_def hub_new_def)
  then show ?thesis using assms by (fastforce simp: equity_only_def)
qed

text \<open>
  A session that closes while its provider is down is told of success, but its route stays, and the
  next socket is subscribed to it again, with nobody left to end that.
\<close>

lemma close_while_down_leaks:
  assumes "hb_phase h = Sleeping d \<or> (\<exists>p seen f. hb_phase h = Waiting p seen f)" "lh_subscribed lh = Some (i, k)"
    "(i, k) \<in> routed h"
  shows "\<exists>cmd. handle_close a lh = (Some cmd, Inr ()) \<and>
    (i, k) \<in> routed (hub_receive code now now' res cmd h) \<and> hb_subs (hub_receive code now now' res cmd h) = hb_subs h"
  using assms by (auto simp: handle_close_def hub_receive_def routed_def)

text \<open>Parked on rejected credentials the hub waits for a rotation only: no change of settings is seen.\<close>

lemma rejected_park_ignores_disable:
  assumes "hb_phase h = Waiting ParkRejectedCredentials (wt_version cw) False" "\<not> wt_closed cw"
  shows "wait_for_provisioning (sw, cw) h = h"
  using assms by (simp add: wait_for_provisioning_def changed_def)

text \<open>A refused re-subscribe leaves every session connected to a socket that streams nothing.\<close>

lemma refused_resubscribe_streams_nothing:
  assumes "hb_phase h = Connecting srx s crx r" "connect_result code s r net = None" "\<not> subscriptions_empty (hb_subs h)"
  shows "hb_phase (hub_connected code cfg now now' d net (Some e) h) = Connected srx s crx r \<and>
    \<not> served (hb_calls (hub_connected code cfg now now' d net (Some e) h)) sy k"
  using assms by (simp add: hub_connected_def Let_def)

end
