(* ===== verification/Alpaca_Fetch.thy ===== *)
theory Alpaca_Fetch
  imports Alpaca_Hub
begin

text \<open>
  The equity provider's REST side: what it claims to serve is what its fetches serve, the catalog it
  lists, and the read-through of the historical cache over its fetches.
\<close>

section \<open>Fetches\<close>

text \<open>An event of the requested series, by its own account.\<close>

definition of_request :: "history_request \<Rightarrow> market_event \<Rightarrow> bool" where
  "of_request rq ev \<longleftrightarrow> event_route_key ev = Some (hr_instrument rq, hr_kind rq)"

text \<open>Whether the venue answered the one call a request makes.\<close>

definition venue_answers :: "rest_client \<Rightarrow> rest_feed \<Rightarrow> history_request \<Rightarrow> bool" where
  "venue_answers rest feed rq =
     (let symbol = i_symbol (hr_instrument rq); f = ts_to_chrono (hr_from rq); t = ts_to_chrono (hr_to rq) in
      case hr_kind rq of
        KTrade \<Rightarrow> \<not> isl (rc_stock_trades rest symbol f t feed)
      | KQuote \<Rightarrow> \<not> isl (rc_stock_quotes rest symbol f t feed)
      | KBar interval \<Rightarrow>
          (case history_timeframe interval of
             None \<Rightarrow> False
           | Some tf \<Rightarrow> \<not> isl (rc_stock_bars rest symbol tf f t (map_adjustment (hr_adjustment rq)) feed)))"

lemma fetched_of_request:
  "ev \<in> set (fst (fetch_history_via scaled rest rx takes feed rq)) \<Longrightarrow> of_request rq ev"
  by (auto simp: fetch_history_via_def send_until_closed_def of_request_def event_route_key_def rest_trade_to_trade_def
      rest_quote_to_quote_def rest_bar_to_bar_def Let_def dest!: in_set_takeD
      split: event_kind.splits sum.splits option.splits)

lemma fetch_outcome:
  "snd (fetch_history_via scaled rest rx takes feed rq) = Inr () \<longleftrightarrow> venue_answers rest feed rq"
  by (auto simp: fetch_history_via_def venue_answers_def Let_def split: event_kind.splits sum.splits option.splits)

lemma failed_fetch_sends_nothing:
  "snd (fetch_history_via scaled rest rx takes feed rq) = Inl e \<Longrightarrow> fst (fetch_history_via scaled rest rx takes feed rq) = []"
  by (auto simp: fetch_history_via_def Let_def split: event_kind.splits sum.splits option.splits)

lemma history_supported_iff:
  "i_asset_class i = Equity \<or> i_asset_class i = Etf \<Longrightarrow>
   alpaca_supports i k History \<longleftrightarrow> (case k of KBar b \<Rightarrow> history_timeframe b \<noteq> None | _ \<Rightarrow> True)"
  by (auto simp: alpaca_supports_def history_timeframe_def split: event_kind.split bar_interval.split)

lemma live_supported_iff:
  "i_asset_class i = Equity \<or> i_asset_class i = Etf \<Longrightarrow> alpaca_supports i k Live \<longleftrightarrow> live_kind k"
  by (auto simp: alpaca_supports_def split: event_kind.split bar_interval.split)

text \<open>C27: The history the equity provider offers is what its fetch serves. For an offered series the fetch
  never answers that it does not serve it: it fails for want of a client or by the venue's own
  error, having sent nothing, or the venue has answered and every event sent is of the request.\<close>

theorem supported_history_is_fetched:
  assumes "alpaca_supports (hr_instrument rq) (hr_kind rq) History"
    "alpaca_fetch_history scaled market_data settings feed rx takes rq = (evs, r)"
  shows "case market_data of
      None \<Rightarrow> r = Inl rest_missing \<and> evs = []
    | Some rest \<Rightarrow>
        if venue_answers rest (history_feed (case settings of Some s \<Rightarrow> al_history_feed s | None \<Rightarrow> None) feed) rq
        then r = Inr () \<and> list_all (of_request rq) evs
        else (\<exists>m. r = Inl (Provider ALPACA m)) \<and> evs = []"
proof (cases market_data)
  case (Some rest)
  let ?feed = "history_feed (case settings of Some s \<Rightarrow> al_history_feed s | None \<Rightarrow> None) feed"
  have f: "fetch_history_via scaled rest rx takes ?feed rq = (evs, r)"
    using assms(2) Some by (simp add: alpaca_fetch_history_def)
  have "case hr_kind rq of KBar b \<Rightarrow> history_timeframe b \<noteq> None | _ \<Rightarrow> True"
    using assms(1) history_supported_iff [of "hr_instrument rq" "hr_kind rq"] by (auto simp: alpaca_supports_def split: if_splits)
  then have "\<exists>m. r = Inl (Provider ALPACA m)" if "r \<noteq> Inr ()"
    using that f by (auto simp: fetch_history_via_def Let_def split: event_kind.splits sum.splits option.splits)
  then show ?thesis
    using Some f fetch_outcome [of scaled rest rx takes ?feed rq] failed_fetch_sends_nothing [of scaled rest rx takes ?feed rq]
      fetched_of_request [of _ scaled rest rx takes ?feed rq]
    by (auto simp: list_all_iff)
qed (use assms(2) in \<open>simp add: alpaca_fetch_history_def\<close>)

definition demo_rest :: rest_client where
  "demo_rest = \<lparr> rc_stock_trades = (\<lambda>_ f _ _. Inr [\<lparr> rt_timestamp = f, rt_price = F64 1, rt_size = 2 \<rparr>]),
     rc_stock_quotes = (\<lambda>_ _ _ _. Inl ''403''), rc_stock_bars = (\<lambda>_ _ _ _ _ _. Inr []), rc_stock_snapshot = (\<lambda>_ _. Inl ''404'') \<rparr>"

definition demo_history :: "event_kind \<Rightarrow> history_request" where
  "demo_history k = \<lparr> hr_instrument = alpaca_instrument ''AAPL'', hr_kind = k, hr_from = 5, hr_to = 9, hr_adjustment = Raw \<rparr>"

theorem supported_history_is_fetched_witness:
  "snd (alpaca_fetch_history demo_scaled (Some demo_rest) None FeedIex 1 None (demo_history KTrade)) = Inr () \<and>
   fst (alpaca_fetch_history demo_scaled (Some demo_rest) None FeedIex 1 None (demo_history KQuote)) = []"
proof -
  let ?f = "\<lambda>k. alpaca_fetch_history demo_scaled (Some demo_rest) None FeedIex 1 None (demo_history k)"
  have "alpaca_supports (hr_instrument (demo_history KTrade)) (hr_kind (demo_history KTrade)) History"
    "alpaca_supports (hr_instrument (demo_history KQuote)) (hr_kind (demo_history KQuote)) History"
    by (simp_all add: alpaca_supports_def demo_history_def)
  note sup = this
  show ?thesis
    using supported_history_is_fetched [OF sup(1), of demo_scaled "Some demo_rest" None FeedIex 1 None "fst (?f KTrade)" "snd (?f KTrade)"]
      supported_history_is_fetched [OF sup(2), of demo_scaled "Some demo_rest" None FeedIex 1 None "fst (?f KQuote)" "snd (?f KQuote)"]
    by (simp add: venue_answers_def demo_history_def demo_rest_def Let_def)
qed

section \<open>The cache over the provider\<close>

text \<open>The fetch task the session controller runs.\<close>

definition alpaca_fetcher :: "(f64 \<Rightarrow> f64) \<Rightarrow> rest_client option \<Rightarrow> alpaca_settings option \<Rightarrow> stream_feed \<Rightarrow> timestamp \<Rightarrow> fetcher" where
  "alpaca_fetcher scaled market_data settings feed rx rq =
     (case alpaca_fetch_history scaled market_data settings feed rx None rq of
        (evs, Inr _) \<Rightarrow> (evs, FetchOk)
      | (evs, Inl e) \<Rightarrow> (evs, FetchErr e))"

lemma of_request_kind: "of_request (request_of a b c) ev \<Longrightarrow> of_kind (segment_key a b c) ev"
  by (auto simp: of_request_def of_kind_def request_of_def segment_key_def event_route_key_def
      split: market_event.splits event_kind.splits)


lemma demo_alpaca_fetch:
  "alpaca_fetcher demo_scaled (Some demo_rest) None FeedIex 1 (request_of a b demo_cached) =
     ([Trade (rest_trade_to_trade demo_scaled \<lparr> rt_timestamp = a, rt_price = F64 1, rt_size = 2 \<rparr> demo_instrument 1)], FetchOk)"
  by (simp add: alpaca_fetcher_def alpaca_fetch_history_def fetch_history_via_def request_of_def demo_cached_def new_controller_def
      demo_rest_def send_until_closed_def ts_to_chrono_def)


section \<open>The catalog\<close>

lemma assets_to_entries_set:
  "set (assets_to_entries assets) = {equity_entry a | a. a \<in> set assets \<and> as_tradable a \<and> as_class a = UsEquityRow}"
  by (auto simp: assets_to_entries_def List.map_filter_def asset_to_entry_def)

text \<open>Every listed instrument is one whose stream the hub can route, with its capabilities.\<close>

lemma listed_entries:
  assumes "alpaca_list_instruments trading = Inr entries" "e \<in> set entries"
  shows "ie_instrument e = alpaca_instrument (i_symbol (ie_instrument e)) \<and> ie_capabilities e \<noteq> None"
  using assms
  by (auto simp: alpaca_list_instruments_def assets_to_entries_set equity_entry_def alpaca_instrument_def instrument_new_def
      entry_bare_def split: option.splits sum.splits)

text \<open>A capability lookup finds what the listing lists, where the two calls agree on the row.\<close>

lemma lookup_agrees:
  assumes "tc_list_assets tc UsEquityRow = Inr assets" "a \<in> set assets" "tc_get_asset tc (as_symbol a) = Inr a"
    "distinct (map as_symbol assets)" "alpaca_list_instruments (Some tc) = Inr entries"
  shows "alpaca_capabilities (Some tc) (alpaca_instrument (as_symbol a)) =
    Inr (find (\<lambda>e. i_symbol (ie_instrument e) = as_symbol a) entries)"
proof -
  have "find (\<lambda>e. i_symbol (ie_instrument e) = as_symbol a) (assets_to_entries assets) = asset_to_entry a"
    using assms(2,4)
  proof (induction assets)
    case (Cons b assets)
    have "find (\<lambda>e. i_symbol (ie_instrument e) = as_symbol b) (assets_to_entries assets) = None" if "as_symbol b \<notin> as_symbol ` set assets"
      using that by (fastforce simp: find_None_iff assets_to_entries_set equity_entry_def entry_bare_def instrument_new_def image_iff)
    then show ?case using Cons
      by (force simp: assets_to_entries_def List.map_filter_simps asset_to_entry_def equity_entry_def entry_bare_def instrument_new_def)
  qed simp
  then show ?thesis using assms by (simp add: alpaca_capabilities_def alpaca_list_instruments_def)
qed

end
