(* ===== verification/Crypto_Provider.thy ===== *)
theory Crypto_Provider
  imports Alpaca_Fetch
begin

text \<open>
  The crypto provider (\<^verbatim>\<open>providers/alpaca_crypto.rs\<close>): its own instruments, order policy, venue,
  translation and error classification, over the same hub; and both providers behind the facade.
\<close>

section \<open>Instruments and catalog\<close>

definition ALPACA_CRYPTO :: provider_id where "ALPACA_CRYPTO = ''alpaca-crypto''"

definition crypto_instrument :: "string \<Rightarrow> instrument" where
  "crypto_instrument symbol = instrument_new ALPACA_CRYPTO Crypto symbol"

definition CRYPTO_ORDER_TYPES :: "order_type list" where
  "CRYPTO_ORDER_TYPES = [Market, Limit, StopLimit]"

definition CRYPTO_TIF :: "time_in_force list" where "CRYPTO_TIF = [Gtc, Ioc]"

definition crypto_capabilities :: "asset_row \<Rightarrow> capabilities" where
  "crypto_capabilities asset =
     (let caps = capabilities_default\<lparr> cap_fractionable := Some (as_fractionable asset),
                                       cap_supports_notional_orders := Some (as_fractionable asset) \<rparr>
      in if as_fractionable asset
         then caps\<lparr> cap_allowed_order_types := Some CRYPTO_ORDER_TYPES, cap_allowed_tif := Some CRYPTO_TIF \<rparr>
         else caps)"

definition crypto_entry :: "asset_row \<Rightarrow> instrument_entry" where
  "crypto_entry asset =
     (entry_bare (instrument_new ALPACA_CRYPTO Crypto (as_symbol asset)))\<lparr> ie_capabilities := Some (crypto_capabilities asset) \<rparr>"

definition crypto_asset_to_entry :: "asset_row \<Rightarrow> instrument_entry option" where
  "crypto_asset_to_entry asset = (if as_tradable asset \<and> as_class asset = CryptoRow then Some (crypto_entry asset) else None)"

definition crypto_assets_to_entries :: "asset_row list \<Rightarrow> instrument_entry list" where
  "crypto_assets_to_entries assets = List.map_filter crypto_asset_to_entry assets"

section \<open>Venue and settings\<close>

datatype crypto_venue = VenueUs | VenueUsKraken | VenueEuKraken

datatype crypto_location = LocationUs | LocationUs1 | LocationEu1

definition venue_location :: "crypto_venue \<Rightarrow> crypto_location" where
  "venue_location venue =
     (case venue of VenueUs \<Rightarrow> LocationUs | VenueUsKraken \<Rightarrow> LocationUs1 | VenueEuKraken \<Rightarrow> LocationEu1)"

record crypto_settings =
  cr_account_type :: account_type
  cr_venue :: crypto_venue

record crypto_config =
  cc_settings :: "crypto_settings settings_source"
  cc_reconnect :: reconnect_policy
  cc_credentials :: credentials_source

definition crypto_config_default :: crypto_config where
  "crypto_config_default =
     \<lparr> cc_settings = StaticSettings \<lparr> cr_account_type = PaperAccount, cr_venue = VenueUs \<rparr>,
       cc_reconnect = reconnect_policy_default, cc_credentials = EnvCreds \<rparr>"

section \<open>What is served\<close>

definition crypto_supports :: "instrument \<Rightarrow> event_kind \<Rightarrow> surface \<Rightarrow> bool" where
  "crypto_supports i kind surf =
     (if i_asset_class i \<noteq> Crypto then False
      else case surf of
             Live \<Rightarrow> (case kind of KTrade \<Rightarrow> True | KQuote \<Rightarrow> True | KBar OneMinute \<Rightarrow> True | KBar OneDay \<Rightarrow> True | KBar _ \<Rightarrow> False)
           | History \<Rightarrow> False)"

definition crypto_fetch_history :: "history_request \<Rightarrow> market_event list \<times> unit res" where
  "crypto_fetch_history rq =
     ([], Inl (Provider ALPACA_CRYPTO ''crypto historical fetch is not wired up in this provider''))"

section \<open>Translation\<close>

definition crypto_trade :: "(f64 \<Rightarrow> f64) \<Rightarrow> tick_message \<Rightarrow> timestamp \<Rightarrow> trade" where
  "crypto_trade scaled t rx =
     \<lparr> t_instrument = crypto_instrument (tm_symbol t), t_source_ts = chrono_to_ts (tm_timestamp t), t_rx_ts = rx, t_seq = 0,
       t_price = price_from_f64_round scaled (tm_price t), t_size = quantity_from_f64_round scaled (tm_size t) \<rparr>"

definition crypto_quote :: "(f64 \<Rightarrow> f64) \<Rightarrow> book_message \<Rightarrow> timestamp \<Rightarrow> quote" where
  "crypto_quote scaled q rx =
     \<lparr> q_instrument = crypto_instrument (bm_symbol q), q_source_ts = chrono_to_ts (bm_timestamp q), q_rx_ts = rx, q_seq = 0,
       q_bid = price_from_f64_round scaled (bm_bid_price q), q_bid_size = quantity_from_f64_round scaled (bm_bid_size q),
       q_ask = price_from_f64_round scaled (bm_ask_price q), q_ask_size = quantity_from_f64_round scaled (bm_ask_size q) \<rparr>"

text \<open>A crypto bar's volume is fractional.\<close>

definition crypto_bar :: "(f64 \<Rightarrow> f64) \<Rightarrow> f64 bar_message \<Rightarrow> bar_interval \<Rightarrow> timestamp \<Rightarrow> bar" where
  "crypto_bar scaled b interval rx =
     \<lparr> b_instrument = crypto_instrument (br_symbol b), b_interval = interval, b_source_ts = chrono_to_ts (br_timestamp b),
       b_rx_ts = rx, b_seq = 0,
       b_open = price_from_f64_round scaled (br_open b), b_high = price_from_f64_round scaled (br_high b),
       b_low = price_from_f64_round scaled (br_low b), b_close = price_from_f64_round scaled (br_close b),
       b_volume = quantity_from_f64_round scaled (br_volume b) \<rparr>"

definition translate_crypto_message :: "(f64 \<Rightarrow> f64) \<Rightarrow> timestamp \<Rightarrow> f64 stream_message \<Rightarrow> market_event list" where
  "translate_crypto_message scaled rx msg =
     (case msg of
        TradeMsg t \<Rightarrow> [Trade (crypto_trade scaled t rx)]
      | QuoteMsg q \<Rightarrow> [Quote (crypto_quote scaled q rx)]
      | BarMsg b \<Rightarrow> [Bar (crypto_bar scaled b OneMinute rx)]
      | UpdatedBarMsg b \<Rightarrow> [Bar (crypto_bar scaled b OneMinute rx)]
      | DailyBarMsg b \<Rightarrow> [Bar (crypto_bar scaled b OneDay rx)]
      | ErrorMsg code message \<Rightarrow>
          [Control \<lparr> c_source_ts = rx, c_rx_ts = rx, c_seq = 0, c_kind = ProviderError ALPACA_CRYPTO (code @ '': '' @ message) \<rparr>]
      | OtherMsg \<Rightarrow> [])"

section \<open>The latest value\<close>

text \<open>The vendor's snapshot, whose rows carry no symbol, and the client's answers by symbol.\<close>

record crypto_tick =
  ct_tick_timestamp :: datetime
  ct_tick_price :: f64
  ct_tick_size :: f64

record crypto_book =
  cb_timestamp :: datetime
  cb_bid_price :: f64
  cb_bid_size :: f64
  cb_ask_price :: f64
  cb_ask_size :: f64

record crypto_bar_row =
  cw_timestamp :: datetime
  cw_open :: f64
  cw_high :: f64
  cw_low :: f64
  cw_close :: f64
  cw_volume :: f64

record crypto_snapshot =
  cs_latest_trade :: "crypto_tick option"
  cs_latest_quote :: "crypto_book option"
  cs_minute_bar :: "crypto_bar_row option"
  cs_daily_bar :: "crypto_bar_row option"

definition crypto_snapshot_to_event ::
  "(f64 \<Rightarrow> f64) \<Rightarrow> crypto_snapshot \<Rightarrow> instrument \<Rightarrow> event_kind \<Rightarrow> timestamp \<Rightarrow> market_event option" where
  "crypto_snapshot_to_event scaled snap i kind rx =
     (case kind of
        KTrade \<Rightarrow>
          map_option (\<lambda>t. Trade \<lparr> t_instrument = i, t_source_ts = chrono_to_ts (ct_tick_timestamp t), t_rx_ts = rx, t_seq = 0,
              t_price = price_from_f64_round scaled (ct_tick_price t), t_size = quantity_from_f64_round scaled (ct_tick_size t) \<rparr>)
            (cs_latest_trade snap)
      | KQuote \<Rightarrow>
          map_option (\<lambda>q. Quote \<lparr> q_instrument = i, q_source_ts = chrono_to_ts (cb_timestamp q), q_rx_ts = rx, q_seq = 0,
              q_bid = price_from_f64_round scaled (cb_bid_price q), q_bid_size = quantity_from_f64_round scaled (cb_bid_size q),
              q_ask = price_from_f64_round scaled (cb_ask_price q), q_ask_size = quantity_from_f64_round scaled (cb_ask_size q) \<rparr>)
            (cs_latest_quote snap)
      | KBar interval \<Rightarrow>
          map_option (\<lambda>b. Bar \<lparr> b_instrument = i, b_interval = interval, b_source_ts = chrono_to_ts (cw_timestamp b),
              b_rx_ts = rx, b_seq = 0,
              b_open = price_from_f64_round scaled (cw_open b), b_high = price_from_f64_round scaled (cw_high b),
              b_low = price_from_f64_round scaled (cw_low b), b_close = price_from_f64_round scaled (cw_close b),
              b_volume = quantity_from_f64_round scaled (cw_volume b) \<rparr>)
            (case interval of OneMinute \<Rightarrow> cs_minute_bar snap | OneDay \<Rightarrow> cs_daily_bar snap | _ \<Rightarrow> None))"

definition crypto_latest ::
  "(f64 \<Rightarrow> f64) \<Rightarrow> (string list \<Rightarrow> crypto_location \<Rightarrow> string + (string \<rightharpoonup> crypto_snapshot)) option \<Rightarrow> crypto_settings option \<Rightarrow>
   timestamp \<Rightarrow> instrument \<Rightarrow> event_kind \<Rightarrow> market_event option res" where
  "crypto_latest scaled market_data settings rx i kind =
     (case market_data of
        None \<Rightarrow> Inl (Provider ALPACA_CRYPTO ''Market-data client not initialized (Alpaca credentials missing?)'')
      | Some crypto_snapshots \<Rightarrow>
          (let venue = (case settings of Some s \<Rightarrow> cr_venue s | None \<Rightarrow> VenueUs) in
           case crypto_snapshots [i_symbol i] (venue_location venue) of
             Inl e \<Rightarrow> Inl (Provider ALPACA_CRYPTO (''crypto_snapshots: '' @ e))
           | Inr snaps \<Rightarrow>
               (case snaps (i_symbol i) of
                  None \<Rightarrow> Inr None
                | Some snap \<Rightarrow> Inr (crypto_snapshot_to_event scaled snap i kind rx))))"

section \<open>The reference data\<close>

definition crypto_list_instruments :: "trading_client option \<Rightarrow> instrument_entry list res" where
  "crypto_list_instruments trading =
     (case trading of
        None \<Rightarrow> Inl (trading_missing ALPACA_CRYPTO)
      | Some tc \<Rightarrow>
          (case tc_list_assets tc CryptoRow of
             Inl e \<Rightarrow> Inl (Provider ALPACA_CRYPTO (''list_assets: '' @ e))
           | Inr assets \<Rightarrow> Inr (crypto_assets_to_entries assets)))"

definition crypto_lookup_capabilities :: "trading_client option \<Rightarrow> instrument \<Rightarrow> instrument_entry option res" where
  "crypto_lookup_capabilities trading i =
     (case trading of
        None \<Rightarrow> Inl (trading_missing ALPACA_CRYPTO)
      | Some tc \<Rightarrow>
          (case tc_get_asset tc (i_symbol i) of
             Inl e \<Rightarrow> Inl (Provider ALPACA_CRYPTO (''get_asset('' @ i_symbol i @ ''): '' @ e))
           | Inr asset \<Rightarrow> Inr (crypto_asset_to_entry asset)))"

definition crypto_provider :: "bool \<Rightarrow> trading_client option \<Rightarrow> provider" where
  "crypto_provider enabled trading =
     \<lparr> pv_id = ALPACA_CRYPTO, pv_supports = crypto_supports, pv_list_instruments = crypto_list_instruments trading,
       pv_capabilities = crypto_lookup_capabilities trading, pv_metrics = None, pv_enabled = enabled \<rparr>"

section \<open>The hub\<close>

text \<open>Only the connect-time rejection counts as one of the credentials; the environment is read by the client.\<close>

definition crypto_hub_code :: "(f64 \<Rightarrow> f64) \<Rightarrow> (f64 stream_message, crypto_settings) hub_code" where
  "crypto_hub_code scaled =
     \<lparr> hc_provider = ALPACA_CRYPTO, hc_translate = translate_crypto_message scaled,
       hc_unauthenticated = (\<lambda>e. ue_kind e = StreamingAuth), hc_env_error = (\<lambda>_. None) \<rparr>"

definition crypto_hub_config :: "crypto_config \<Rightarrow> crypto_settings hub_config" where
  "crypto_hub_config cfg =
     \<lparr> hg_settings = cc_settings cfg, hg_credentials = cc_credentials cfg, hg_reconnect = cc_reconnect cfg \<rparr>"

section \<open>Facts\<close>

lemma crypto_message_events:
  assumes "ev \<in> set (translate_crypto_message scaled rx msg)"
  shows "conn_edge ev = None" "event_route_key ev = Some (i, k) \<Longrightarrow> i = crypto_instrument (i_symbol i) \<and> live_kind k"
  using assms
  by (auto simp: translate_crypto_message_def conn_edge_def event_route_key_def crypto_trade_def crypto_quote_def
      crypto_bar_def crypto_instrument_def instrument_new_def split: stream_message.splits)

interpretation crypto_stream: stream_hub "crypto_hub_code scaled" for scaled
  by unfold_locales (simp add: crypto_hub_code_def crypto_message_events)

lemma crypto_sessions_know_the_connection:
  assumes "hub_run (crypto_hub_code scaled) cfg ins (env, hub_new cfg) = (env', h)" "hb_phase h \<noteq> Exited"
    "(pair, sink) \<in> set (hb_routes h)"
  shows "told sink (hb_sent h) = Some (is_connected (hb_phase h))"
  by (rule crypto_stream.told_connection [OF assms])

lemma crypto_upstream_serves_the_routes:
  assumes "hub_run (crypto_hub_code scaled) cfg ins (env, hub_new cfg) = (env', h)"
    "polite_run (crypto_hub_code scaled) cfg crypto_instrument ins (env, hub_new cfg)"
    "is_connected (hb_phase h)" "synced (hb_calls h)"
  shows "served (hb_calls h) sy k \<longleftrightarrow> (crypto_instrument sy, k) \<in> routed h"
proof -
  have "i_symbol (crypto_instrument s) = s" for s by (simp add: crypto_instrument_def instrument_new_def)
  then have "routes_match crypto_instrument h"
    using match_run [of crypto_instrument "(env, hub_new cfg)", OF _ _ assms(2)] assms(1) by (simp add: match_new)
  then show ?thesis using assms(3,4) by (auto simp: routes_match_def)
qed

lemma crypto_live_supported_iff: "i_asset_class i = Crypto \<Longrightarrow> crypto_supports i k Live \<longleftrightarrow> live_kind k"
  by (auto simp: crypto_supports_def split: event_kind.split bar_interval.split)

text \<open>Behind the facade with both providers: a pair goes to the provider of its asset class, and the
  history of a crypto pair to none.\<close>

lemma both_providers_route:
  assumes "dm_providers dm = [alpaca_provider a t, crypto_provider b u]" "pinned i dm = None"
  shows "route i k [Live] dm =
      (if live_kind k then Inr (if i_asset_class i = Crypto then crypto_provider b u else alpaca_provider a t)
       else Inl (UnsupportedEventKind k i Live))"
    and "i_asset_class i = Crypto \<Longrightarrow> route i k [History] dm = Inl (UnsupportedEventKind k i History)"
proof -
  have eq: "pv_supports (alpaca_provider a t) i k s = alpaca_supports i k s" "pv_supports (crypto_provider b u) i k s = crypto_supports i k s"
    for s by (simp_all add: alpaca_provider_def crypto_provider_def)
  have live: "alpaca_supports i k Live \<longleftrightarrow> i_asset_class i \<noteq> Crypto \<and> live_kind k"
    "crypto_supports i k Live \<longleftrightarrow> i_asset_class i = Crypto \<and> live_kind k"
    using live_supported_iff [of i k] crypto_live_supported_iff [of i k]
    by (cases "i_asset_class i"; simp add: alpaca_supports_def crypto_supports_def)+
  show "route i k [Live] dm =
      (if live_kind k then Inr (if i_asset_class i = Crypto then crypto_provider b u else alpaca_provider a t)
       else Inl (UnsupportedEventKind k i Live))"
    using assms by (simp add: route_def serves_all_def missing_surface_def eq live Let_def)
  show "i_asset_class i = Crypto \<Longrightarrow> route i k [History] dm = Inl (UnsupportedEventKind k i History)"
    using assms by (simp add: route_def serves_all_def missing_surface_def eq alpaca_supports_def crypto_supports_def Let_def)
qed

end
