(* ===== verification/Spec2Isabelle.thy ===== *)
theory Spec2Isabelle
  imports Facade Read_Through Tap_Log Transport_Plane Daemon_Runs Crypto_Provider
begin

text \<open>
  \<^bold>\<open>datamancer\<close> is a market-data engine: providers stream live events and answer history
  requests, sessions merge both into one stamped stream per (instrument, kind), a cache keeps
  fetched windows, a tap log records live streams, clients multiplex several streams, and a
  daemon carries a client's stream over shared memory and serves control connections. This
  development models that path from \<^verbatim>\<open>src/crates\<close> and proves what makes it correct.

  \<^bold>\<open>Parts and theories.\<close>
  \<^item> \<^verbatim>\<open>DM_Prelude\<close>: machine integers, saturating and checked arithmetic, list and map facts;
    \<^verbatim>\<open>Decimal\<close>: decimal printing and parsing, length-prefixed strings.
  \<^item> \<^verbatim>\<open>Events\<close>: the event model of \<^verbatim>\<open>datamancer-core\<close> (\<^verbatim>\<open>event.rs\<close>, \<^verbatim>\<open>instrument.rs\<close>, \<^verbatim>\<open>error.rs\<close>).
  \<^item> \<^verbatim>\<open>Coverage\<close>: coverage documents (\<^verbatim>\<open>storage/coverage.rs\<close>): \<open>merge_in\<close> keeps a normal form,
    \<open>gaps_within\<close> is exact. \<^verbatim>\<open>Tiling\<close>: the read-through plan (\<^verbatim>\<open>tile\<close> of \<^verbatim>\<open>session.rs\<close>, the
    default \<^verbatim>\<open>gaps\<close> of \<^verbatim>\<open>traits/storage.rs\<close>); the locales \<open>gap_reporter\<close>, \<open>exact_gap_reporter\<close> and
    \<open>coverage_lookup\<close> state what a cache promises the planner.
  \<^item> \<^verbatim>\<open>Turso_Cache\<close>: the cache (\<^verbatim>\<open>storage/turso.rs\<close>, \<^verbatim>\<open>turso_common.rs\<close>) over association-list tables,
    with its transaction, replay, catalog and retry loop.
  \<^item> \<^verbatim>\<open>Event_Rings\<close>: the two resume rings under the locale \<open>lossy_ring\<close>; \<^verbatim>\<open>FanOut\<close>: the fan-out of
    \<^verbatim>\<open>client.rs\<close> with coalesced gap controls; \<^verbatim>\<open>Stats\<close>: statistics, accounting, snapshot records
    and the health projection.
  \<^item> \<^verbatim>\<open>Controller\<close>: the session controller of \<^verbatim>\<open>session.rs\<close>, every handler and loop;
    \<^verbatim>\<open>Controller_Inv\<close>: its invariants, proved once per locale (\<open>segment_invariant\<close>,
    \<open>controller_invariant\<close>) and interpreted for sequence numbers, log, sink and trace;
    \<^verbatim>\<open>Controller_Total\<close>: when it returns; \<^verbatim>\<open>Controller_Spec\<close>: the schedule-free script it refines.
  \<^item> \<^verbatim>\<open>Client_Mux\<close>: the client multiplexer of \<^verbatim>\<open>client.rs\<close>; \<^verbatim>\<open>Registry\<close>: the live-session registry
    with its reference counts as a step relation; \<^verbatim>\<open>Facade\<close>: the \<^verbatim>\<open>Datamancer\<close> handle.
  \<^item> \<^verbatim>\<open>Read_Through\<close>: controller and cache together, under the locale \<open>historical_cache\<close>;
    \<^verbatim>\<open>Tap_Log\<close>: \<^verbatim>\<open>storage/turso_tap_log.rs\<close> with crashes and reopening.
  \<^item> \<^verbatim>\<open>Transport_Codec\<close>, \<^verbatim>\<open>Transport_Plane\<close>: \<^verbatim>\<open>datamancer-transport-iceoryx2\<close> and the daemon's pumps;
    \<^verbatim>\<open>Service_Names\<close>: the names of its services (\<^verbatim>\<open>naming.rs\<close>).
  \<^item> \<^verbatim>\<open>Control\<close>: requests, replies, selectors and error codes (\<^verbatim>\<open>spec.rs\<close>, \<^verbatim>\<open>codes.rs\<close>, \<^verbatim>\<open>protocol/uds.rs\<close>,
    \<^verbatim>\<open>control.rs\<close>); \<^verbatim>\<open>Civil_Time\<close>: the timestamp parser of \<^verbatim>\<open>config.rs\<close> against a calendar;
    \<^verbatim>\<open>Daemon_Config\<close>: schema, validation, paths and boot of the daemon; \<^verbatim>\<open>Config_Class\<close>: hot and cold
    fields; \<^verbatim>\<open>Hubs\<close>: configuration and credential hubs under the locale \<open>persist_then_apply\<close>.
  \<^item> \<^verbatim>\<open>Daemon\<close>: the actor of \<^verbatim>\<open>server.rs\<close>, every request and command; \<^verbatim>\<open>Daemon_Inv\<close>: the abstract
    registry it refines; \<^verbatim>\<open>Daemon_System\<close>: connections, command channel, hubs, signals and drain
    as one transition system; \<^verbatim>\<open>Daemon_Safety\<close>, \<^verbatim>\<open>Daemon_Owner\<close>, \<^verbatim>\<open>Daemon_Progress\<close>: its invariants;
    \<^verbatim>\<open>Daemon_Runs\<close>: what they give of every run, and a concrete daemon.
  \<^item> \<^verbatim>\<open>Watch_Channel\<close>: watch channels; \<^verbatim>\<open>Provider_Sources\<close>: the providers' settings, credentials and
    REST clients (\<^verbatim>\<open>providers/runtime.rs\<close>, \<^verbatim>\<open>credentials.rs\<close>); \<^verbatim>\<open>Provider_Hub\<close>: the hub task of
    \<^verbatim>\<open>providers/alpaca.rs\<close> and \<^verbatim>\<open>alpaca_crypto.rs\<close> as one transition system over its sources and the
    outcomes of its network calls; \<^verbatim>\<open>Provider_Hub_Inv\<close>, \<^verbatim>\<open>Provider_Hub_Runs\<close>: what holds in every run,
    under the locale \<open>stream_hub\<close>, interpreted for both providers.
  \<^item> \<^verbatim>\<open>Provider_Numbers\<close>: floating point to fixed point and dates to nanoseconds; \<^verbatim>\<open>Alpaca_Provider\<close>,
    \<^verbatim>\<open>Alpaca_Hub\<close>, \<^verbatim>\<open>Alpaca_Fetch\<close>: the equity provider, its hub, its fetches and the read-through
    over them; \<^verbatim>\<open>Crypto_Provider\<close>: the crypto provider, and both behind the facade.

  \<^bold>\<open>Conventions.\<close> A w-bit integer is a word; a panic is \<open>None\<close>; an error is \<open>Inl\<close>. A \<^verbatim>\<open>select!\<close>
  loop takes its choices from an explicit schedule, so every theorem quantifies over all
  interleavings; a schedule that runs out is the loop still waiting. A statement or send that
  may fail takes its outcome from a list of faults, success once the list is used up.
  Providers, the engine below the tables and the clock are arguments. Loops are structural
  recursion over schedules and inputs; there is no fuel except \<open>BUSY_RETRIES\<close>, which is the
  source's own bound.

  \<^bold>\<open>Not modelled.\<close> The rounding of binary64 products (an argument of the conversions), serde
  formats, the HTTP and websocket surfaces and their clients, the vendor's network client (its
  answers are arguments and inputs), credential stores, Windows security descriptors and process
  supervision: they are I/O or third-party formats.
\<close>

section \<open>From a live stream to its recording\<close>

text \<open>
  What the tap log's queue hands the writer for a list of appended events: the events in
  order, with the points where the queue ran empty anywhere in between.
\<close>

definition queued :: "market_event list \<Rightarrow> tap_act list \<Rightarrow> bool" where
  "queued recorded acts \<longleftrightarrow> TapFlush \<notin> set acts \<and> concat (map (\<lambda>a. case a of TapEvent ev \<Rightarrow> [ev] | _ \<Rightarrow> []) acts) = recorded"

lemma queued_tapped: "queued recorded acts \<Longrightarrow> tapped acts = filter is_data recorded"
  by (auto simp: queued_def tapped_def)

lemma wanted_data: "wanted rq ev \<Longrightarrow> is_data ev"
  by (cases ev) (simp_all add: wanted_def is_data_def data_source_ts_def)

lemma filter_wanted_data: "filter (wanted rq) (filter is_data tr) = filter (wanted rq) tr"
  using wanted_data by (induction tr) auto

text \<open>C5: Capture and replay. What a live loop with capture on streams, written through the tap
  log's writer in any batching and flushed, replays: for every request, exactly the wanted
  events of the stream, in stream order.\<close>

theorem capture_replays:
  assumes "live_loop seed ins c = Some (ended, c')" "no_reconfig ins" "teeing c" "ct_tap_log c = Some []"
    and "queued (the (ct_tap_log c')) acts" "2 * length acts < 2 ^ 64"
  shows "\<exists>tr w'. ct_trace c' = ct_trace c @ tr
    \<and> handle_flush (writer_run acts (tap_open [] tap_empty)) = (Inr (), w')
    \<and> (\<forall>rq. tap_replay bad (tw_disk w') rq = Inr (filter (wanted rq) tr))"
proof -
  obtain tr where tr: "ct_trace c' = ct_trace c @ tr" "ct_tap_log c' = Some (filter is_data tr)"
    using live_loop_captures [OF assms(1-3)] assms(4) by (auto simp: captured_def)
  have "TapFlush \<notin> set acts" and events: "tapped acts = filter is_data tr"
    using assms(5) tr(2) queued_tapped [OF assms(5)] by (simp_all add: queued_def)
  from clean_flush [OF assms(6) this(1), of bad] show ?thesis
    using tr(1) by (simp only: events filter_wanted_data) blast
qed

lemma demo_capture:
  "map_option (\<lambda>r. ct_tap_log (snd r)) (live_loop True demo_ins demo_live) = Some (Some [demo_trade 1 0, demo_trade 3 1])"
  by (simp add: demo_ins_def demo_live_def new_controller_def forward_def forward_with_def note_provider_arrival_def
      tee_def deliver_with_def emit_def deliver_def stamp_def handle_command_def shutdown_def Let_def with_tap_log_def
      checked_add_u64_def u64_max_def demo_trade_def is_data_def teardown_upstream_def
      live_should_teardown_def should_teardown_def fanout_def fanout_add_def fanout_new_def is_active_subscription_def
      offer_def send_event_def chan_new_def try_send_def List.map_filter_simps)

theorem capture_replays_witness:
  "\<exists>ended c' tr w'. live_loop True demo_ins demo_live = Some (ended, c')
     \<and> ct_trace c' = ct_trace demo_live @ tr
     \<and> handle_flush (writer_run [TapEvent (demo_trade 1 0), TapDrained, TapEvent (demo_trade 3 1)] (tap_open [] tap_empty)) = (Inr (), w')
     \<and> (\<forall>rq. tap_replay [] (tw_disk w') rq = Inr (filter (wanted rq) tr))"
proof -
  obtain ended c' where run: "live_loop True demo_ins demo_live = Some (ended, c')"
      "ct_tap_log c' = Some [demo_trade 1 0, demo_trade 3 1]"
    using demo_capture by auto
  then have q: "queued (the (ct_tap_log c')) [TapEvent (demo_trade 1 0), TapDrained, TapEvent (demo_trade 3 1)]"
    by (simp add: queued_def)
  from capture_replays [OF run(1) demo_live_log(3,1,2) q, of "[]"] run(1) show ?thesis by fastforce
qed

end
